(* ===== verification/Bs_Prelude.thy ===== *)
theory Bs_Prelude
  imports Main "HOL-Library.Word" "HOL-Library.AList"
begin

section \<open>Prelude: results, bytes, strings and finite maps\<close>

text \<open>
  What every component of the model shares.

  \<^item> \<open>res\<close> is the outcome of a Rust function of type \<open>IOResult<T>\<close>: a value, an
    \<open>io::Error\<close> (its \<open>ErrorKind\<close> and message) or a panic of the calling thread
    (\<open>unwrap\<close> on an error, an index out of range).
  \<^item> Machine integers are words of their width.  \<open>usize\<close> values that count elements of a
    vector are \<open>nat\<close>.  Arithmetic is that of a release build: it wraps.
  \<^item> A \<open>String\<close> is the list of its UTF-8 bytes, as \<open>char list\<close>.
  \<^item> A \<open>HashMap\<close> whose size or iteration matters is an association list with
    distinct keys (\<open>AList.update\<close>, \<open>AList.delete\<close>, \<open>map_of\<close>).
\<close>

named_theorems res_simps \<open>case analysis of outcomes\<close>
named_theorems byte_simps \<open>byte-level rewriting\<close>

subsection \<open>Types\<close>

type_synonym byte = "8 word"
type_synonym u8 = "8 word"
type_synonym u16 = "16 word"
type_synonym u32 = "32 word"
type_synonym u64 = "64 word"
type_synonym i8 = "8 word"
type_synonym i16 = "16 word"
type_synonym i32 = "32 word"
type_synonym i64 = "64 word"
type_synonym f32 = "32 word" \<comment> \<open>the IEEE-754 bit pattern\<close>
type_synonym f64 = "64 word"

text \<open>The variants of \<open>std::io::ErrorKind\<close> the crate names.\<close>

datatype error_kind =
    NotFound | PermissionDenied | ConnectionRefused | ConnectionReset | ConnectionAborted
  | NotConnected | AddrInUse | AddrNotAvailable | BrokenPipe | AlreadyExists | WouldBlock
  | InvalidInput | InvalidData | TimedOut | Interrupted | Unsupported | UnexpectedEof
  | OutOfMemory | NotSeekable | OtherError

type_synonym io_error = "error_kind \<times> string"

datatype 'a res = Ok 'a | Err io_error | Panic

subsection \<open>Outcomes\<close>

text \<open>\<open>res_bind\<close> is the \<open>?\<close> operator; a panic unwinds through it like an error returns.\<close>

fun res_bind :: "'a res \<Rightarrow> ('a \<Rightarrow> 'b res) \<Rightarrow> 'b res" where
  "res_bind (Ok x) f = f x"
| "res_bind (Err e) f = Err e"
| "res_bind Panic f = Panic"

fun res_map :: "('a \<Rightarrow> 'b) \<Rightarrow> 'a res \<Rightarrow> 'b res" where
  "res_map f (Ok x) = Ok (f x)"
| "res_map f (Err e) = Err e"
| "res_map f Panic = Panic"

text \<open>\<open>Result::unwrap\<close>, \<open>Result::ok\<close>, \<open>Result::map_err\<close>.\<close>

fun unwrap :: "'a res \<Rightarrow> 'a res" where
  "unwrap (Ok x) = Ok x"
| "unwrap (Err e) = Panic"
| "unwrap Panic = Panic"

fun res_ok :: "'a res \<Rightarrow> 'a option res" where
  "res_ok (Ok x) = Ok (Some x)"
| "res_ok (Err e) = Ok None"
| "res_ok Panic = Panic"

fun map_err :: "(io_error \<Rightarrow> io_error) \<Rightarrow> 'a res \<Rightarrow> 'a res" where
  "map_err f (Ok x) = Ok x"
| "map_err f (Err e) = Err (f e)"
| "map_err f Panic = Panic"

text \<open>\<open>Option::unwrap\<close> and \<open>Option::ok_or\<close>.\<close>

fun opt_unwrap :: "'a option \<Rightarrow> 'a res" where
  "opt_unwrap (Some x) = Ok x"
| "opt_unwrap None = Panic"

fun ok_or :: "io_error \<Rightarrow> 'a option \<Rightarrow> 'a res" where
  "ok_or e (Some x) = Ok x"
| "ok_or e None = Err e"

fun of_sum :: "io_error + 'a \<Rightarrow> 'a res" where
  "of_sum (Inl e) = Err e"
| "of_sum (Inr x) = Ok x"

text \<open>A \<open>for\<close> loop that pushes one result per item and leaves at the first failure.\<close>

fun res_mapM :: "('a \<Rightarrow> 'b res) \<Rightarrow> 'a list \<Rightarrow> 'b list res" where
  "res_mapM f [] = Ok []"
| "res_mapM f (x # xs) = res_bind (f x) (\<lambda>y. res_map ((#) y) (res_mapM f xs))"

text \<open>\<open>iter().map(f).collect::<Option<Vec<_>>>()\<close>.\<close>

fun opt_mapM :: "('a \<Rightarrow> 'b option) \<Rightarrow> 'a list \<Rightarrow> 'b list option" where
  "opt_mapM f [] = Some []"
| "opt_mapM f (x # xs) =
     (case f x of None \<Rightarrow> None
      | Some y \<Rightarrow> (case opt_mapM f xs of None \<Rightarrow> None | Some ys \<Rightarrow> Some (y # ys)))"

lemma res_bind_eq_Ok [res_simps]:
  "res_bind m f = Ok y \<longleftrightarrow> (\<exists>x. m = Ok x \<and> f x = Ok y)"
  by (cases m) auto

lemma res_map_eq_Ok [res_simps]: "res_map f m = Ok y \<longleftrightarrow> (\<exists>x. m = Ok x \<and> y = f x)"
  by (cases m) auto

lemma res_map_eq_Err [res_simps]: "res_map f m = Err e \<longleftrightarrow> m = Err e"
  by (cases m) auto

lemma res_map_eq_Panic [res_simps]: "res_map f m = Panic \<longleftrightarrow> m = Panic"
  by (cases m) auto

lemma res_bind_eq_Panic [res_simps]:
  "res_bind m f = Panic \<longleftrightarrow> m = Panic \<or> (\<exists>x. m = Ok x \<and> f x = Panic)"
  by (cases m) auto

lemma res_bind_eq_Err [res_simps]:
  "res_bind m f = Err e \<longleftrightarrow> m = Err e \<or> (\<exists>x. m = Ok x \<and> f x = Err e)"
  by (cases m) auto

lemma unwrap_eq_Ok [res_simps]: "unwrap m = Ok x \<longleftrightarrow> m = Ok x"
  by (cases m) auto

lemma unwrap_eq_Panic [res_simps]: "unwrap m = Panic \<longleftrightarrow> (\<forall>x. m \<noteq> Ok x)"
  by (cases m) auto

lemma unwrap_not_Err [simp]: "unwrap m \<noteq> Err e"
  by (cases m) auto

lemma map_err_eq_Ok [res_simps]: "map_err f m = Ok x \<longleftrightarrow> m = Ok x"
  by (cases m) auto

lemma ok_or_eq_Ok [res_simps]: "ok_or e m = Ok x \<longleftrightarrow> m = Some x"
  by (cases m) auto

lemma ok_or_not_Panic [simp]: "ok_or e m \<noteq> Panic"
  by (cases m) auto

lemma res_bind_assoc: "res_bind (res_bind m f) g = res_bind m (\<lambda>x. res_bind (f x) g)"
  by (cases m) auto

lemma res_mapM_length: "res_mapM f xs = Ok ys \<Longrightarrow> length ys = length xs"
  by (induction xs arbitrary: ys) (auto simp: res_simps)

lemma res_mapM_nth: "res_mapM f xs = Ok ys \<Longrightarrow> i < length xs \<Longrightarrow> f (xs ! i) = Ok (ys ! i)"
  by (induction xs arbitrary: ys i) (auto simp: res_simps nth_Cons split: nat.splits)

lemma res_mapM_Ok: "(\<And>x. x \<in> set xs \<Longrightarrow> f x = Ok (g x)) \<Longrightarrow> res_mapM f xs = Ok (map g xs)"
  by (induction xs) auto

lemma res_mapM_map: "res_mapM f (map g xs) = res_mapM (f \<circ> g) xs"
  by (induction xs) auto

lemma opt_mapM_Some: "(\<And>x. x \<in> set xs \<Longrightarrow> f x = Some (g x)) \<Longrightarrow> opt_mapM f xs = Some (map g xs)"
  by (induction xs) auto

lemma opt_mapM_map: "opt_mapM f (map g xs) = opt_mapM (f \<circ> g) xs"
  by (induction xs) (auto split: option.splits)

lemma opt_mapM_length: "opt_mapM f xs = Some ys \<Longrightarrow> length ys = length xs"
  by (induction xs arbitrary: ys) (auto split: option.splits)

lemma opt_mapM_eq_None: "opt_mapM f xs = None \<longleftrightarrow> (\<exists>x \<in> set xs. f x = None)"
  by (induction xs) (auto split: option.splits)

subsection \<open>Bytes\<close>

datatype endian = LittleEndian | BigEndian

text \<open>
  The standard library's \<open>from_le_bytes\<close> and \<open>to_le_bytes\<close> at any width, on the
  unsigned value; the big-endian forms reverse the bytes.
\<close>

fun of_le :: "byte list \<Rightarrow> nat" where
  "of_le [] = 0"
| "of_le (b # bs) = unat b + 256 * of_le bs"

fun to_le :: "nat \<Rightarrow> nat \<Rightarrow> byte list" where
  "to_le 0 x = []"
| "to_le (Suc n) x = word_of_nat x # to_le n (x div 256)"

fun bytes_to_nat :: "endian \<Rightarrow> byte list \<Rightarrow> nat" where
  "bytes_to_nat LittleEndian bs = of_le bs"
| "bytes_to_nat BigEndian bs = of_le (rev bs)"

fun nat_to_bytes :: "endian \<Rightarrow> nat \<Rightarrow> nat \<Rightarrow> byte list" where
  "nat_to_bytes LittleEndian n x = to_le n x"
| "nat_to_bytes BigEndian n x = rev (to_le n x)"

lemma unat_byte_of_nat [byte_simps]: "unat (word_of_nat x :: byte) = x mod 256"
  by (simp add: unat_of_nat)

lemma unat_byte_bound: "unat (b :: byte) < 256"
  by (rule order.strict_trans2 [OF unsigned_less]) simp

lemma length_to_le [simp]: "length (to_le n x) = n"
  by (induction n arbitrary: x) auto

lemma length_nat_to_bytes [simp]: "length (nat_to_bytes e n x) = n"
  by (cases e) auto

lemma of_le_to_le: "of_le (to_le n x) = x mod 256 ^ n"
  by (induction n arbitrary: x) (auto simp: byte_simps mod_mult2_eq)

lemma to_le_of_le: "length bs = n \<Longrightarrow> to_le n (of_le bs) = bs"
proof (induction bs arbitrary: n)
  case Nil
  then show ?case by simp
next
  case (Cons b bs)
  have "unat b < 256" by (rule unat_byte_bound)
  then have "(unat b + 256 * of_le bs) div 256 = of_le bs"
    by simp
  moreover have "(256 :: byte) = 0" by simp
  then have "(word_of_nat (unat b + 256 * of_le bs) :: byte) = b"
    by (simp only: of_nat_add of_nat_mult of_nat_numeral) simp
  ultimately show ?case using Cons by auto
qed

lemma of_le_bound: "of_le bs < 256 ^ length bs"
proof (induction bs)
  case Nil
  then show ?case by simp
next
  case (Cons b bs)
  have "unat b < 256" by (rule unat_byte_bound)
  with Cons show ?case by simp
qed

lemma bytes_to_nat_to_bytes: "x < 256 ^ n \<Longrightarrow> bytes_to_nat e (nat_to_bytes e n x) = x"
  by (cases e) (simp_all add: of_le_to_le)

lemma nat_to_bytes_to_nat: "length bs = n \<Longrightarrow> nat_to_bytes e n (bytes_to_nat e bs) = bs"
  by (cases e) (simp_all add: to_le_of_le)

lemma bytes_to_nat_bound: "bytes_to_nat e bs < 256 ^ length bs"
  using of_le_bound [of bs] of_le_bound [of "rev bs"] by (cases e) auto

lemma to_le_zero: "to_le n 0 = replicate n 0"
  by (induction n) auto

lemma nat_to_bytes_zero: "nat_to_bytes e n 0 = replicate n 0"
  by (cases e) (simp_all add: to_le_zero)

text \<open>The width of a word type in bytes.\<close>

definition nbytes :: "'a::len itself \<Rightarrow> nat" where
  "nbytes T = LENGTH('a) div 8"

lemma nbytes_simps [simp]:
  "nbytes TYPE(8) = 1" "nbytes TYPE(16) = 2" "nbytes TYPE(32) = 4" "nbytes TYPE(64) = 8"
  by (simp_all add: nbytes_def)

text \<open>\<open>chunks_exact\<close>: consecutive pieces of \<open>w\<close> bytes; a shorter rest is left out.\<close>

function chunks_exact :: "nat \<Rightarrow> 'a list \<Rightarrow> 'a list list" where
  "chunks_exact w bs =
     (if w = 0 \<or> length bs < w then [] else take w bs # chunks_exact w (drop w bs))"
  by pat_completeness auto
termination
  by (relation "measure (\<lambda>(w, bs). length bs)") auto

declare chunks_exact.simps [simp del]

lemma chunks_exact_short [simp]: "length bs < w \<Longrightarrow> chunks_exact w bs = []"
  by (subst chunks_exact.simps) simp

lemma chunks_exact_append:
  "0 < w \<Longrightarrow> length b = w \<Longrightarrow> chunks_exact w (b @ bs) = b # chunks_exact w bs"
  by (subst chunks_exact.simps) simp

lemma chunks_exact_concat:
  assumes "0 < w" and "\<And>x. x \<in> set xs \<Longrightarrow> length x = w" and "length r < w"
  shows "chunks_exact w (concat xs @ r) = xs"
  using assms(2,3) by (induction xs) (simp_all add: chunks_exact_append [OF assms(1)])

lemma length_chunks_exact: "0 < w \<Longrightarrow> length (chunks_exact w bs) = length bs div w"
proof (induction w bs rule: chunks_exact.induct)
  case (1 w bs)
  show ?case
  proof (cases "length bs < w")
    case True
    then show ?thesis by simp
  next
    case False
    with 1 show ?thesis by (subst chunks_exact.simps) (simp add: le_div_geq)
  qed
qed

lemma chunks_exact_width: "c \<in> set (chunks_exact w bs) \<Longrightarrow> length c = w"
proof (induction w bs rule: chunks_exact.induct)
  case (1 w bs)
  from "1.prems" have nz: "\<not> (w = 0 \<or> length bs < w)"
    by (subst (asm) chunks_exact.simps) (simp split: if_splits)
  with "1.prems" have "c = take w bs \<or> c \<in> set (chunks_exact w (drop w bs))"
    by (subst (asm) chunks_exact.simps) auto
  with "1.IH" nz show ?case by auto
qed

lemma concat_chunks_exact: "0 < w \<Longrightarrow> w dvd length bs \<Longrightarrow> concat (chunks_exact w bs) = bs"
proof (induction w bs rule: chunks_exact.induct)
  case (1 w bs)
  show ?case
  proof (cases "length bs < w")
    case True
    with "1.prems" have "bs = []" by (auto dest: nat_dvd_not_less)
    with True show ?thesis by simp
  next
    case False
    with "1.prems" have "w dvd length (drop w bs)" by simp
    with False "1.IH" "1.prems"(1) have "concat (chunks_exact w (drop w bs)) = drop w bs"
      by simp
    moreover from False "1.prems"(1)
    have "chunks_exact w bs = take w bs # chunks_exact w (drop w bs)"
      by (subst chunks_exact.simps) simp
    ultimately show ?thesis by simp
  qed
qed

subsection \<open>Decimal text\<close>

text \<open>\<open>Display\<close> of the integer types, and of a slice with \<open>{:?}\<close>.\<close>

definition digit_char :: "nat \<Rightarrow> char" where
  "digit_char d = char_of (48 + d)"

fun show_nat :: "nat \<Rightarrow> string" where
  "show_nat n = (if n < 10 then [digit_char n] else show_nat (n div 10) @ [digit_char (n mod 10)])"

declare show_nat.simps [simp del]

definition show_int :: "int \<Rightarrow> string" where
  "show_int i = (if i < 0 then ''-'' @ show_nat (nat (- i)) else show_nat (nat i))"

fun join :: "string \<Rightarrow> string list \<Rightarrow> string" where
  "join sep [] = []"
| "join sep [x] = x"
| "join sep (x # y # xs) = x @ sep @ join sep (y # xs)"

definition show_slice :: "string list \<Rightarrow> string" where
  "show_slice xs = ''['' @ join '', '' xs @ '']''"

lemma show_nat_nonempty: "show_nat n \<noteq> []"
  by (subst show_nat.simps) simp

end
