(* ===== verification/Bs_Containers.thy ===== *)
theory Bs_Containers
  imports Bs_Prelude "HOL-Library.Sublist"
begin

section \<open>Containers: LimitedHashMap and FifoQueue (src/src/utils.rs)\<close>

text \<open>
  \<^item> \<open>LimitedHashMap\<close>: a map with a queue of its keys; an insertion moves the key to the
    back and evicts the front key when the map grows past \<open>max_size\<close>.  Its abstract
    specification is a recency list (\<open>lru_insert\<close>, \<open>lru_limit\<close>).
  \<^item> \<open>FifoQueue\<close>: a bounded queue that drops its oldest entry.  Its threads are the steps
    of \<open>fifo_step\<close>, one critical section per step.
  \<^item> The locales \<open>bounded_cache\<close> and \<open>lossy_queue\<close> are the interfaces the message parser
    and the receiver rely on; both are interpreted here on the models.
\<close>

subsection \<open>LimitedHashMap\<close>

text \<open>
  \<open>lhm_alloc\<close> is \<open>map.capacity() > 0\<close>: a \<open>HashMap\<close> made by \<open>new\<close> or
  \<open>with_capacity(0)\<close> holds no allocation, and one that has allocated keeps it.
\<close>

record ('k, 'v) lhm =
  lhm_map :: "('k \<times> 'v) list"
  lhm_order :: "'k list"
  lhm_max :: nat
  lhm_alloc :: bool

definition lhm_new :: "nat \<Rightarrow> ('k, 'v) lhm" where
  "lhm_new n = \<lparr>lhm_map = [], lhm_order = [], lhm_max = n, lhm_alloc = (0 < n)\<rparr>"

definition lhm_void :: "('k, 'v) lhm" where
  "lhm_void = \<lparr>lhm_map = [], lhm_order = [], lhm_max = 1, lhm_alloc = False\<rparr>"

definition lhm_is_void :: "('k, 'v) lhm \<Rightarrow> bool" where
  "lhm_is_void m \<longleftrightarrow> \<not> lhm_alloc m \<and> lhm_max m = 1"

definition lhm_get :: "('k, 'v) lhm \<Rightarrow> 'k \<Rightarrow> 'v option" where
  "lhm_get m k = map_of (lhm_map m) k"

definition lhm_len :: "('k, 'v) lhm \<Rightarrow> nat" where
  "lhm_len m = length (lhm_map m)"

definition lhm_keys :: "('k, 'v) lhm \<Rightarrow> 'k list" where
  "lhm_keys m = lhm_order m"

text \<open>One eviction: \<open>if let Some(k) = order.pop_front() { map.remove(&k) }\<close>.\<close>

fun evict_oldest :: "('k \<times> 'v) list \<times> 'k list \<Rightarrow> ('k \<times> 'v) list \<times> 'k list" where
  "evict_oldest (m, []) = (m, [])"
| "evict_oldest (m, k # ks) = (AList.delete k m, ks)"

definition lhm_insert :: "('k, 'v) lhm \<Rightarrow> 'k \<Rightarrow> 'v \<Rightarrow> ('k, 'v) lhm" where
  "lhm_insert m k v =
     (let order1 = (if map_of (lhm_map m) k \<noteq> None then filter (\<lambda>x. x \<noteq> k) (lhm_order m)
                    else lhm_order m);
          map1 = AList.update k v (lhm_map m);
          order2 = order1 @ [k];
          (map2, order3) = (if lhm_max m < length map1 then evict_oldest (map1, order2)
                            else (map1, order2))
      in m\<lparr>lhm_map := map2, lhm_order := order3, lhm_alloc := True\<rparr>)"

definition lhm_remove :: "('k, 'v) lhm \<Rightarrow> 'k \<Rightarrow> 'v option \<times> ('k, 'v) lhm" where
  "lhm_remove m k =
     (map_of (lhm_map m) k,
      m\<lparr>lhm_order := (if map_of (lhm_map m) k \<noteq> None then filter (\<lambda>x. x \<noteq> k) (lhm_order m)
                      else lhm_order m),
        lhm_map := AList.delete k (lhm_map m)\<rparr>)"

text \<open>
  The \<open>while\<close> loop of \<open>set_max_size\<close>.  With an empty key queue and a map that is
  still too large its body does nothing: the loop never ends, which is \<open>None\<close> here.
\<close>

fun shrink_loop :: "nat \<Rightarrow> ('k \<times> 'v) list \<Rightarrow> 'k list \<Rightarrow> (('k \<times> 'v) list \<times> 'k list) option" where
  "shrink_loop n m [] = (if n < length m then None else Some (m, []))"
| "shrink_loop n m (k # ks) =
     (if n < length m then shrink_loop n (AList.delete k m) ks else Some (m, k # ks))"

definition lhm_set_max_size :: "('k, 'v) lhm \<Rightarrow> nat \<Rightarrow> ('k, 'v) lhm option" where
  "lhm_set_max_size m n =
     (case shrink_loop n (lhm_map m) (lhm_order m) of
        None \<Rightarrow> None
      | Some (map1, order1) \<Rightarrow> Some (m\<lparr>lhm_max := n, lhm_map := map1, lhm_order := order1\<rparr>))"

subsection \<open>Its invariant\<close>

definition keys_agree :: "('k \<times> 'v) list \<Rightarrow> 'k list \<Rightarrow> bool" where
  "keys_agree m ks \<longleftrightarrow> distinct (map fst m) \<and> distinct ks \<and> set ks = fst ` set m"

definition lhm_ok :: "('k, 'v) lhm \<Rightarrow> bool" where
  "lhm_ok m \<longleftrightarrow> keys_agree (lhm_map m) (lhm_order m) \<and> length (lhm_map m) \<le> lhm_max m"

lemma keys_agree_length: "keys_agree m ks \<Longrightarrow> length m = length ks"
  unfolding keys_agree_def by (metis distinct_card length_map list.set_map)

lemma map_of_ne_None_iff: "map_of m k \<noteq> None \<longleftrightarrow> k \<in> fst ` set m"
  by (metis map_of_eq_None_iff)

lemma fst_delete: "fst ` set (AList.delete k m) = fst ` set m - {k}"
  by (auto simp: AList.delete_eq image_iff)

lemma keys_agree_delete:
  "keys_agree m (k # ks) \<Longrightarrow> keys_agree (AList.delete k m) ks"
  by (auto simp: keys_agree_def fst_delete distinct_delete)

lemma keys_agree_remove:
  "keys_agree m ks \<Longrightarrow> keys_agree (AList.delete k m) (filter (\<lambda>x. x \<noteq> k) ks)"
  by (auto simp: keys_agree_def fst_delete distinct_delete)

lemma keys_agree_update:
  assumes "keys_agree m ks"
  shows "keys_agree (AList.update k v m) (filter (\<lambda>x. x \<noteq> k) ks @ [k])"
proof -
  have "fst ` set (AList.update k v m) = insert k (fst ` set m)"
    using dom_update [of k v m] by (simp add: dom_map_of_conv_image_fst)
  with assms show ?thesis by (auto simp: keys_agree_def distinct_update)
qed

lemma filter_absent: "k \<notin> set ks \<Longrightarrow> filter (\<lambda>x. x \<noteq> k) ks = ks"
  by (induction ks) auto

lemma order_after_insert:
  "keys_agree (lhm_map m) (lhm_order m) \<Longrightarrow>
   (if map_of (lhm_map m) k \<noteq> None then filter (\<lambda>x. x \<noteq> k) (lhm_order m) else lhm_order m)
     = filter (\<lambda>x. x \<noteq> k) (lhm_order m)"
  by (simp add: keys_agree_def map_of_eq_None_iff filter_absent)

lemma lhm_insert_eq:
  assumes "lhm_ok m"
  shows "lhm_insert m k v =
     (let ks = filter (\<lambda>x. x \<noteq> k) (lhm_order m) @ [k]; m1 = AList.update k v (lhm_map m)
      in m\<lparr>lhm_map := (if lhm_max m < length m1 then AList.delete (hd ks) m1 else m1),
           lhm_order := (if lhm_max m < length m1 then tl ks else ks),
           lhm_alloc := True\<rparr>)"
proof -
  have "keys_agree (lhm_map m) (lhm_order m)"
    using assms by (simp add: lhm_ok_def)
  note ord = order_after_insert [OF this, of k]
  have ev: "ks \<noteq> [] \<Longrightarrow> evict_oldest (n, ks) = (AList.delete (hd ks) n, tl ks)"
    for n :: "('a \<times> 'b) list" and ks
    by (cases ks) auto
  show ?thesis
    by (simp only: lhm_insert_def ord Let_def) (simp add: ev)
qed

lemma length_filter_ne: "distinct ks \<Longrightarrow> k \<in> set ks \<Longrightarrow> Suc (length (filter (\<lambda>x. x \<noteq> k) ks)) = length ks"
  by (induction ks) (auto simp: filter_absent)

lemma keys_agree_update_length:
  assumes "keys_agree m ks"
  shows "length (AList.update k v m) \<le> Suc (length m)"
  using keys_agree_length [OF keys_agree_update [OF assms, of k v]] keys_agree_length [OF assms]
  by simp

lemma lhm_ok_new [simp]: "lhm_ok (lhm_new n)"
  by (simp add: lhm_ok_def lhm_new_def keys_agree_def)

lemma lhm_ok_void [simp]: "lhm_ok lhm_void"
  by (simp add: lhm_ok_def lhm_void_def keys_agree_def)

lemma lhm_insert_max [simp]: "lhm_max (lhm_insert m k v) = lhm_max m"
  by (simp add: lhm_insert_def Let_def split: prod.splits)

lemma keys_agree_evict:
  assumes "keys_agree m ks" and "ks \<noteq> []"
  shows "keys_agree (AList.delete (hd ks) m) (tl ks)"
    and "length (AList.delete (hd ks) m) = length m - 1"
  using assms keys_agree_delete [of m "hd ks" "tl ks"]
    keys_agree_length [of m ks] keys_agree_length [of "AList.delete (hd ks) m" "tl ks"]
  by simp_all

lemma lhm_ok_insert:
  assumes "lhm_ok m"
  shows "lhm_ok (lhm_insert m k v)"
proof -
  let ?m1 = "AList.update k v (lhm_map m)" and ?ks = "filter (\<lambda>x. x \<noteq> k) (lhm_order m) @ [k]"
  have ka: "keys_agree (lhm_map m) (lhm_order m)" and le: "length (lhm_map m) \<le> lhm_max m"
    using assms by (auto simp: lhm_ok_def)
  note up = keys_agree_update [OF ka, of k v]
  have "length ?m1 - 1 \<le> lhm_max m"
    using keys_agree_update_length [OF ka, of k v] le by simp
  with up show ?thesis
    by (simp add: lhm_insert_eq [OF assms] lhm_ok_def Let_def keys_agree_evict)
qed

lemma lhm_ok_remove: "lhm_ok m \<Longrightarrow> lhm_ok (snd (lhm_remove m k))"
  using keys_agree_remove [of "lhm_map m" "lhm_order m" k] length_delete_le [of k "lhm_map m"]
  by (simp only: lhm_ok_def lhm_remove_def order_after_insert snd_conv lhm.simps lhm.select_convs)
     (auto simp: order_after_insert)

subsection \<open>Refinement: a recency list\<close>

text \<open>
  The abstract cache is the list of its entries, least recently written first.  An
  insertion removes the old entry, appends the new one and keeps the last \<open>n\<close>.
\<close>

definition lru_limit :: "nat \<Rightarrow> 'a list \<Rightarrow> 'a list" where
  "lru_limit n l = drop (length l - n) l"

definition lru_insert :: "nat \<Rightarrow> 'k \<Rightarrow> 'v \<Rightarrow> ('k \<times> 'v) list \<Rightarrow> ('k \<times> 'v) list" where
  "lru_insert n k v l = lru_limit n (filter (\<lambda>p. fst p \<noteq> k) l @ [(k, v)])"

definition entries :: "('k \<times> 'v) list \<Rightarrow> 'k list \<Rightarrow> ('k \<times> 'v) list" where
  "entries m ks = map (\<lambda>k. (k, the (map_of m k))) ks"

definition lhm_abs :: "('k, 'v) lhm \<Rightarrow> ('k \<times> 'v) list" where
  "lhm_abs m = entries (lhm_map m) (lhm_order m)"

lemma lru_limit_append: "lru_limit n (lru_limit n l @ xs) = lru_limit n (l @ xs)"
proof -
  let ?d = "length l - n"
  have "drop ?d l @ xs = drop ?d (l @ xs)" by simp
  moreover have "(length l - ?d + length xs - n) + ?d = length l + length xs - n" by simp
  ultimately show ?thesis by (simp add: lru_limit_def del: drop_append)
qed

lemma length_entries [simp]: "length (entries m ks) = length ks"
  by (simp add: entries_def)

lemma entries_update:
  "entries (AList.update k v m) (filter (\<lambda>x. x \<noteq> k) ks @ [k])
     = filter (\<lambda>p. fst p \<noteq> k) (entries m ks) @ [(k, v)]"
  by (simp add: entries_def update_conv' filter_map comp_def)

lemma entries_delete_hd:
  "distinct ks \<Longrightarrow> entries (AList.delete (hd ks) m) (tl ks) = tl (entries m ks)"
  by (cases ks) (auto simp: entries_def delete_conv')

lemma entries_remove:
  "entries (AList.delete k m) (filter (\<lambda>x. x \<noteq> k) ks) = filter (\<lambda>p. fst p \<noteq> k) (entries m ks)"
  by (induction ks) (auto simp: entries_def delete_conv')

lemma map_of_entries:
  assumes "keys_agree m ks"
  shows "map_of (entries m ks) k = map_of m k"
proof (cases "k \<in> set ks")
  case True
  have "map_of (map (\<lambda>k. (k, the (map_of m k))) ks) k = Some (the (map_of m k))"
    using True by (induction ks) auto
  moreover have "map_of m k \<noteq> None"
    using True assms by (auto simp: keys_agree_def map_of_eq_None_iff)
  ultimately show ?thesis by (auto simp: entries_def)
next
  case False
  then have "k \<notin> fst ` set (entries m ks)" by (simp add: entries_def image_image)
  then have "map_of (entries m ks) k = None" by (simp add: map_of_eq_None_iff)
  moreover have "map_of m k = None"
    using False assms by (simp add: keys_agree_def map_of_eq_None_iff)
  ultimately show ?thesis by simp
qed

lemma lhm_get_abs: "lhm_ok m \<Longrightarrow> lhm_get m k = map_of (lhm_abs m) k"
  by (simp add: lhm_get_def lhm_abs_def lhm_ok_def map_of_entries)

lemma lhm_len_abs: "lhm_ok m \<Longrightarrow> lhm_len m = length (lhm_abs m)"
  by (simp add: lhm_len_def lhm_abs_def lhm_ok_def keys_agree_length)

lemma lhm_keys_abs: "lhm_keys m = map fst (lhm_abs m)"
  by (simp add: lhm_keys_def lhm_abs_def entries_def comp_def)

lemma lhm_insert_refines:
  assumes "lhm_ok m"
  shows "lhm_abs (lhm_insert m k v) = lru_insert (lhm_max m) k v (lhm_abs m)"
proof -
  let ?m1 = "AList.update k v (lhm_map m)" and ?ks = "filter (\<lambda>x. x \<noteq> k) (lhm_order m) @ [k]"
  have ka: "keys_agree (lhm_map m) (lhm_order m)" and le: "length (lhm_map m) \<le> lhm_max m"
    using assms by (auto simp: lhm_ok_def)
  note up = keys_agree_update [OF ka, of k v]
  have len: "length ?m1 = length ?ks" using up by (rule keys_agree_length)
  have small: "length ?m1 - lhm_max m \<le> 1"
    using keys_agree_update_length [OF ka, of k v] le by simp
  have e: "entries ?m1 ?ks = filter (\<lambda>p. fst p \<noteq> k) (lhm_abs m) @ [(k, v)]"
    by (simp add: entries_update lhm_abs_def)
  have lru: "lru_insert (lhm_max m) k v (lhm_abs m) = drop (length ?m1 - lhm_max m) (entries ?m1 ?ks)"
    by (simp add: lru_insert_def lru_limit_def e [symmetric] len)
  show ?thesis
  proof (cases "lhm_max m < length ?m1")
    case True
    with small have "length ?m1 - lhm_max m = 1" by simp
    moreover from True have "lhm_abs (lhm_insert m k v) = tl (entries ?m1 ?ks)"
      using up by (simp add: lhm_insert_eq [OF assms] lhm_abs_def Let_def entries_delete_hd keys_agree_def)
    ultimately show ?thesis by (simp add: lru drop_Suc)
  next
    case False
    then have "lhm_abs (lhm_insert m k v) = entries ?m1 ?ks"
      by (simp add: lhm_insert_eq [OF assms] lhm_abs_def Let_def)
    with False show ?thesis by (simp add: lru)
  qed
qed

lemma lhm_remove_refines:
  assumes "lhm_ok m"
  shows "fst (lhm_remove m k) = map_of (lhm_abs m) k
    \<and> lhm_abs (snd (lhm_remove m k)) = filter (\<lambda>p. fst p \<noteq> k) (lhm_abs m)"
proof -
  have ka: "keys_agree (lhm_map m) (lhm_order m)" using assms by (simp add: lhm_ok_def)
  note ord = order_after_insert [OF ka, of k]
  have "lhm_abs (snd (lhm_remove m k))
      = entries (AList.delete k (lhm_map m)) (filter (\<lambda>x. x \<noteq> k) (lhm_order m))"
    unfolding lhm_remove_def ord by (simp add: lhm_abs_def)
  then show ?thesis
    using lhm_get_abs [OF assms, of k]
    by (simp add: entries_remove lhm_abs_def lhm_remove_def lhm_get_def)
qed

lemma shrink_loop_Some:
  assumes "keys_agree m ks"
  shows "\<exists>m' ks'. shrink_loop n m ks = Some (m', ks') \<and> keys_agree m' ks'
    \<and> length m' \<le> n \<and> entries m' ks' = lru_limit n (entries m ks)"
  using assms
proof (induction n m ks rule: shrink_loop.induct)
  case (1 n m)
  then show ?case by (auto simp: keys_agree_def entries_def lru_limit_def)
next
  case (2 n m k ks)
  show ?case
  proof (cases "n < length m")
    case True
    have ka: "keys_agree (AList.delete k m) ks" using "2.prems" by (rule keys_agree_delete)
    have "entries (AList.delete k m) ks = tl (entries m (k # ks))"
      using "2.prems" entries_delete_hd [of "k # ks" m] by (simp add: keys_agree_def)
    moreover have "length m = Suc (length ks)" using keys_agree_length [OF "2.prems"] by simp
    ultimately have "lru_limit n (entries m (k # ks)) = lru_limit n (entries (AList.delete k m) ks)"
      using True by (auto simp: lru_limit_def Suc_diff_le drop_Suc)
    with "2.IH" [OF True ka] True show ?thesis by simp
  next
    case False
    with "2.prems" show ?thesis
      using keys_agree_length [OF "2.prems"] by (simp add: lru_limit_def)
  qed
qed

lemma lhm_set_max_size_refines:
  assumes "lhm_ok m"
  shows "\<exists>m'. lhm_set_max_size m n = Some m' \<and> lhm_ok m' \<and> lhm_max m' = n
    \<and> lhm_abs m' = lru_limit n (lhm_abs m)"
proof -
  have ka: "keys_agree (lhm_map m) (lhm_order m)" using assms by (simp add: lhm_ok_def)
  from shrink_loop_Some [OF ka, of n] show ?thesis
    by (auto simp: lhm_set_max_size_def lhm_ok_def lhm_abs_def)
qed

subsection \<open>The cache interface\<close>

text \<open>
  What the message parser needs of its header buffer: an insertion makes the new entry
  readable when there is room for one, and never invents or changes another entry.
\<close>

locale bounded_cache =
  fixes get :: "'c \<Rightarrow> 'k \<Rightarrow> 'v option"
    and put :: "'c \<Rightarrow> 'k \<Rightarrow> 'v \<Rightarrow> 'c"
    and cap :: "'c \<Rightarrow> nat"
    and inv :: "'c \<Rightarrow> bool"
  assumes get_put_same: "inv c \<Longrightarrow> 0 < cap c \<Longrightarrow> get (put c k v) k = Some v"
    and get_put_some: "inv c \<Longrightarrow> get (put c k v) k' = Some w \<Longrightarrow> k' = k \<and> w = v \<or> get c k' = Some w"
    and inv_put: "inv c \<Longrightarrow> inv (put c k v)"
    and cap_put: "cap (put c k v) = cap c"
begin

lemma put_keeps_all:
  assumes "inv c" and "\<forall>k w. get c k = Some w \<longrightarrow> P k w" and "P k v"
  shows "\<forall>k' w. get (put c k v) k' = Some w \<longrightarrow> P k' w"
  using assms get_put_some by blast

lemma inv_fold_put: "inv c \<Longrightarrow> inv (fold (\<lambda>(k, v) c. put c k v) kvs c)"
  by (induction kvs arbitrary: c) (auto intro: inv_put)

lemma fold_put_keeps_all:
  "inv c \<Longrightarrow> \<forall>k w. get c k = Some w \<longrightarrow> P k w \<Longrightarrow> \<forall>(k, v) \<in> set kvs. P k v \<Longrightarrow>
   \<forall>k w. get (fold (\<lambda>(k, v) c. put c k v) kvs c) k = Some w \<longrightarrow> P k w"
proof (induction kvs arbitrary: c)
  case Nil
  then show ?case by simp
next
  case (Cons kv kvs)
  obtain k v where kv: "kv = (k, v)" by (cases kv)
  have "\<forall>k' w. get (put c k v) k' = Some w \<longrightarrow> P k' w"
    using Cons.prems kv by (intro put_keeps_all) auto
  with Cons.IH [OF inv_put [OF Cons.prems(1)]] Cons.prems(3) kv show ?case by simp
qed

end

lemma distinct_entries: "keys_agree m ks \<Longrightarrow> distinct (map fst (entries m ks))"
  by (simp add: entries_def keys_agree_def comp_def)

lemma map_of_drop_Some:
  "distinct (map fst l) \<Longrightarrow> map_of (drop n l) k = Some w \<Longrightarrow> map_of l k = Some w"
  by (metis distinct_map in_set_dropD map_of_SomeD map_of_is_SomeI)

lemma map_of_filter_key: "map_of (filter (\<lambda>p. fst p \<noteq> k) l) = (map_of l)(k := None)"
  by (induction l) auto

lemma lhm_get_insert_some:
  assumes "lhm_ok m" and "lhm_get (lhm_insert m k v) k' = Some w"
  shows "k' = k \<and> w = v \<or> lhm_get m k' = Some w"
proof -
  let ?l = "filter (\<lambda>p. fst p \<noteq> k) (lhm_abs m) @ [(k, v)]"
  have "distinct (map fst (lhm_abs m))"
    using assms(1) by (simp add: lhm_abs_def lhm_ok_def distinct_entries)
  then have d: "distinct (map fst ?l)" by (auto simp: distinct_map inj_on_def)
  have "map_of (drop (length ?l - lhm_max m) ?l) k' = Some w"
    using assms lhm_ok_insert [OF assms(1)]
    by (simp add: lhm_get_abs lhm_insert_refines lru_insert_def lru_limit_def)
  then have "map_of ?l k' = Some w" by (rule map_of_drop_Some [OF d])
  then show ?thesis
    by (auto simp: map_of_append map_add_def map_of_filter_key lhm_get_abs [OF assms(1)]
        split: option.splits if_splits)
qed

lemma lhm_get_insert_same:
  assumes "lhm_ok m" and "0 < lhm_max m"
  shows "lhm_get (lhm_insert m k v) k = Some v"
proof -
  let ?l = "filter (\<lambda>p. fst p \<noteq> k) (lhm_abs m)"
  have "lru_limit (lhm_max m) (?l @ [(k, v)]) = drop (Suc (length ?l) - lhm_max m) ?l @ [(k, v)]"
    using assms(2) by (simp add: lru_limit_def)
  moreover have "map_of (drop n ?l) k = None" for n
    by (auto simp: map_of_eq_None_iff dest: in_set_dropD)
  ultimately show ?thesis
    using assms lhm_ok_insert [OF assms(1)]
    by (simp add: lhm_get_abs lhm_insert_refines lru_insert_def map_add_def)
qed

interpretation lhm: bounded_cache lhm_get lhm_insert lhm_max lhm_ok
  by unfold_locales
     (auto intro: lhm_get_insert_same lhm_ok_insert dest: lhm_get_insert_some)

subsection \<open>FifoQueue\<close>

record 'a fifo =
  fq_queue :: "'a list"
  fq_dropped :: u32
  fq_max :: nat

definition fifo_new :: "nat \<Rightarrow> 'a fifo" where
  "fifo_new n = \<lparr>fq_queue = [], fq_dropped = 0, fq_max = n\<rparr>"

definition fifo_add :: "'a fifo \<Rightarrow> 'a \<Rightarrow> 'a fifo" where
  "fifo_add q x =
     (if fq_max q \<le> length (fq_queue q)
      then q\<lparr>fq_queue := tl (fq_queue q) @ [x], fq_dropped := fq_dropped q + 1\<rparr>
      else q\<lparr>fq_queue := fq_queue q @ [x]\<rparr>)"

definition fifo_get :: "'a fifo \<Rightarrow> 'a option \<times> 'a fifo" where
  "fifo_get q =
     (case fq_queue q of [] \<Rightarrow> (None, q) | x # xs \<Rightarrow> (Some x, q\<lparr>fq_queue := xs\<rparr>))"

text \<open>
  \<open>wait\<close>: on an empty queue the condition variable releases the lock until a
  notification, a spurious wake-up or the timeout.  \<open>env\<close> is what the other threads do
  to the queue meanwhile, \<open>timed_out\<close> is \<open>result.timed_out()\<close>.
\<close>

definition fifo_wait :: "'a fifo \<Rightarrow> ('a fifo \<Rightarrow> 'a fifo) \<Rightarrow> bool \<Rightarrow> 'a option \<times> 'a fifo" where
  "fifo_wait q env timed_out =
     (if fq_queue q = []
      then (let q1 = env q in if timed_out \<and> fq_queue q1 = [] then (None, q1) else fifo_get q1)
      else fifo_get q)"

definition fifo_dropped_count :: "'a fifo \<Rightarrow> u32" where
  "fifo_dropped_count q = fq_dropped q"

definition fifo_available_count :: "'a fifo \<Rightarrow> nat" where
  "fifo_available_count q = length (fq_queue q)"

lemma fifo_add_max [simp]: "fq_max (fifo_add q x) = fq_max q"
  by (simp add: fifo_add_def)

lemma fifo_get_max [simp]: "fq_max (snd (fifo_get q)) = fq_max q"
  by (simp add: fifo_get_def split: list.splits)

text \<open>The interface of a bounded queue that forgets its oldest items.\<close>

locale lossy_queue =
  fixes items :: "'q \<Rightarrow> 'a list"
    and enq :: "'q \<Rightarrow> 'a \<Rightarrow> 'q"
    and deq :: "'q \<Rightarrow> 'a option \<times> 'q"
    and cap :: "'q \<Rightarrow> nat"
  assumes items_enq: "items (enq q x) = (if length (items q) < cap q then items q else tl (items q)) @ [x]"
    and deq_empty: "items q = [] \<Longrightarrow> deq q = (None, q)"
    and deq_some: "items q = x # xs \<Longrightarrow> fst (deq q) = Some x \<and> items (snd (deq q)) = xs"
    and cap_enq: "cap (enq q x) = cap q"
    and cap_deq: "cap (snd (deq q)) = cap q"
begin

lemma items_enq_limit:
  assumes "0 < cap q" and "length (items q) \<le> cap q"
  shows "items (enq q x) = lru_limit (cap q) (items q @ [x])"
proof (cases "length (items q) < cap q")
  case True
  then show ?thesis by (simp add: items_enq lru_limit_def)
next
  case False
  with assms have "length (items q) = cap q" by simp
  with assms(1) show ?thesis
    by (cases "items q") (simp_all add: items_enq lru_limit_def)
qed

lemma cap_fold: "cap (fold (\<lambda>x q. enq q x) xs q) = cap q"
  by (induction xs arbitrary: q) (simp_all add: cap_enq)

text \<open>After any run of insertions the queue holds the newest \<open>cap\<close> items, in order.\<close>

lemma items_fold:
  "0 < cap q \<Longrightarrow> length (items q) \<le> cap q \<Longrightarrow>
   items (fold (\<lambda>x q. enq q x) xs q) = lru_limit (cap q) (items q @ xs)"
proof (induction xs arbitrary: q)
  case Nil
  then show ?case by (simp add: lru_limit_def)
next
  case (Cons x xs)
  have it: "items (enq q x) = lru_limit (cap q) (items q @ [x])"
    using Cons.prems by (rule items_enq_limit)
  then have "length (items (enq q x)) \<le> cap q"
    using Cons.prems by (simp add: lru_limit_def)
  with Cons.IH [of "enq q x"] Cons.prems
  have "items (fold (\<lambda>x q. enq q x) (x # xs) q) = lru_limit (cap q) (items (enq q x) @ xs)"
    by (simp add: cap_enq)
  also have "\<dots> = lru_limit (cap q) (items q @ x # xs)"
    by (simp add: it lru_limit_append)
  finally show ?case .
qed

end

interpretation fq: lossy_queue fq_queue fifo_add fifo_get fq_max
  by unfold_locales (auto simp: fifo_add_def fifo_get_def split: list.splits)

subsection \<open>FifoQueue under concurrent producers and consumers\<close>

text \<open>
  Every operation holds the queue's mutex, so the threads interleave at operations; a
  \<open>wait\<close> on an empty queue gives the mutex up and takes its item in a later critical
  section (\<open>wake\<close>).  The state carries its history: what was added, and what left the
  queue at the front, marked \<open>True\<close> when a consumer got it and \<open>False\<close> when
  \<open>add\<close> dropped it.
\<close>

record 'a fifo_sys =
  sys_queue :: "'a fifo"
  sys_added :: "'a list"
  sys_left :: "('a \<times> bool) list"

definition sys_delivered :: "'a fifo_sys \<Rightarrow> 'a list" where
  "sys_delivered s = map fst (filter snd (sys_left s))"

definition sys_lost :: "'a fifo_sys \<Rightarrow> 'a list" where
  "sys_lost s = map fst (filter (\<lambda>p. \<not> snd p) (sys_left s))"

definition fifo_sys_init :: "nat \<Rightarrow> 'a fifo_sys" where
  "fifo_sys_init n = \<lparr>sys_queue = fifo_new n, sys_added = [], sys_left = []\<rparr>"

inductive fifo_step :: "'a fifo_sys \<Rightarrow> 'a fifo_sys \<Rightarrow> bool" where
  add: "fifo_step s
     (s\<lparr>sys_queue := fifo_add (sys_queue s) x, sys_added := sys_added s @ [x],
        sys_left := sys_left s @
          (if fq_max (sys_queue s) \<le> length (fq_queue (sys_queue s))
           then map (\<lambda>y. (y, False)) (take 1 (fq_queue (sys_queue s))) else [])\<rparr>)"
| get: "fifo_get (sys_queue s) = (r, q) \<Longrightarrow>
     fifo_step s (s\<lparr>sys_queue := q, sys_left := sys_left s @ map (\<lambda>y. (y, True)) (case r of None \<Rightarrow> [] | Some y \<Rightarrow> [y])\<rparr>)"
| wake: "fifo_wait (sys_queue s) id timed_out = (r, q) \<Longrightarrow>
     fifo_step s (s\<lparr>sys_queue := q, sys_left := sys_left s @ map (\<lambda>y. (y, True)) (case r of None \<Rightarrow> [] | Some y \<Rightarrow> [y])\<rparr>)"

inductive fifo_reachable :: "nat \<Rightarrow> 'a fifo_sys \<Rightarrow> bool" for n where
  init: "fifo_reachable n (fifo_sys_init n)"
| step: "fifo_reachable n s \<Longrightarrow> fifo_step s t \<Longrightarrow> fifo_reachable n t"

inductive_cases fifo_stepE: "fifo_step s t"

definition fifo_inv :: "nat \<Rightarrow> 'a fifo_sys \<Rightarrow> bool" where
  "fifo_inv n s \<longleftrightarrow>
     fq_max (sys_queue s) = n
     \<and> map fst (sys_left s) @ fq_queue (sys_queue s) = sys_added s
     \<and> length (fq_queue (sys_queue s)) \<le> max n 1
     \<and> (0 < n \<longrightarrow> fq_dropped (sys_queue s) = word_of_nat (length (sys_lost s)))"

lemma fifo_wait_id: "fifo_wait q id timed_out = fifo_get q"
  by (auto simp: fifo_wait_def fifo_get_def)

lemma fifo_inv_get:
  assumes "fifo_inv n s" and "fifo_get (sys_queue s) = (r, q)"
  shows "fifo_inv n (s\<lparr>sys_queue := q, sys_left := sys_left s @ map (\<lambda>y. (y, True)) (case r of None \<Rightarrow> [] | Some y \<Rightarrow> [y])\<rparr>)"
  using assms by (auto simp: fifo_inv_def fifo_get_def sys_lost_def split: list.splits)

lemma fifo_inv_add:
  assumes "fifo_inv n s"
  shows "fifo_inv n
     (s\<lparr>sys_queue := fifo_add (sys_queue s) x, sys_added := sys_added s @ [x],
        sys_left := sys_left s @
          (if fq_max (sys_queue s) \<le> length (fq_queue (sys_queue s))
           then map (\<lambda>y. (y, False)) (take 1 (fq_queue (sys_queue s))) else [])\<rparr>)"
  using assms
  by (cases "fq_queue (sys_queue s)") (auto simp: fifo_inv_def fifo_add_def sys_lost_def)

lemma fifo_step_inv: "fifo_step s t \<Longrightarrow> fifo_inv n s \<Longrightarrow> fifo_inv n t"
proof (induction rule: fifo_step.induct)
  case (add s x)
  then show ?case by (rule fifo_inv_add)
next
  case (get s r q)
  then show ?case by (intro fifo_inv_get)
next
  case (wake s timed_out r q)
  from wake(1) have "fifo_get (sys_queue s) = (r, q)" by (simp only: fifo_wait_id)
  with wake(2) show ?case by (intro fifo_inv_get)
qed

lemma fifo_reachable_inv: "fifo_reachable n s \<Longrightarrow> fifo_inv n s"
proof (induction rule: fifo_reachable.induct)
  case init
  show ?case by (simp add: fifo_inv_def fifo_sys_init_def fifo_new_def sys_lost_def)
next
  case (step s t)
  then show ?case by (blast intro: fifo_step_inv)
qed

lemma length_filter_split: "length (filter P xs) + length (filter (\<lambda>x. \<not> P x) xs) = length xs"
  by (induction xs) auto

lemma fifo_inv_safe:
  assumes inv: "fifo_inv n s"
  shows "subseq (sys_delivered s @ fq_queue (sys_queue s)) (sys_added s)
    \<and> length (fq_queue (sys_queue s)) \<le> max n 1
    \<and> (0 < n \<longrightarrow> unat (fq_dropped (sys_queue s))
          = (length (sys_added s) - length (sys_delivered s) - length (fq_queue (sys_queue s))) mod 2 ^ 32)"
proof -
  from inv have hist: "map fst (sys_left s) @ fq_queue (sys_queue s) = sys_added s"
    by (simp add: fifo_inv_def)
  have "subseq (sys_delivered s) (map fst (sys_left s))"
    unfolding sys_delivered_def by (intro subseq_map subseq_filter_left)
  then have "subseq (sys_delivered s @ fq_queue (sys_queue s)) (sys_added s)"
    unfolding hist [symmetric] by (rule list_emb_append_mono) simp
  moreover have "length (sys_delivered s) + length (sys_lost s) = length (sys_left s)"
    by (simp add: sys_delivered_def sys_lost_def length_filter_split)
  then have "length (sys_lost s)
      = length (sys_added s) - length (sys_delivered s) - length (fq_queue (sys_queue s))"
    by (simp add: hist [symmetric])
  ultimately show ?thesis
    using inv by (auto simp: fifo_inv_def unat_of_nat take_bit_eq_mod)
qed

subsection \<open>Properties\<close>

text \<open>
  C16. Refinement: on a well-formed \<open>LimitedHashMap\<close>, \<open>insert\<close> is the insertion
  of the recency list that keeps the last \<open>max_size\<close> entries, and keeps the map
  well formed (one queue entry per key, size within \<open>max_size\<close>).
\<close>

theorem lhm_insert_spec:
  assumes "lhm_ok m"
  shows "lhm_ok (lhm_insert m k v)
    \<and> lhm_abs (lhm_insert m k v) = lru_insert (lhm_max m) k v (lhm_abs m)"
  using assms by (simp add: lhm_ok_insert lhm_insert_refines)

theorem lhm_insert_spec_witness:
  "lhm_abs (lhm_insert (lhm_insert (lhm_insert (lhm_new 2) (1::nat) ''a'') 2 ''b'') 3 ''c'')
     = [(2, ''b''), (3, ''c'')]"
proof -
  let ?m = "lhm_insert (lhm_insert (lhm_new 2) (1::nat) ''a'') 2 ''b''"
  have ok: "lhm_ok ?m" by (intro lhm_ok_insert lhm_ok_new)
  show ?thesis
    using lhm_insert_spec [OF ok, of 3 "''c''"]
    by (simp add: lru_insert_def lru_limit_def lhm_insert_refines lhm_ok_insert lhm_new_def
        lhm_abs_def entries_def lhm_insert_def Let_def)
qed

text \<open>
  C17. Termination and refinement: the eviction loop of \<open>set_max_size\<close> ends on every
  well-formed map, leaves it well formed, and keeps exactly its newest entries.
\<close>

theorem lhm_set_max_size_spec:
  assumes "lhm_ok m"
  shows "\<exists>m'. lhm_set_max_size m n = Some m' \<and> lhm_ok m' \<and> lhm_max m' = n
    \<and> lhm_abs m' = lru_limit n (lhm_abs m)"
  using assms by (rule lhm_set_max_size_refines)

theorem lhm_set_max_size_spec_witness:
  "\<exists>m'. lhm_set_max_size (lhm_insert (lhm_insert (lhm_new 2) (1::nat) ''a'') 2 ''b'') 1 = Some m'
     \<and> lhm_abs m' = [(2, ''b'')]"
proof -
  let ?m = "lhm_insert (lhm_insert (lhm_new 2) (1::nat) ''a'') 2 ''b''"
  have ok: "lhm_ok ?m" by (intro lhm_ok_insert lhm_ok_new)
  have "lhm_abs ?m = [(1, ''a''), (2, ''b'')]"
    by (simp add: lhm_new_def lhm_abs_def entries_def lhm_insert_def)
  then show ?thesis
    using lhm_set_max_size_spec [OF ok, of 1] by (auto simp: lru_limit_def)
qed

text \<open>
  C12. Safety under concurrency: in every reachable state of a \<open>FifoQueue\<close> of size
  \<open>n\<close>, whatever the interleaving of adds, gets and waits, what consumers received
  followed by what is queued is a subsequence of what was added, the queue holds at most
  \<open>max n 1\<close> items, and for \<open>n > 0\<close> every added item is delivered, queued or
  counted (modulo \<open>2^32\<close>) by the dropped counter.
\<close>

theorem fifo_reachable_safe:
  assumes "fifo_reachable n s"
  shows "subseq (sys_delivered s @ fq_queue (sys_queue s)) (sys_added s)
    \<and> length (fq_queue (sys_queue s)) \<le> max n 1
    \<and> (0 < n \<longrightarrow> unat (fq_dropped (sys_queue s))
          = (length (sys_added s) - length (sys_delivered s) - length (fq_queue (sys_queue s))) mod 2 ^ 32)"
  using assms by (intro fifo_inv_safe fifo_reachable_inv)

theorem fifo_reachable_safe_witness:
  "\<exists>s. fifo_reachable 1 s \<and> sys_added s = [1::nat, 2] \<and> subseq (fq_queue (sys_queue s)) [1, 2]"
proof -
  let ?q1 = "\<lparr>fq_queue = [1::nat], fq_dropped = 0, fq_max = 1\<rparr>"
  let ?s1 = "\<lparr>sys_queue = ?q1, sys_added = [1], sys_left = []\<rparr>"
  let ?q2 = "\<lparr>fq_queue = [2::nat], fq_dropped = 1, fq_max = 1\<rparr>"
  let ?s2 = "\<lparr>sys_queue = ?q2, sys_added = [1, 2], sys_left = [(1, False)]\<rparr>"
  have "fifo_step (fifo_sys_init 1) ?s1"
    using fifo_step.add [of "fifo_sys_init 1" "1::nat"]
    by (simp add: fifo_sys_init_def fifo_new_def fifo_add_def)
  moreover have "fifo_step ?s1 ?s2"
    using fifo_step.add [of ?s1 "2::nat"] by (simp add: fifo_add_def)
  ultimately have "fifo_reachable 1 ?s2"
    by (blast intro: fifo_reachable.intros)
  from fifo_reachable_safe [OF this] this show ?thesis
    by (intro exI [of _ ?s2]) (auto simp: sys_delivered_def)
qed

text \<open>
  Any sequence of adds, however long, leaves a non-degenerate queue with
  exactly the newest \<open>max_size\<close> items, oldest first.
\<close>

lemma fifo_add_all:
  "0 < fq_max q \<Longrightarrow> length (fq_queue q) \<le> fq_max q \<Longrightarrow>
   fq_queue (fold (\<lambda>x q. fifo_add q x) xs q) = lru_limit (fq_max q) (fq_queue q @ xs)"
  by (rule fq.items_fold)

end
