(* ===== verification/Bs_Types.thy ===== *)
theory Bs_Types
  imports Bs_Prelude
begin

section \<open>Crate-level types and the code the crate calls\<close>

text \<open>
  \<^item> \<open>Compression\<close>, \<open>HTYPE\<close> and the constants of \<open>src/src/lib.rs\<close> and
    \<open>src/src/message.rs\<close>.
  \<^item> \<open>json\<close>: the value type of serde_json whose public variants the crate matches on and
    builds, with the accessors it calls.
  \<^item> \<open>ext\<close>: the functions of other packages, and of the vendored C sources, that the
    crate calls.  They are parameters of the model; what the proofs use of them are the
    named predicates below (\<open>byteorder_ok\<close>, \<open>num_cast_ok\<close>, \<open>json_num_ok\<close>, \<open>lz4_ok\<close>,
    \<open>bshuf_ok\<close>, \<open>json_map_ok\<close>, \<open>json_btree_ok\<close>).
\<close>

subsection \<open>Compression (src/src/lib.rs)\<close>

datatype compression = CompNone | BitshuffleLz4 | Lz4

definition compression_from_str :: "string \<Rightarrow> compression res" where
  "compression_from_str s =
     (if s = ''none'' then Ok CompNone
      else if s = ''bitshuffle_lz4'' then Ok BitshuffleLz4
      else if s = ''lz4'' then Ok Lz4
      else Err (InvalidInput, ''invalid compression''))"

fun compression_to_string :: "compression \<Rightarrow> string" where
  "compression_to_string CompNone = ''none''"
| "compression_to_string BitshuffleLz4 = ''bitshuffle_lz4''"
| "compression_to_string Lz4 = ''lz4''"

definition HTYPE :: string where
  "HTYPE = ''bsr_m-1.1''"

definition ID_SIMULATED :: u64 where
  "ID_SIMULATED = 0"

definition TIMESTAMP_NOW :: "u64 \<times> u64" where
  "TIMESTAMP_NOW = (0, 0)"

definition DECOMPRESSION_ERROR :: error_kind where
  "DECOMPRESSION_ERROR = NotSeekable"

text \<open>
  Parsing the printed name of a compression gives it back, and a string
  that parses is the printed name of the result; every other string is refused with
  \<open>InvalidInput\<close>.
\<close>

lemma compression_from_str_iff:
  "compression_from_str s = Ok c \<longleftrightarrow> s = compression_to_string c"
  by (cases c) (auto simp: compression_from_str_def)

lemma compression_from_str_to_string [simp]:
  "compression_from_str (compression_to_string c) = Ok c"
  by (cases c) (auto simp: compression_from_str_def)

lemma compression_from_str_none [simp]: "compression_from_str ''none'' = Ok CompNone"
  by (simp add: compression_from_str_def)

lemma compression_from_str_not_Panic: "compression_from_str s \<noteq> Panic"
  by (simp add: compression_from_str_def)

subsection \<open>Strings\<close>

definition byte_of_char :: "char \<Rightarrow> byte" where
  "byte_of_char c = word_of_nat (of_char c)"

definition char_of_byte :: "byte \<Rightarrow> char" where
  "char_of_byte b = char_of (unat b)"

text \<open>\<open>str::as_bytes\<close> and its inverse on byte lists.\<close>

definition str_bytes :: "string \<Rightarrow> byte list" where
  "str_bytes s = map byte_of_char s"

definition bytes_str :: "byte list \<Rightarrow> string" where
  "bytes_str bs = map char_of_byte bs"

lemma char_of_byte_of_char [simp]: "char_of_byte (byte_of_char c) = c"
  by (simp add: char_of_byte_def byte_of_char_def unat_of_nat take_bit_eq_mod char_of_char)

lemma byte_of_char_of_byte [simp]: "byte_of_char (char_of_byte b) = b"
  using unat_byte_bound [of b] by (simp add: char_of_byte_def byte_of_char_def of_char_of)

lemma bytes_str_bytes [simp]: "bytes_str (str_bytes s) = s"
  by (simp add: bytes_str_def str_bytes_def comp_def)

lemma str_bytes_str [simp]: "str_bytes (bytes_str bs) = bs"
  by (simp add: bytes_str_def str_bytes_def comp_def)

lemma length_str_bytes [simp]: "length (str_bytes s) = length s"
  by (simp add: str_bytes_def)

text \<open>
  The check of \<open>String::from_utf8\<close>: well-formed UTF-8, by the table of the Unicode
  standard (no overlong forms, no surrogates, nothing above U+10FFFF).
\<close>

definition utf8_cont :: "byte \<Rightarrow> bool" where
  "utf8_cont b \<longleftrightarrow> 128 \<le> unat b \<and> unat b \<le> 191"

fun utf8_valid :: "byte list \<Rightarrow> bool" where
  "utf8_valid [] = True"
| "utf8_valid (b # bs) =
     (let n = unat b in
      if n < 128 then utf8_valid bs
      else if 194 \<le> n \<and> n \<le> 223 then
        (case bs of c # r \<Rightarrow> utf8_cont c \<and> utf8_valid r | _ \<Rightarrow> False)
      else if 224 \<le> n \<and> n \<le> 239 then
        (case bs of c # d # r \<Rightarrow>
            utf8_cont c \<and> utf8_cont d \<and> (n = 224 \<longrightarrow> 160 \<le> unat c) \<and> (n = 237 \<longrightarrow> unat c \<le> 159)
            \<and> utf8_valid r
         | _ \<Rightarrow> False)
      else if 240 \<le> n \<and> n \<le> 244 then
        (case bs of c # d # e # r \<Rightarrow>
            utf8_cont c \<and> utf8_cont d \<and> utf8_cont e \<and> (n = 240 \<longrightarrow> 144 \<le> unat c)
            \<and> (n = 244 \<longrightarrow> unat c \<le> 143) \<and> utf8_valid r
         | _ \<Rightarrow> False)
      else False)"

text \<open>
  ASCII lower-casing.  The crate lower-cases strings only to compare them with ASCII words
  without the letter k, or on ASCII text; \<open>str::to_lowercase\<close> agrees with it there.
\<close>

definition ascii_lower :: "char \<Rightarrow> char" where
  "ascii_lower c =
     (if 65 \<le> (of_char c :: nat) \<and> (of_char c :: nat) \<le> 90 then char_of ((of_char c :: nat) + 32) else c)"

definition to_lowercase :: "string \<Rightarrow> string" where
  "to_lowercase s = map ascii_lower s"

subsection \<open>JSON values\<close>

text \<open>
  \<open>serde_json::Value\<close> with its public variants.  The crate never looks inside a
  number: it builds one from a \<open>u64\<close> and asks whether it is an \<open>i64\<close> or a \<open>u64\<close>,
  which are calls of serde_json (\<open>num_of_u64\<close>, \<open>num_as_i64\<close>, \<open>num_as_u64\<close> below).
  The other accessors are tests of the variant.  A JSON object maps strings to values.
\<close>

datatype json_num = JInt int | JFloat f64

datatype json =
    JNull
  | JBool bool
  | JNumber json_num
  | JString string
  | JArray "json list"
  | JObject "string \<Rightarrow> json option"

type_synonym header = "string \<Rightarrow> json option"

fun json_str :: "json \<Rightarrow> string option" where
  "json_str (JString s) = Some s"
| "json_str _ = None"

fun json_array :: "json \<Rightarrow> json list option" where
  "json_array (JArray xs) = Some xs"
| "json_array _ = None"

fun json_object :: "json \<Rightarrow> header option" where
  "json_object (JObject m) = Some m"
| "json_object _ = None"

subsection \<open>Scalars for numeric casts\<close>

datatype prim_ty = TI8 | TU8 | TI16 | TU16 | TI32 | TU32 | TI64 | TU64 | TF32 | TF64

datatype prim =
    PI8 i8 | PU8 u8 | PI16 i16 | PU16 u16 | PI32 i32 | PU32 u32 | PI64 i64 | PU64 u64
  | PF32 f32 | PF64 f64

text \<open>The mathematical value of an integer scalar, and the scalar of a type with a value.\<close>

fun prim_int :: "prim \<Rightarrow> int option" where
  "prim_int (PI8 w) = Some (sint w)"
| "prim_int (PU8 w) = Some (uint w)"
| "prim_int (PI16 w) = Some (sint w)"
| "prim_int (PU16 w) = Some (uint w)"
| "prim_int (PI32 w) = Some (sint w)"
| "prim_int (PU32 w) = Some (uint w)"
| "prim_int (PI64 w) = Some (sint w)"
| "prim_int (PU64 w) = Some (uint w)"
| "prim_int (PF32 w) = None"
| "prim_int (PF64 w) = None"

fun prim_of_int :: "prim_ty \<Rightarrow> int \<Rightarrow> prim option" where
  "prim_of_int TI8 n = (if - 128 \<le> n \<and> n < 128 then Some (PI8 (word_of_int n)) else None)"
| "prim_of_int TU8 n = (if 0 \<le> n \<and> n < 256 then Some (PU8 (word_of_int n)) else None)"
| "prim_of_int TI16 n = (if - (2 ^ 15) \<le> n \<and> n < 2 ^ 15 then Some (PI16 (word_of_int n)) else None)"
| "prim_of_int TU16 n = (if 0 \<le> n \<and> n < 2 ^ 16 then Some (PU16 (word_of_int n)) else None)"
| "prim_of_int TI32 n = (if - (2 ^ 31) \<le> n \<and> n < 2 ^ 31 then Some (PI32 (word_of_int n)) else None)"
| "prim_of_int TU32 n = (if 0 \<le> n \<and> n < 2 ^ 32 then Some (PU32 (word_of_int n)) else None)"
| "prim_of_int TI64 n = (if - (2 ^ 63) \<le> n \<and> n < 2 ^ 63 then Some (PI64 (word_of_int n)) else None)"
| "prim_of_int TU64 n = (if 0 \<le> n \<and> n < 2 ^ 64 then Some (PU64 (word_of_int n)) else None)"
| "prim_of_int TF32 n = None"
| "prim_of_int TF64 n = None"

fun is_int_ty :: "prim_ty \<Rightarrow> bool" where
  "is_int_ty TF32 = False"
| "is_int_ty TF64 = False"
| "is_int_ty _ = True"

subsection \<open>The code the crate calls\<close>

text \<open>
  One field per external function, in the order: byteorder, num-traits, serde_json (numbers, parsing, printing), indexmap, md-5,
  lz4, the vendored bitshuffle C functions (return value and the bytes written to the
  output buffer), the target's byte order, the text of \<open>Utf8Error\<close>, and the
  standard library's formatting of floats and its quoting of strings.
  \<open>json_print_map\<close> is \<open>serde_json::to_string\<close> on a \<open>HashMap\<close>,
  \<open>json_print_btree\<close> on a \<open>BTreeMap\<close>.
\<close>

record ext =
  bo_get :: "endian \<Rightarrow> byte list \<Rightarrow> nat"
  bo_put :: "endian \<Rightarrow> nat \<Rightarrow> nat \<Rightarrow> byte list"
  num_cast :: "prim_ty \<Rightarrow> prim \<Rightarrow> prim option"
  num_of_u64 :: "u64 \<Rightarrow> json_num"
  num_as_i64 :: "json_num \<Rightarrow> i64 option"
  num_as_u64 :: "json_num \<Rightarrow> u64 option"
  json_from_slice :: "byte list \<Rightarrow> io_error + header"
  json_print_map :: "header \<Rightarrow> io_error + string"
  json_print_btree :: "header \<Rightarrow> io_error + string"
  im_order :: "string list \<Rightarrow> string \<Rightarrow> string list"
  md5_digest :: "byte list \<Rightarrow> byte list"
  lz4_compress :: "byte list \<Rightarrow> io_error + byte list"
  lz4_decompress :: "byte list \<Rightarrow> i32 \<Rightarrow> io_error + byte list"
  bshuf_compress :: "byte list \<Rightarrow> nat \<Rightarrow> nat \<Rightarrow> nat \<Rightarrow> int \<times> byte list"
  bshuf_compress_bound :: "nat \<Rightarrow> nat \<Rightarrow> nat \<Rightarrow> nat"
  bshuf_decompress :: "byte list \<Rightarrow> nat \<Rightarrow> nat \<Rightarrow> nat \<Rightarrow> int \<times> byte list"
  native_endian :: endian
  utf8_error_text :: "byte list \<Rightarrow> string"
  f32_display :: "f32 \<Rightarrow> string"
  f64_display :: "f64 \<Rightarrow> string"
  f32_debug :: "f32 \<Rightarrow> string"
  f64_debug :: "f64 \<Rightarrow> string"
  str_debug :: "string \<Rightarrow> string"

text \<open>byteorder reads and writes the integer in the named byte order.\<close>

definition byteorder_ok :: "ext \<Rightarrow> bool" where
  "byteorder_ok L \<longleftrightarrow>
     (\<forall>e bs. bo_get L e bs = bytes_to_nat e bs) \<and>
     (\<forall>e n x. x < 256 ^ n \<longrightarrow> bo_put L e n x = nat_to_bytes e n x)"

text \<open>num-traits casts an integer to an integer type exactly when the value fits.\<close>

definition num_cast_ok :: "ext \<Rightarrow> bool" where
  "num_cast_ok L \<longleftrightarrow>
     (\<forall>t p n. is_int_ty t \<longrightarrow> prim_int p = Some n \<longrightarrow> num_cast L t p = prim_of_int t n)"

text \<open>\<open>Value::as_i64\<close>, \<open>Value::as_u64\<close> and \<open>Number::from(u64)\<close>.\<close>

fun json_i64 :: "ext \<Rightarrow> json \<Rightarrow> i64 option" where
  "json_i64 L (JNumber n) = num_as_i64 L n"
| "json_i64 L _ = None"

fun json_u64 :: "ext \<Rightarrow> json \<Rightarrow> u64 option" where
  "json_u64 L (JNumber n) = num_as_u64 L n"
| "json_u64 L _ = None"

definition json_of_u64 :: "ext \<Rightarrow> u64 \<Rightarrow> json" where
  "json_of_u64 L w = JNumber (num_of_u64 L w)"

text \<open>A number built from a \<open>u64\<close> is that \<open>u64\<close>, and an \<open>i64\<close> when it fits.\<close>

definition json_num_ok :: "ext \<Rightarrow> bool" where
  "json_num_ok L \<longleftrightarrow>
     (\<forall>w. num_as_u64 L (num_of_u64 L w) = Some w \<and>
          num_as_i64 L (num_of_u64 L w) = (if uint w < 2 ^ 63 then Some w else None))"

lemma json_u64_of_u64: "json_num_ok L \<Longrightarrow> json_u64 L (json_of_u64 L w) = Some w"
  by (simp add: json_of_u64_def json_num_ok_def)

lemma json_i64_of_u64:
  "json_num_ok L \<Longrightarrow> uint w < 2 ^ 63 \<Longrightarrow> json_i64 L (json_of_u64 L w) = Some w"
  by (simp add: json_of_u64_def json_num_ok_def)

lemma json_i64_of_u64_big:
  "json_num_ok L \<Longrightarrow> 2 ^ 63 \<le> uint w \<Longrightarrow> json_i64 L (json_of_u64 L w) = None"
  by (simp add: json_of_u64_def json_num_ok_def)

text \<open>
  \<open>IndexMap\<close>: a map and the order in which it is iterated.  Where an insertion puts the
  key is indexmap's (\<open>im_order\<close>): a present key keeps its place, a new one goes last.
\<close>

record 'v index_map =
  im_keys :: "string list"
  im_map :: "string \<Rightarrow> 'v option"

definition im_new :: "'v index_map" where
  "im_new = \<lparr>im_keys = [], im_map = Map.empty\<rparr>"

definition im_insert :: "ext \<Rightarrow> 'v index_map \<Rightarrow> string \<Rightarrow> 'v \<Rightarrow> 'v index_map" where
  "im_insert L m k v = \<lparr>im_keys = im_order L (im_keys m) k, im_map = (im_map m)(k \<mapsto> v)\<rparr>"

definition im_values :: "'v index_map \<Rightarrow> 'v list" where
  "im_values m = List.map_filter (im_map m) (im_keys m)"

definition indexmap_ok :: "ext \<Rightarrow> bool" where
  "indexmap_ok L \<longleftrightarrow> (\<forall>ks k. im_order L ks k = (if k \<in> set ks then ks else ks @ [k]))"

text \<open>lz4 decompresses a compressed block when it is given the original size.\<close>

definition lz4_ok :: "ext \<Rightarrow> byte list \<Rightarrow> bool" where
  "lz4_ok L bs \<longleftrightarrow>
     (\<exists>c. lz4_compress L bs = Inr c \<and> lz4_decompress L c (word_of_nat (length bs)) = Inr bs)"

text \<open>
  bitshuffle restores a compressed buffer of whole elements, when it is given the element
  count, element size and block size of the compression, and stays within its bound.
\<close>

definition bshuf_ok :: "ext \<Rightarrow> byte list \<Rightarrow> nat \<Rightarrow> nat \<Rightarrow> bool" where
  "bshuf_ok L bs es block \<longleftrightarrow>
     (case bshuf_compress L bs (length bs div es) es block of (r, c) \<Rightarrow>
        r = int (length c) \<and> length c \<le> bshuf_compress_bound L (length bs div es) es block
        \<and> (\<exists>r'. 0 \<le> r' \<and> bshuf_decompress L c (length bs div es) es block = (r', bs)))"

text \<open>serde_json reads back what it printed, for one header.\<close>

definition json_map_ok :: "ext \<Rightarrow> header \<Rightarrow> string \<Rightarrow> bool" where
  "json_map_ok L h s \<longleftrightarrow> json_print_map L h = Inr s \<and> json_from_slice L (str_bytes s) = Inr h"

definition json_btree_ok :: "ext \<Rightarrow> header \<Rightarrow> string \<Rightarrow> bool" where
  "json_btree_ok L h s \<longleftrightarrow> json_print_btree L h = Inr s \<and> json_from_slice L (str_bytes s) = Inr h"

text \<open>
  A reference instance used by the witnesses: byte order and casts by their definitions,
  the other libraries as the simplest functions that satisfy their laws (a compression
  that stores its input); the JSON functions are given per witness.
\<close>

definition ref_ext :: ext where
  "ref_ext = \<lparr>
     bo_get = bytes_to_nat,
     bo_put = nat_to_bytes,
     num_cast = (\<lambda>t p. case prim_int p of Some n \<Rightarrow> prim_of_int t n | None \<Rightarrow> None),
     num_of_u64 = (\<lambda>w. JInt (uint w)),
     num_as_i64 = (\<lambda>n. case n of
         JInt i \<Rightarrow> if - (2 ^ 63) \<le> i \<and> i < 2 ^ 63 then Some (word_of_int i) else None
       | JFloat _ \<Rightarrow> None),
     num_as_u64 = (\<lambda>n. case n of
         JInt i \<Rightarrow> if 0 \<le> i \<and> i < 2 ^ 64 then Some (word_of_int i) else None
       | JFloat _ \<Rightarrow> None),
     json_from_slice = (\<lambda>bs. Inl (InvalidData, ''expected value'')),
     json_print_map = (\<lambda>h. Inl (OtherError, ''unprintable'')),
     json_print_btree = (\<lambda>h. Inl (OtherError, ''unprintable'')),
     im_order = (\<lambda>ks k. if k \<in> set ks then ks else ks @ [k]),
     md5_digest = (\<lambda>bs. bs),
     lz4_compress = (\<lambda>bs. Inr bs),
     lz4_decompress = (\<lambda>bs n. Inr bs),
     bshuf_compress = (\<lambda>bs n es block. (int (length bs), bs)),
     bshuf_compress_bound = (\<lambda>n es block. n * es + es),
     bshuf_decompress = (\<lambda>bs n es block. (int (length bs), take (n * es) bs)),
     native_endian = LittleEndian,
     utf8_error_text = (\<lambda>bs. ''invalid utf-8 sequence''),
     f32_display = (\<lambda>w. show_nat (unat w)),
     f64_display = (\<lambda>w. show_nat (unat w)),
     f32_debug = (\<lambda>w. show_nat (unat w)),
     f64_debug = (\<lambda>w. show_nat (unat w)),
     str_debug = (\<lambda>s. s)\<rparr>"

lemma ref_byteorder_ok: "byteorder_ok ref_ext"
  by (simp add: byteorder_ok_def ref_ext_def)

lemma ref_num_cast_ok: "num_cast_ok ref_ext"
  by (simp add: num_cast_ok_def ref_ext_def)

lemma ref_indexmap_ok: "indexmap_ok ref_ext"
  by (simp add: indexmap_ok_def ref_ext_def)

lemma ref_json_num_ok: "json_num_ok ref_ext"
proof -
  have "uint w < 2 ^ 64" for w :: u64
    using uint_lt2p [of w] by simp
  moreover have "- (2 ^ 63) \<le> uint w" for w :: u64
    by (rule order.trans [OF _ uint_ge_0]) simp
  ultimately show ?thesis by (simp add: json_num_ok_def ref_ext_def)
qed

end
