(* ===== verification/Bs_Helpers.thy ===== *)
theory Bs_Helpers
  imports Bs_Types
begin

section \<open>The id clock and the helpers (src/src/utils.rs)\<close>

text \<open>
  The md-5 text that names a data header, the timestamp of the system clock, the origin of
  the pulse ids and the name of the running program.  The digest, the clock, chrono's
  calendar and the path of the executable are arguments.
\<close>

subsection \<open>The hash of a data header\<close>

text \<open>\<open>LowerHex\<close> of a digest: two lower-case digits for every byte.\<close>

definition lower_hex_digit :: "nat \<Rightarrow> char" where
  "lower_hex_digit n = ''0123456789abcdef'' ! n"

definition lower_hex :: "byte list \<Rightarrow> string" where
  "lower_hex bs = concat (map (\<lambda>b. [lower_hex_digit (unat b div 16), lower_hex_digit (unat b mod 16)]) bs)"

definition hash_md5 :: "ext \<Rightarrow> byte list \<Rightarrow> string" where
  "hash_md5 L bs = lower_hex (md5_digest L bs)"

lemma lower_hex_digits: "length ''0123456789abcdef'' = 16" "distinct ''0123456789abcdef''"
  by simp_all

lemma lower_hex_digit_set:
  assumes "n < 16"
  shows "lower_hex_digit n \<in> set ''0123456789abcdef''"
  unfolding lower_hex_digit_def by (rule nth_mem) (simp only: lower_hex_digits assms)

lemma lower_hex_digit_inject:
  assumes "m < 16" and "n < 16"
  shows "lower_hex_digit m = lower_hex_digit n \<longleftrightarrow> m = n"
  unfolding lower_hex_digit_def by (rule nth_eq_iff_index_eq) (simp_all only: lower_hex_digits assms)

lemma lower_hex_byte_inject:
  fixes b b' :: byte
  shows "lower_hex_digit (unat b div 16) = lower_hex_digit (unat b' div 16)
    \<and> lower_hex_digit (unat b mod 16) = lower_hex_digit (unat b' mod 16) \<longleftrightarrow> b = b'"
proof -
  have "unat b div 16 < 16" "unat b' div 16 < 16"
    using unat_byte_bound [of b] unat_byte_bound [of b'] by simp_all
  moreover have "unat b mod 16 < 16" "unat b' mod 16 < 16" by simp_all
  moreover have "unat b div 16 = unat b' div 16 \<and> unat b mod 16 = unat b' mod 16 \<longleftrightarrow> b = b'"
    by (metis div_mult_mod_eq word_unat_eq_iff)
  ultimately show ?thesis by (simp only: lower_hex_digit_inject)
qed

lemma lower_hex_inject: "lower_hex xs = lower_hex ys \<longleftrightarrow> xs = ys"
proof (induction xs arbitrary: ys)
  case Nil
  show ?case by (cases ys) (simp_all add: lower_hex_def)
next
  case (Cons x xs)
  show ?case
  proof (cases ys)
    case Nil
    then show ?thesis by (simp add: lower_hex_def)
  next
    case (Cons y ys')
    then have "lower_hex (x # xs) = lower_hex ys \<longleftrightarrow> (x = y \<and> lower_hex xs = lower_hex ys')"
      using lower_hex_byte_inject [of x y] by (auto simp: lower_hex_def)
    with Cons Cons.IH show ?thesis by simp
  qed
qed

lemma length_hash_md5: "length (hash_md5 L bs) = 2 * length (md5_digest L bs)"
  by (simp add: hash_md5_def lower_hex_def length_concat comp_def sum_list_triv)

text \<open>Two headers have one hash exactly when they have one digest.\<close>

lemma hash_md5_eq_iff: "hash_md5 L xs = hash_md5 L ys \<longleftrightarrow> md5_digest L xs = md5_digest L ys"
  by (simp add: hash_md5_def lower_hex_inject)

lemma hash_md5_chars: "set (hash_md5 L bs) \<subseteq> set ''0123456789abcdef''"
proof -
  define X where "X = set ''0123456789abcdef''"
  have "unat b div 16 < 16" "unat b mod 16 < 16" for b :: byte using unat_byte_bound [of b] by simp_all
  note this [THEN lower_hex_digit_set, folded X_def]
  then have "set (hash_md5 L bs) \<subseteq> X" unfolding hash_md5_def lower_hex_def by auto
  then show ?thesis by (simp only: X_def)
qed

lemma hash_md5_cong: "md5_digest L = md5_digest L' \<Longrightarrow> hash_md5 L = hash_md5 L'"
  by (simp add: fun_eq_iff hash_md5_def)

lemma hash_ref_d: "hash_md5 ref_ext (str_bytes ''d'') = ''64''"
  by (simp add: hash_md5_def lower_hex_def lower_hex_digit_def ref_ext_def str_bytes_def byte_of_char_def)

subsection \<open>The clock\<close>

text \<open>
  \<open>ns\<close>: the nanoseconds from \<open>UNIX_EPOCH\<close> to \<open>SystemTime::now()\<close>.  A clock set before 1970
  makes \<open>expect\<close> panic.
\<close>

definition current_timestamp :: "int \<Rightarrow> (u64 \<times> u64) res" where
  "current_timestamp ns =
     (if ns < 0 then Panic
      else Ok (word_of_int (ns div 1000000000), word_of_int (ns mod 1000000000)))"

lemma current_timestamp_exact:
  assumes "current_timestamp ns = Ok (s, n)" and "ns < 2 ^ 64 * 1000000000"
  shows "uint s * 1000000000 + uint n = ns" and "uint n < 1000000000"
proof -
  have ns: "0 \<le> ns" "s = word_of_int (ns div 1000000000)" "n = word_of_int (ns mod 1000000000)"
    using assms(1) by (auto simp: current_timestamp_def split: if_splits)
  have "uint s = ns div 1000000000" "uint n = ns mod 1000000000"
    unfolding ns(2,3) using ns(1) assms(2) by (simp_all add: uint_word_of_int take_bit_int_eq_self take_bit_eq_mod)
  then show "uint s * 1000000000 + uint n = ns" "uint n < 1000000000"
    using div_mult_mod_eq [of ns 1000000000] by simp_all
qed

subsection \<open>The pulse-id origin\<close>

text \<open>
  \<open>ID_T0\<close> is a \<open>OnceLock\<close>: it takes one value, later writes fail.  \<open>now_ms\<close> is
  \<open>Local::now().signed_duration_since(t0).num_milliseconds()\<close>, supplied by chrono; the
  division truncates towards zero and the result is reinterpreted as \<open>u64\<close>.
\<close>

definition init_id_t0 :: "'t option \<Rightarrow> 't \<Rightarrow> unit res \<times> 't option" where
  "init_id_t0 st t =
     (case st of None \<Rightarrow> (Ok (), Some t)
      | Some t0 \<Rightarrow> (Err (InvalidData, ''ID t0 not initialized''), Some t0))"

text \<open>
  chrono's \<open>LocalResult\<close>: a local time that a change of the clocks skips or repeats is none
  or two, and \<open>unwrap\<close> panics on both.  \<open>ymd_hms\<close> is \<open>Local.with_ymd_and_hms\<close>.
\<close>

datatype 't local_result = LrNone | LrSingle 't | LrAmbiguous 't 't

definition init_sf_id_t0 ::
  "(int \<Rightarrow> nat \<Rightarrow> nat \<Rightarrow> nat \<Rightarrow> nat \<Rightarrow> nat \<Rightarrow> 't local_result) \<Rightarrow> 't option \<Rightarrow> unit res \<times> 't option" where
  "init_sf_id_t0 ymd_hms st =
     (case ymd_hms 2017 9 4 11 11 18 of LrSingle t \<Rightarrow> init_id_t0 st t | _ \<Rightarrow> (Panic, st))"

definition current_id :: "'t option \<Rightarrow> ('t \<Rightarrow> i64) \<Rightarrow> u64 res" where
  "current_id st now_ms =
     res_bind (ok_or (InvalidData, ''ID_T0 was not initialized'') st)
       (\<lambda>t0. let ms = sint (now_ms t0)
             in Ok (word_of_int (if ms < 0 then - ((- ms) div 10) else ms div 10)))"

text \<open>The origin is set once: whatever is tried afterwards, the ids are counted from it.\<close>

lemma origin_set_once:
  "snd (init_id_t0 (Some t0) t) = Some t0" "snd (init_sf_id_t0 ymd_hms (Some t0)) = Some t0"
  by (simp_all add: init_id_t0_def init_sf_id_t0_def split: local_result.split)

text \<open>From the origin on, an id is the count of whole hundredths of a second.\<close>

lemma current_id_counts:
  assumes "0 \<le> sint (now_ms t0)" and "current_id (Some t0) now_ms = Ok pid"
  shows "uint pid = sint (now_ms t0) div 10"
proof -
  have "pid = word_of_int (sint (now_ms t0) div 10)"
    using assms by (simp add: current_id_def Let_def)
  moreover have "sint (now_ms t0) div 10 < 2 ^ 64"
    using sint_lt [of "now_ms t0"] by simp
  ultimately show ?thesis
    using assms(1) by (simp add: uint_word_of_int take_bit_int_eq_self take_bit_eq_mod)
qed

subsection \<open>The name of the running program\<close>

text \<open>
  \<open>Path::file_name\<close> on Unix: the last component of the path, where empty components and
  \<open>.\<close> do not count and \<open>..\<close> has no name.
\<close>

fun path_pieces :: "string \<Rightarrow> string list" where
  "path_pieces [] = [[]]"
| "path_pieces (c # cs) =
     (if c = CHR ''/'' then [] # path_pieces cs
      else (case path_pieces cs of [] \<Rightarrow> [[c]] | p # ps \<Rightarrow> (c # p) # ps))"

definition path_file_name :: "string \<Rightarrow> string option" where
  "path_file_name path =
     (case rev (filter (\<lambda>p. p \<noteq> [] \<and> p \<noteq> ''.'') (path_pieces path)) of
        [] \<Rightarrow> None
      | p # ps \<Rightarrow> if p = ''..'' then None else Some p)"

text \<open>\<open>exe\<close>: the result of \<open>env::current_exe\<close>.\<close>

definition app_name :: "io_error + string \<Rightarrow> string option" where
  "app_name exe =
     (case exe of
        Inl e \<Rightarrow> None
      | Inr path \<Rightarrow>
          (case path_file_name path of
             None \<Rightarrow> None
           | Some name \<Rightarrow> if utf8_valid (str_bytes name) then Some name else None))"

lemma path_pieces_slash: "p \<in> set (path_pieces s) \<Longrightarrow> CHR ''/'' \<notin> set p"
  by (induction s arbitrary: p) (fastforce split: if_splits list.splits)+

lemma path_file_name_plain:
  assumes "path_file_name path = Some name"
  shows "name \<noteq> []" and "CHR ''/'' \<notin> set name"
proof -
  obtain ps where "rev (filter (\<lambda>p. p \<noteq> [] \<and> p \<noteq> ''.'') (path_pieces path)) = name # ps"
    using assms unfolding path_file_name_def by (auto split: list.splits if_splits)
  then have "name \<in> set (rev (filter (\<lambda>p. p \<noteq> [] \<and> p \<noteq> ''.'') (path_pieces path)))"
    by (metis list.set_intros(1))
  then show "name \<noteq> []" "CHR ''/'' \<notin> set name" using path_pieces_slash by auto
qed

text \<open>The name is one component of a path: not empty and without a slash.\<close>

lemma app_name_plain:
  assumes "app_name exe = Some name"
  shows "name \<noteq> []" and "CHR ''/'' \<notin> set name"
  using assms path_file_name_plain unfolding app_name_def by (auto split: sum.splits option.splits if_splits)

text \<open>The file name of a directory's entry is that entry.\<close>

lemma path_pieces_nonempty: "path_pieces s \<noteq> []"
  by (induction s) (auto split: list.split)

lemma path_pieces_append:
  "path_pieces (dir @ CHR ''/'' # s) = path_pieces dir @ path_pieces s"
  by (induction dir) (auto split: list.split simp: append_eq_Cons_conv path_pieces_nonempty)

lemma path_pieces_plain: "CHR ''/'' \<notin> set s \<Longrightarrow> path_pieces s = [s]"
  by (induction s) auto

lemma path_file_name_entry:
  assumes "name \<notin> {[], ''.'', ''..''}" and "CHR ''/'' \<notin> set name"
  shows "path_file_name (dir @ CHR ''/'' # name) = Some name"
  using assms by (simp add: path_file_name_def path_pieces_append path_pieces_plain)

end
