(* ===== verification/Bs_Codec.thy ===== *)
theory Bs_Codec
  imports Bs_Types
begin

section \<open>Readers and writers (src/src/reader.rs, src/src/writer.rs)\<close>

text \<open>
  The cursors over byte vectors and the reader and writer constants.  A reader takes the
  cursor (and, for an array, the length of the destination slice) and returns the value
  and the moved cursor.  Signed integers and floats are read as their bit patterns, so
  \<open>READER_I16\<close>, \<open>READER_U16\<close> differ in their Rust type only.

  The conversions between bytes and integers are byteorder's (\<open>bo_get\<close>, \<open>bo_put\<close>);
  the cursor operations are the standard library's.
\<close>

subsection \<open>Cursors\<close>

record rcursor =
  rc_data :: "byte list"
  rc_pos :: nat

record wcursor =
  wc_data :: "byte list"
  wc_pos :: nat

definition rcursor_new :: "byte list \<Rightarrow> rcursor" where
  "rcursor_new bs = \<lparr>rc_data = bs, rc_pos = 0\<rparr>"

definition wcursor_new :: "byte list \<Rightarrow> wcursor" where
  "wcursor_new bs = \<lparr>wc_data = bs, wc_pos = 0\<rparr>"

definition read_exact :: "rcursor \<Rightarrow> nat \<Rightarrow> (byte list \<times> rcursor) res" where
  "read_exact c n =
     (let rest = drop (rc_pos c) (rc_data c)
      in if n \<le> length rest then Ok (take n rest, c\<lparr>rc_pos := rc_pos c + n\<rparr>)
         else Err (UnexpectedEof, ''failed to fill whole buffer''))"

definition read_to_end :: "rcursor \<Rightarrow> byte list \<times> rcursor" where
  "read_to_end c = (drop (rc_pos c) (rc_data c), c\<lparr>rc_pos := max (rc_pos c) (length (rc_data c))\<rparr>)"

text \<open>\<open>Cursor<&mut Vec<u8>>::write_all\<close>: overwrites in place and grows the vector.\<close>

definition wc_put :: "wcursor \<Rightarrow> byte list \<Rightarrow> wcursor" where
  "wc_put c bs =
     (let d = wc_data c @ replicate (wc_pos c - length (wc_data c)) 0
      in c\<lparr>wc_data := take (wc_pos c) d @ bs @ drop (wc_pos c + length bs) d,
           wc_pos := wc_pos c + length bs\<rparr>)"

definition write_all :: "wcursor \<Rightarrow> byte list \<Rightarrow> wcursor res" where
  "write_all c bs = Ok (wc_put c bs)"

subsection \<open>byteorder's cursor methods\<close>

definition read_u8 :: "rcursor \<Rightarrow> (u8 \<times> rcursor) res" where
  "read_u8 c = res_map (\<lambda>(bs, c'). (hd bs, c')) (read_exact c 1)"

definition read_word :: "ext \<Rightarrow> endian \<Rightarrow> rcursor \<Rightarrow> ('a::len word \<times> rcursor) res" where
  "read_word L e c =
     res_map (\<lambda>(bs, c'). (word_of_nat (bo_get L e bs), c')) (read_exact c (nbytes TYPE('a)))"

definition read_words_into :: "ext \<Rightarrow> endian \<Rightarrow> nat \<Rightarrow> rcursor \<Rightarrow> ('a::len word list \<times> rcursor) res" where
  "read_words_into L e n c =
     res_map (\<lambda>(bs, c'). (map (\<lambda>b. word_of_nat (bo_get L e b)) (chunks_exact (nbytes TYPE('a)) bs), c'))
       (read_exact c (n * nbytes TYPE('a)))"

definition write_word :: "ext \<Rightarrow> endian \<Rightarrow> wcursor \<Rightarrow> 'a::len word \<Rightarrow> wcursor res" where
  "write_word L e c v = write_all c (bo_put L e (nbytes TYPE('a)) (unat v))"

text \<open>The loop \<open>for i in 0..arr.len() { W(cursor, &arr[i])?; }\<close> of the array writers.\<close>

fun write_each :: "(wcursor \<Rightarrow> 'a \<Rightarrow> wcursor res) \<Rightarrow> wcursor \<Rightarrow> 'a list \<Rightarrow> wcursor res" where
  "write_each w c [] = Ok c"
| "write_each w c (x # xs) = res_bind (w c x) (\<lambda>c'. write_each w c' xs)"

subsection \<open>Scalar readers\<close>

definition READER_I8 :: "rcursor \<Rightarrow> (i8 \<times> rcursor) res" where
  "READER_I8 c = read_u8 c"

definition READER_U8 :: "rcursor \<Rightarrow> (u8 \<times> rcursor) res" where
  "READER_U8 c = read_u8 c"

definition READER_I16 :: "ext \<Rightarrow> rcursor \<Rightarrow> (i16 \<times> rcursor) res" where
  "READER_I16 L c = read_word L LittleEndian c"

definition READER_I32 :: "ext \<Rightarrow> rcursor \<Rightarrow> (i32 \<times> rcursor) res" where
  "READER_I32 L c = read_word L LittleEndian c"

definition READER_I64 :: "ext \<Rightarrow> rcursor \<Rightarrow> (i64 \<times> rcursor) res" where
  "READER_I64 L c = read_word L LittleEndian c"

definition READER_U16 :: "ext \<Rightarrow> rcursor \<Rightarrow> (u16 \<times> rcursor) res" where
  "READER_U16 L c = read_word L LittleEndian c"

definition READER_U32 :: "ext \<Rightarrow> rcursor \<Rightarrow> (u32 \<times> rcursor) res" where
  "READER_U32 L c = read_word L LittleEndian c"

definition READER_U64 :: "ext \<Rightarrow> rcursor \<Rightarrow> (u64 \<times> rcursor) res" where
  "READER_U64 L c = read_word L LittleEndian c"

definition READER_F32 :: "ext \<Rightarrow> rcursor \<Rightarrow> (f32 \<times> rcursor) res" where
  "READER_F32 L c = read_word L LittleEndian c"

definition READER_F64 :: "ext \<Rightarrow> rcursor \<Rightarrow> (f64 \<times> rcursor) res" where
  "READER_F64 L c = read_word L LittleEndian c"

definition READER_BI16 :: "ext \<Rightarrow> rcursor \<Rightarrow> (i16 \<times> rcursor) res" where
  "READER_BI16 L c = read_word L BigEndian c"

definition READER_BI32 :: "ext \<Rightarrow> rcursor \<Rightarrow> (i32 \<times> rcursor) res" where
  "READER_BI32 L c = read_word L BigEndian c"

definition READER_BI64 :: "ext \<Rightarrow> rcursor \<Rightarrow> (i64 \<times> rcursor) res" where
  "READER_BI64 L c = read_word L BigEndian c"

definition READER_BU16 :: "ext \<Rightarrow> rcursor \<Rightarrow> (u16 \<times> rcursor) res" where
  "READER_BU16 L c = read_word L BigEndian c"

definition READER_BU32 :: "ext \<Rightarrow> rcursor \<Rightarrow> (u32 \<times> rcursor) res" where
  "READER_BU32 L c = read_word L BigEndian c"

definition READER_BU64 :: "ext \<Rightarrow> rcursor \<Rightarrow> (u64 \<times> rcursor) res" where
  "READER_BU64 L c = read_word L BigEndian c"

definition READER_BF32 :: "ext \<Rightarrow> rcursor \<Rightarrow> (f32 \<times> rcursor) res" where
  "READER_BF32 L c = read_word L BigEndian c"

definition READER_BF64 :: "ext \<Rightarrow> rcursor \<Rightarrow> (f64 \<times> rcursor) res" where
  "READER_BF64 L c = read_word L BigEndian c"

definition READER_BOOL :: "rcursor \<Rightarrow> (bool \<times> rcursor) res" where
  "READER_BOOL c = res_map (\<lambda>(v, c'). (v \<noteq> 0, c')) (READER_U8 c)"

definition READER_STRING :: "ext \<Rightarrow> rcursor \<Rightarrow> (string \<times> rcursor) res" where
  "READER_STRING L c =
     (let (rest, c') = read_to_end c; buffer = takeWhile (\<lambda>b. b \<noteq> 0) rest
      in if utf8_valid buffer then Ok (bytes_str buffer, c')
         else Err (InvalidData, utf8_error_text L buffer))"

subsection \<open>Array readers\<close>

text \<open>The first argument after the library is the length of the destination slice.\<close>

definition READER_AI8 :: "nat \<Rightarrow> rcursor \<Rightarrow> (i8 list \<times> rcursor) res" where
  "READER_AI8 n c = read_exact c n"

definition READER_AU8 :: "nat \<Rightarrow> rcursor \<Rightarrow> (u8 list \<times> rcursor) res" where
  "READER_AU8 n c = read_exact c n"

definition READER_AI16 :: "ext \<Rightarrow> nat \<Rightarrow> rcursor \<Rightarrow> (i16 list \<times> rcursor) res" where
  "READER_AI16 L n c = read_words_into L LittleEndian n c"

definition READER_AI32 :: "ext \<Rightarrow> nat \<Rightarrow> rcursor \<Rightarrow> (i32 list \<times> rcursor) res" where
  "READER_AI32 L n c = read_words_into L LittleEndian n c"

definition READER_AI64 :: "ext \<Rightarrow> nat \<Rightarrow> rcursor \<Rightarrow> (i64 list \<times> rcursor) res" where
  "READER_AI64 L n c = read_words_into L LittleEndian n c"

definition READER_AU16 :: "ext \<Rightarrow> nat \<Rightarrow> rcursor \<Rightarrow> (u16 list \<times> rcursor) res" where
  "READER_AU16 L n c = read_words_into L LittleEndian n c"

definition READER_AU32 :: "ext \<Rightarrow> nat \<Rightarrow> rcursor \<Rightarrow> (u32 list \<times> rcursor) res" where
  "READER_AU32 L n c = read_words_into L LittleEndian n c"

definition READER_AU64 :: "ext \<Rightarrow> nat \<Rightarrow> rcursor \<Rightarrow> (u64 list \<times> rcursor) res" where
  "READER_AU64 L n c = read_words_into L LittleEndian n c"

definition READER_AF32 :: "ext \<Rightarrow> nat \<Rightarrow> rcursor \<Rightarrow> (f32 list \<times> rcursor) res" where
  "READER_AF32 L n c = read_words_into L LittleEndian n c"

definition READER_AF64 :: "ext \<Rightarrow> nat \<Rightarrow> rcursor \<Rightarrow> (f64 list \<times> rcursor) res" where
  "READER_AF64 L n c = read_words_into L LittleEndian n c"

definition READER_ABI16 :: "ext \<Rightarrow> nat \<Rightarrow> rcursor \<Rightarrow> (i16 list \<times> rcursor) res" where
  "READER_ABI16 L n c = read_words_into L BigEndian n c"

definition READER_ABI32 :: "ext \<Rightarrow> nat \<Rightarrow> rcursor \<Rightarrow> (i32 list \<times> rcursor) res" where
  "READER_ABI32 L n c = read_words_into L BigEndian n c"

definition READER_ABI64 :: "ext \<Rightarrow> nat \<Rightarrow> rcursor \<Rightarrow> (i64 list \<times> rcursor) res" where
  "READER_ABI64 L n c = read_words_into L BigEndian n c"

definition READER_ABU16 :: "ext \<Rightarrow> nat \<Rightarrow> rcursor \<Rightarrow> (u16 list \<times> rcursor) res" where
  "READER_ABU16 L n c = read_words_into L BigEndian n c"

definition READER_ABU32 :: "ext \<Rightarrow> nat \<Rightarrow> rcursor \<Rightarrow> (u32 list \<times> rcursor) res" where
  "READER_ABU32 L n c = read_words_into L BigEndian n c"

definition READER_ABU64 :: "ext \<Rightarrow> nat \<Rightarrow> rcursor \<Rightarrow> (u64 list \<times> rcursor) res" where
  "READER_ABU64 L n c = read_words_into L BigEndian n c"

definition READER_ABF32 :: "ext \<Rightarrow> nat \<Rightarrow> rcursor \<Rightarrow> (f32 list \<times> rcursor) res" where
  "READER_ABF32 L n c = read_words_into L BigEndian n c"

definition READER_ABF64 :: "ext \<Rightarrow> nat \<Rightarrow> rcursor \<Rightarrow> (f64 list \<times> rcursor) res" where
  "READER_ABF64 L n c = read_words_into L BigEndian n c"

text \<open>
  \<open>READER_ABOOL\<close> and \<open>READER_ASTRING\<close> unwrap their element reads: a short buffer is a
  panic, not an error.  \<open>READER_ASTRING\<close> fills the first element only.
\<close>

fun READER_ABOOL :: "nat \<Rightarrow> rcursor \<Rightarrow> (bool list \<times> rcursor) res" where
  "READER_ABOOL 0 c = Ok ([], c)"
| "READER_ABOOL (Suc n) c =
     res_bind (unwrap (READER_BOOL c)) (\<lambda>(b, c').
       res_map (\<lambda>(bs, c''). (b # bs, c'')) (READER_ABOOL n c'))"

definition READER_ASTRING :: "ext \<Rightarrow> string list \<Rightarrow> rcursor \<Rightarrow> (string list \<times> rcursor) res" where
  "READER_ASTRING L arr c =
     res_bind (unwrap (READER_STRING L c)) (\<lambda>(s, c').
       if arr = [] then Panic else Ok (arr[0 := s], c'))"

subsection \<open>Raw readers\<close>

definition new_raw_buffer :: "nat \<Rightarrow> nat \<Rightarrow> byte list" where
  "new_raw_buffer element_size count = replicate (element_size * count) 0"

definition new_typed_raw_buffer :: "'a::len itself \<Rightarrow> nat \<Rightarrow> byte list" where
  "new_typed_raw_buffer T count = new_raw_buffer (nbytes T) count"

text \<open>\<open>for chunk in arr.chunks_exact_mut(w) { chunk.reverse(); }\<close>: a shorter rest stays.\<close>

definition reverse_chunks :: "nat \<Rightarrow> byte list \<Rightarrow> byte list" where
  "reverse_chunks w bs = concat (map rev (chunks_exact w bs)) @ drop (length bs div w * w) bs"

definition READER_RAW :: "nat \<Rightarrow> rcursor \<Rightarrow> (byte list \<times> rcursor) res" where
  "READER_RAW n c = read_exact c n"

definition READER_BRAW16 :: "nat \<Rightarrow> rcursor \<Rightarrow> (byte list \<times> rcursor) res" where
  "READER_BRAW16 n c = res_map (\<lambda>(bs, c'). (reverse_chunks 2 bs, c')) (read_exact c n)"

definition READER_BRAW32 :: "nat \<Rightarrow> rcursor \<Rightarrow> (byte list \<times> rcursor) res" where
  "READER_BRAW32 n c = res_map (\<lambda>(bs, c'). (reverse_chunks 4 bs, c')) (read_exact c n)"

definition READER_BRAW64 :: "nat \<Rightarrow> rcursor \<Rightarrow> (byte list \<times> rcursor) res" where
  "READER_BRAW64 n c = res_map (\<lambda>(bs, c'). (reverse_chunks 8 bs, c')) (read_exact c n)"

subsection \<open>Scalar writers\<close>

definition WRITER_I8 :: "wcursor \<Rightarrow> i8 \<Rightarrow> wcursor res" where
  "WRITER_I8 c v = write_all c [v]"

definition WRITER_U8 :: "wcursor \<Rightarrow> u8 \<Rightarrow> wcursor res" where
  "WRITER_U8 c v = write_all c [v]"

definition WRITER_I16 :: "ext \<Rightarrow> wcursor \<Rightarrow> i16 \<Rightarrow> wcursor res" where
  "WRITER_I16 L c v = write_word L LittleEndian c v"

definition WRITER_I32 :: "ext \<Rightarrow> wcursor \<Rightarrow> i32 \<Rightarrow> wcursor res" where
  "WRITER_I32 L c v = write_word L LittleEndian c v"

definition WRITER_I64 :: "ext \<Rightarrow> wcursor \<Rightarrow> i64 \<Rightarrow> wcursor res" where
  "WRITER_I64 L c v = write_word L LittleEndian c v"

definition WRITER_U16 :: "ext \<Rightarrow> wcursor \<Rightarrow> u16 \<Rightarrow> wcursor res" where
  "WRITER_U16 L c v = write_word L LittleEndian c v"

definition WRITER_U32 :: "ext \<Rightarrow> wcursor \<Rightarrow> u32 \<Rightarrow> wcursor res" where
  "WRITER_U32 L c v = write_word L LittleEndian c v"

definition WRITER_U64 :: "ext \<Rightarrow> wcursor \<Rightarrow> u64 \<Rightarrow> wcursor res" where
  "WRITER_U64 L c v = write_word L LittleEndian c v"

definition WRITER_F32 :: "ext \<Rightarrow> wcursor \<Rightarrow> f32 \<Rightarrow> wcursor res" where
  "WRITER_F32 L c v = write_word L LittleEndian c v"

definition WRITER_F64 :: "ext \<Rightarrow> wcursor \<Rightarrow> f64 \<Rightarrow> wcursor res" where
  "WRITER_F64 L c v = write_word L LittleEndian c v"

definition WRITER_BI16 :: "ext \<Rightarrow> wcursor \<Rightarrow> i16 \<Rightarrow> wcursor res" where
  "WRITER_BI16 L c v = write_word L BigEndian c v"

definition WRITER_BI32 :: "ext \<Rightarrow> wcursor \<Rightarrow> i32 \<Rightarrow> wcursor res" where
  "WRITER_BI32 L c v = write_word L BigEndian c v"

definition WRITER_BI64 :: "ext \<Rightarrow> wcursor \<Rightarrow> i64 \<Rightarrow> wcursor res" where
  "WRITER_BI64 L c v = write_word L BigEndian c v"

definition WRITER_BU16 :: "ext \<Rightarrow> wcursor \<Rightarrow> u16 \<Rightarrow> wcursor res" where
  "WRITER_BU16 L c v = write_word L BigEndian c v"

definition WRITER_BU32 :: "ext \<Rightarrow> wcursor \<Rightarrow> u32 \<Rightarrow> wcursor res" where
  "WRITER_BU32 L c v = write_word L BigEndian c v"

definition WRITER_BU64 :: "ext \<Rightarrow> wcursor \<Rightarrow> u64 \<Rightarrow> wcursor res" where
  "WRITER_BU64 L c v = write_word L BigEndian c v"

definition WRITER_BF32 :: "ext \<Rightarrow> wcursor \<Rightarrow> f32 \<Rightarrow> wcursor res" where
  "WRITER_BF32 L c v = write_word L BigEndian c v"

definition WRITER_BF64 :: "ext \<Rightarrow> wcursor \<Rightarrow> f64 \<Rightarrow> wcursor res" where
  "WRITER_BF64 L c v = write_word L BigEndian c v"

definition WRITER_BOOL :: "wcursor \<Rightarrow> bool \<Rightarrow> wcursor res" where
  "WRITER_BOOL c v = WRITER_U8 c (if v then 1 else 0)"

definition WRITER_STRING :: "wcursor \<Rightarrow> string \<Rightarrow> wcursor res" where
  "WRITER_STRING c v = write_all c (str_bytes v)"

subsection \<open>Array writers\<close>

definition WRITER_AI8 :: "wcursor \<Rightarrow> i8 list \<Rightarrow> wcursor res" where
  "WRITER_AI8 c arr = write_each WRITER_I8 c arr"

definition WRITER_AU8 :: "wcursor \<Rightarrow> u8 list \<Rightarrow> wcursor res" where
  "WRITER_AU8 c arr = write_each WRITER_U8 c arr"

definition WRITER_AI16 :: "ext \<Rightarrow> wcursor \<Rightarrow> i16 list \<Rightarrow> wcursor res" where
  "WRITER_AI16 L c arr = write_each (WRITER_I16 L) c arr"

definition WRITER_AI32 :: "ext \<Rightarrow> wcursor \<Rightarrow> i32 list \<Rightarrow> wcursor res" where
  "WRITER_AI32 L c arr = write_each (WRITER_I32 L) c arr"

definition WRITER_AI64 :: "ext \<Rightarrow> wcursor \<Rightarrow> i64 list \<Rightarrow> wcursor res" where
  "WRITER_AI64 L c arr = write_each (WRITER_I64 L) c arr"

definition WRITER_AU16 :: "ext \<Rightarrow> wcursor \<Rightarrow> u16 list \<Rightarrow> wcursor res" where
  "WRITER_AU16 L c arr = write_each (WRITER_U16 L) c arr"

definition WRITER_AU32 :: "ext \<Rightarrow> wcursor \<Rightarrow> u32 list \<Rightarrow> wcursor res" where
  "WRITER_AU32 L c arr = write_each (WRITER_U32 L) c arr"

definition WRITER_AU64 :: "ext \<Rightarrow> wcursor \<Rightarrow> u64 list \<Rightarrow> wcursor res" where
  "WRITER_AU64 L c arr = write_each (WRITER_U64 L) c arr"

definition WRITER_AF32 :: "ext \<Rightarrow> wcursor \<Rightarrow> f32 list \<Rightarrow> wcursor res" where
  "WRITER_AF32 L c arr = write_each (WRITER_F32 L) c arr"

definition WRITER_AF64 :: "ext \<Rightarrow> wcursor \<Rightarrow> f64 list \<Rightarrow> wcursor res" where
  "WRITER_AF64 L c arr = write_each (WRITER_F64 L) c arr"

definition WRITER_ABI16 :: "ext \<Rightarrow> wcursor \<Rightarrow> i16 list \<Rightarrow> wcursor res" where
  "WRITER_ABI16 L c arr = write_each (WRITER_BI16 L) c arr"

definition WRITER_ABI32 :: "ext \<Rightarrow> wcursor \<Rightarrow> i32 list \<Rightarrow> wcursor res" where
  "WRITER_ABI32 L c arr = write_each (WRITER_BI32 L) c arr"

definition WRITER_ABI64 :: "ext \<Rightarrow> wcursor \<Rightarrow> i64 list \<Rightarrow> wcursor res" where
  "WRITER_ABI64 L c arr = write_each (WRITER_BI64 L) c arr"

definition WRITER_ABU16 :: "ext \<Rightarrow> wcursor \<Rightarrow> u16 list \<Rightarrow> wcursor res" where
  "WRITER_ABU16 L c arr = write_each (WRITER_BU16 L) c arr"

definition WRITER_ABU32 :: "ext \<Rightarrow> wcursor \<Rightarrow> u32 list \<Rightarrow> wcursor res" where
  "WRITER_ABU32 L c arr = write_each (WRITER_BU32 L) c arr"

definition WRITER_ABU64 :: "ext \<Rightarrow> wcursor \<Rightarrow> u64 list \<Rightarrow> wcursor res" where
  "WRITER_ABU64 L c arr = write_each (WRITER_BU64 L) c arr"

definition WRITER_ABF32 :: "ext \<Rightarrow> wcursor \<Rightarrow> f32 list \<Rightarrow> wcursor res" where
  "WRITER_ABF32 L c arr = write_each (WRITER_BF32 L) c arr"

definition WRITER_ABF64 :: "ext \<Rightarrow> wcursor \<Rightarrow> f64 list \<Rightarrow> wcursor res" where
  "WRITER_ABF64 L c arr = write_each (WRITER_BF64 L) c arr"

definition WRITER_ABOOL :: "wcursor \<Rightarrow> bool list \<Rightarrow> wcursor res" where
  "WRITER_ABOOL c arr = write_each WRITER_BOOL c arr"

definition WRITER_ASTRING :: "wcursor \<Rightarrow> string list \<Rightarrow> wcursor res" where
  "WRITER_ASTRING c arr = (case arr of [] \<Rightarrow> Panic | s # _ \<Rightarrow> WRITER_STRING c s)"

subsection \<open>Raw writers\<close>

text \<open>The big-endian raw writers reverse whole chunks and leave a shorter rest out.\<close>

definition WRITER_RAW :: "wcursor \<Rightarrow> byte list \<Rightarrow> wcursor res" where
  "WRITER_RAW c arr = write_all c arr"

definition WRITER_BRAW16 :: "wcursor \<Rightarrow> byte list \<Rightarrow> wcursor res" where
  "WRITER_BRAW16 c arr = write_each (\<lambda>c b. write_all c (rev b)) c (chunks_exact 2 arr)"

definition WRITER_BRAW32 :: "wcursor \<Rightarrow> byte list \<Rightarrow> wcursor res" where
  "WRITER_BRAW32 c arr = write_each (\<lambda>c b. write_all c (rev b)) c (chunks_exact 4 arr)"

definition WRITER_BRAW64 :: "wcursor \<Rightarrow> byte list \<Rightarrow> wcursor res" where
  "WRITER_BRAW64 c arr = write_each (\<lambda>c b. write_all c (rev b)) c (chunks_exact 8 arr)"

lemmas reader_defs =
  READER_I8_def READER_U8_def READER_I16_def READER_I32_def READER_I64_def READER_U16_def
  READER_U32_def READER_U64_def READER_F32_def READER_F64_def READER_BI16_def READER_BI32_def
  READER_BI64_def READER_BU16_def READER_BU32_def READER_BU64_def READER_BF32_def
  READER_BF64_def

lemmas array_reader_defs =
  READER_AI8_def READER_AU8_def READER_AI16_def READER_AI32_def READER_AI64_def
  READER_AU16_def READER_AU32_def READER_AU64_def READER_AF32_def READER_AF64_def
  READER_ABI16_def READER_ABI32_def READER_ABI64_def READER_ABU16_def READER_ABU32_def
  READER_ABU64_def READER_ABF32_def READER_ABF64_def

lemmas writer_defs =
  WRITER_I8_def WRITER_U8_def WRITER_I16_def WRITER_I32_def WRITER_I64_def WRITER_U16_def
  WRITER_U32_def WRITER_U64_def WRITER_F32_def WRITER_F64_def WRITER_BI16_def WRITER_BI32_def
  WRITER_BI64_def WRITER_BU16_def WRITER_BU32_def WRITER_BU64_def WRITER_BF32_def
  WRITER_BF64_def

lemmas array_writer_defs =
  WRITER_AI8_def WRITER_AU8_def WRITER_AI16_def WRITER_AI32_def WRITER_AI64_def
  WRITER_AU16_def WRITER_AU32_def WRITER_AU64_def WRITER_AF32_def WRITER_AF64_def
  WRITER_ABI16_def WRITER_ABI32_def WRITER_ABI64_def WRITER_ABU16_def WRITER_ABU32_def
  WRITER_ABU64_def WRITER_ABF32_def WRITER_ABF64_def

subsection \<open>Cursor lemmas\<close>

lemma wc_put_append:
  assumes "wc_pos c \<le> length (wc_data c)"
  shows "wc_put (wc_put c a) b = wc_put c (a @ b)"
  using assms by (simp add: wc_put_def Let_def add.commute add.left_commute)

lemma wc_put_pos: "wc_pos (wc_put c bs) = wc_pos c + length bs"
  by (simp add: wc_put_def Let_def)

lemma wc_put_in_range:
  "wc_pos c \<le> length (wc_data c) \<Longrightarrow> wc_pos (wc_put c bs) \<le> length (wc_data (wc_put c bs))"
  by (simp add: wc_put_def Let_def)

lemma wc_put_new: "wc_put (wcursor_new buf) bs
    = \<lparr>wc_data = bs @ drop (length bs) buf, wc_pos = length bs\<rparr>"
  by (simp add: wc_put_def wcursor_new_def)

lemma write_each_put:
  assumes "\<And>c x. w c x = Ok (wc_put c (f x))"
  shows "wc_pos c \<le> length (wc_data c) \<Longrightarrow> write_each w c xs = Ok (wc_put c (concat (map f xs)))"
proof (induction xs arbitrary: c)
  case Nil
  then show ?case by (simp add: wc_put_def)
next
  case (Cons x xs)
  have "write_each w c (x # xs) = write_each w (wc_put c (f x)) xs"
    by (simp add: assms)
  also have "\<dots> = Ok (wc_put (wc_put c (f x)) (concat (map f xs)))"
    using Cons.prems by (intro Cons.IH wc_put_in_range)
  finally show ?case using Cons.prems by (simp add: wc_put_append)
qed

lemma read_exact_app:
  "drop (rc_pos c) (rc_data c) = bs @ rest \<Longrightarrow> length bs = n \<Longrightarrow>
   read_exact c n = Ok (bs, c\<lparr>rc_pos := rc_pos c + n\<rparr>)"
  by (simp add: read_exact_def)

lemma read_exact_not_Panic: "read_exact c n \<noteq> Panic"
  by (simp add: read_exact_def Let_def)

lemma read_exact_Ok_iff:
  "read_exact c n = Ok (bs, c') \<longleftrightarrow>
     n \<le> length (rc_data c) - rc_pos c \<and> bs = take n (drop (rc_pos c) (rc_data c))
     \<and> c' = c\<lparr>rc_pos := rc_pos c + n\<rparr>"
  by (auto simp: read_exact_def Let_def)

lemma rcursor_new_rest [simp]: "drop (rc_pos (rcursor_new bs)) (rc_data (rcursor_new bs)) = bs"
  by (simp add: rcursor_new_def)

subsection \<open>The codec interface\<close>

text \<open>
  What a channel relies on: a scalar reader and writer agree on an encoding of fixed
  width; the array reader and writer lay out elements one after the other; the encoding
  of the zero element is zero bytes (the buffer a sender starts from).
\<close>

locale elem_codec =
  fixes rd :: "rcursor \<Rightarrow> ('a \<times> rcursor) res"
    and wr :: "wcursor \<Rightarrow> 'a \<Rightarrow> wcursor res"
    and enc :: "'a \<Rightarrow> byte list"
    and width :: nat
    and zero :: 'a
  assumes width_pos: "0 < width"
    and length_enc: "length (enc v) = width"
    and enc_zero: "enc zero = replicate width 0"
    and wr_enc: "wr w v = Ok (wc_put w (enc v))"
    and rd_enc: "drop (rc_pos c) (rc_data c) = enc v @ rest \<Longrightarrow>
      rd c = Ok (v, c\<lparr>rc_pos := rc_pos c + width\<rparr>)"
    and rd_short: "length (drop (rc_pos c) (rc_data c)) < width \<Longrightarrow>
      rd c = Err (UnexpectedEof, ''failed to fill whole buffer'')"
begin

lemma read_written:
  "\<exists>w c'. wr (wcursor_new buf) v = Ok w \<and> rd (rcursor_new (wc_data w)) = Ok (v, c')"
  using rd_enc [of "rcursor_new (enc v @ drop width buf)" v "drop width buf"]
  by (simp add: wr_enc wc_put_new length_enc)

lemma length_concat_enc [simp]: "length (concat (map enc vs)) = length vs * width"
  by (induction vs) (simp_all add: length_enc)

lemma concat_enc_zero [simp]: "concat (replicate n (enc zero)) = replicate (n * width) 0"
  by (induction n) (simp_all add: enc_zero replicate_add)

end

locale array_codec = elem_codec +
  fixes rda :: "nat \<Rightarrow> rcursor \<Rightarrow> ('a list \<times> rcursor) res"
    and wra :: "wcursor \<Rightarrow> 'a list \<Rightarrow> wcursor res"
  assumes wra_each: "wra w vs = write_each wr w vs"
    and rda_enc: "drop (rc_pos c) (rc_data c) = concat (map enc vs) @ rest \<Longrightarrow>
      rda (length vs) c = Ok (vs, c\<lparr>rc_pos := rc_pos c + length vs * width\<rparr>)"
    and rda_short: "length (drop (rc_pos c) (rc_data c)) < n * width \<Longrightarrow> rda n c \<noteq> Ok r"
begin

lemma wra_enc:
  "wc_pos w \<le> length (wc_data w) \<Longrightarrow> wra w vs = Ok (wc_put w (concat (map enc vs)))"
  unfolding wra_each by (rule write_each_put [OF wr_enc])

text \<open>
  Writing any array into a zeroed buffer for \<open>n\<close> elements and reading \<open>n\<close> elements
  gives the array cut or zero-filled to length \<open>n\<close>.
\<close>

lemma read_written_array:
  "\<exists>w c'. wra (wcursor_new (replicate (width * n) 0)) vs = Ok w
     \<and> rda n (rcursor_new (wc_data w)) = Ok (take n (vs @ replicate n zero), c')"
proof -
  let ?e = "concat (map enc vs)" and ?r = "take n (vs @ replicate n zero)"
  let ?data = "?e @ drop (length ?e) (replicate (width * n) 0)"
  have w: "wra (wcursor_new (replicate (width * n) 0)) vs
      = Ok \<lparr>wc_data = ?data, wc_pos = length ?e\<rparr>"
    by (subst wra_enc) (simp_all add: wc_put_new wcursor_new_def [of "replicate (width * n) 0"]
        del: length_concat_enc add: wc_put_new [unfolded wcursor_new_def])
  have "?data = concat (map enc ?r) @ concat (map enc (drop n vs))"
  proof (cases "length vs \<le> n")
    case True
    then have "?r = vs @ replicate (n - length vs) zero" by simp
    moreover have "width * n - length vs * width = (n - length vs) * width"
      by (metis diff_mult_distrib mult.commute)
    ultimately show ?thesis using True by simp
  next
    case False
    have "width * n - length vs * width = 0" using False by (simp add: mult.commute)
    moreover have "concat (map enc (take n vs)) @ concat (map enc (drop n vs)) = ?e"
      by (metis append_take_drop_id concat_append map_append)
    ultimately show ?thesis using False by simp
  qed
  moreover have "length ?r = n" by simp
  ultimately have "rda n (rcursor_new ?data)
      = Ok (?r, (rcursor_new ?data)\<lparr>rc_pos := rc_pos (rcursor_new ?data) + n * width\<rparr>)"
    using rda_enc [of "rcursor_new ?data" ?r "concat (map enc (drop n vs))"] by simp
  with w show ?thesis by auto
qed

end

subsection \<open>The codecs of the crate implement the interface\<close>

definition enc_word :: "endian \<Rightarrow> 'a::len word \<Rightarrow> byte list" where
  "enc_word e v = nat_to_bytes e (nbytes TYPE('a)) (unat v)"

definition enc_bool :: "bool \<Rightarrow> byte list" where
  "enc_bool b = [if b then 1 else 0]"

lemma length_enc_word [simp]: "length (enc_word e (v :: 'a::len word)) = nbytes TYPE('a)"
  by (simp add: enc_word_def)

lemma bo_put_word:
  assumes "byteorder_ok L" and "LENGTH('a::len) = 8 * nbytes TYPE('a)"
  shows "bo_put L e (nbytes TYPE('a)) (unat (v :: 'a word)) = enc_word e v"
proof -
  have "unat v < 2 ^ LENGTH('a)" by (rule unsigned_less)
  also have "(2 :: nat) ^ LENGTH('a) = (2 ^ 8) ^ nbytes TYPE('a)"
    unfolding assms(2) by (rule power_mult)
  finally have "unat v < 256 ^ nbytes TYPE('a)" by simp
  with assms(1) show ?thesis by (simp add: byteorder_ok_def enc_word_def)
qed

lemma bo_get_word:
  assumes "byteorder_ok L" and "LENGTH('a::len) = 8 * nbytes TYPE('a)"
  shows "word_of_nat (bo_get L e (enc_word e v)) = (v :: 'a word)"
proof -
  have "unat v < 2 ^ LENGTH('a)" by (rule unsigned_less)
  also have "(2 :: nat) ^ LENGTH('a) = (2 ^ 8) ^ nbytes TYPE('a)"
    unfolding assms(2) by (rule power_mult)
  finally have "unat v < 256 ^ nbytes TYPE('a)" by simp
  with assms(1) show ?thesis
    by (simp add: byteorder_ok_def enc_word_def bytes_to_nat_to_bytes)
qed

lemma word_elem_codec:
  assumes "byteorder_ok L" and "LENGTH('a::len) = 8 * nbytes TYPE('a)"
  shows "elem_codec (read_word L e) (write_word L e) (enc_word e :: 'a word \<Rightarrow> _) (nbytes TYPE('a)) 0"
proof
  show "0 < nbytes TYPE('a)" using assms(2) len_gt_0 [where 'a = 'a] by (cases "nbytes TYPE('a)") auto
  show "length (enc_word e v) = nbytes TYPE('a)" for v :: "'a word" by simp
  show "enc_word e (0 :: 'a word) = replicate (nbytes TYPE('a)) 0"
    by (simp add: enc_word_def nat_to_bytes_zero)
  show "write_word L e w v = Ok (wc_put w (enc_word e v))" for w and v :: "'a word"
    by (simp add: write_word_def write_all_def bo_put_word [OF assms])
  show "read_word L e c = Ok (v, c\<lparr>rc_pos := rc_pos c + nbytes TYPE('a)\<rparr>)"
    if "drop (rc_pos c) (rc_data c) = enc_word e v @ rest" for c rest and v :: "'a word"
    using read_exact_app [OF that] by (simp add: read_word_def bo_get_word [OF assms])
  show "read_word L e c = (Err (UnexpectedEof, ''failed to fill whole buffer'') :: ('a word \<times> rcursor) res)"
    if "length (drop (rc_pos c) (rc_data c)) < nbytes TYPE('a)" for c
    using that by (simp add: read_word_def read_exact_def)
qed

lemma concat_enc_word_length:
  "length (concat (map (enc_word e) (vs :: 'a::len word list))) = length vs * nbytes TYPE('a)"
  by (induction vs) auto

lemma word_array_codec:
  assumes "byteorder_ok L" and "LENGTH('a::len) = 8 * nbytes TYPE('a)"
  shows "array_codec (read_word L e) (write_word L e) (enc_word e :: 'a word \<Rightarrow> _) (nbytes TYPE('a)) 0
    (read_words_into L e) (write_each (write_word L e))"
proof -
  let ?w = "nbytes TYPE('a)"
  have pos: "0 < ?w" using word_elem_codec [OF assms, of e] by (rule elem_codec.width_pos)
  have "read_words_into L e (length vs) c = Ok (vs, c\<lparr>rc_pos := rc_pos c + length vs * ?w\<rparr>)"
    if d: "drop (rc_pos c) (rc_data c) = concat (map (enc_word e) vs) @ rest"
    for c rest and vs :: "'a word list"
  proof -
    have "chunks_exact ?w (concat (map (enc_word e) vs) @ []) = map (enc_word e) vs"
      using pos by (intro chunks_exact_concat) auto
    then have "map (\<lambda>b. word_of_nat (bo_get L e b)) (chunks_exact ?w (concat (map (enc_word e) vs))) = vs"
      by (simp add: comp_def bo_get_word [OF assms])
    with read_exact_app [OF d concat_enc_word_length] show ?thesis
      by (simp add: read_words_into_def)
  qed
  moreover have "read_words_into L e n c \<noteq> Ok (r :: 'a word list \<times> rcursor)"
    if "length (drop (rc_pos c) (rc_data c)) < n * ?w" for c n r
    using that by (simp add: read_words_into_def read_exact_def)
  ultimately show ?thesis
    by (intro array_codec.intro word_elem_codec [OF assms] array_codec_axioms.intro) auto
qed

text \<open>The byte-sized codecs need no library; the interface is interpreted on them.\<close>

interpretation u8: array_codec READER_U8 WRITER_U8 "\<lambda>v. [v]" 1 0 READER_AU8 WRITER_AU8
proof unfold_locales
  show "READER_AU8 (length vs) c = Ok (vs, c\<lparr>rc_pos := rc_pos c + length vs * 1\<rparr>)"
    if "drop (rc_pos c) (rc_data c) = concat (map (\<lambda>v. [v]) vs) @ rest" for c vs rest
    using read_exact_app [of c vs rest] that by (simp add: READER_AU8_def)
qed (auto simp: READER_U8_def WRITER_U8_def write_all_def WRITER_AU8_def READER_AU8_def read_u8_def
    read_exact_def Let_def split: if_splits)

interpretation i8: array_codec READER_I8 WRITER_I8 "\<lambda>v. [v]" 1 0 READER_AI8 WRITER_AI8
proof unfold_locales
  show "READER_AI8 (length vs) c = Ok (vs, c\<lparr>rc_pos := rc_pos c + length vs * 1\<rparr>)"
    if "drop (rc_pos c) (rc_data c) = concat (map (\<lambda>v. [v]) vs) @ rest" for c vs rest
    using read_exact_app [of c vs rest] that by (simp add: READER_AI8_def)
qed (auto simp: READER_I8_def WRITER_I8_def write_all_def WRITER_AI8_def READER_AI8_def read_u8_def
    read_exact_def Let_def split: if_splits)

lemma READER_BOOL_enc:
  "drop (rc_pos c) (rc_data c) = enc_bool b @ rest \<Longrightarrow>
   READER_BOOL c = Ok (b, c\<lparr>rc_pos := Suc (rc_pos c)\<rparr>)"
  using u8.rd_enc [of c "if b then 1 else 0" rest] by (auto simp: READER_BOOL_def enc_bool_def)

lemma READER_ABOOL_enc:
  "drop (rc_pos c) (rc_data c) = concat (map enc_bool vs) @ rest \<Longrightarrow>
   READER_ABOOL (length vs) c = Ok (vs, c\<lparr>rc_pos := rc_pos c + length vs\<rparr>)"
proof (induction vs arbitrary: c)
  case Nil
  then show ?case by simp
next
  case (Cons v vs)
  let ?c' = "c\<lparr>rc_pos := Suc (rc_pos c)\<rparr>"
  have "READER_BOOL c = Ok (v, ?c')"
    using Cons.prems by (intro READER_BOOL_enc) simp
  moreover have "drop (rc_pos ?c') (rc_data ?c') = concat (map enc_bool vs) @ rest"
    using Cons.prems by (simp add: enc_bool_def [of v] drop_Suc drop_tl)
  then have "READER_ABOOL (length vs) ?c' = Ok (vs, ?c'\<lparr>rc_pos := rc_pos ?c' + length vs\<rparr>)"
    by (rule Cons.IH)
  ultimately show ?case by simp
qed

lemma READER_BOOL_moves: "READER_BOOL c = Ok (b, c') \<Longrightarrow> c' = c\<lparr>rc_pos := Suc (rc_pos c)\<rparr>"
  by (auto simp: READER_BOOL_def READER_U8_def read_u8_def read_exact_Ok_iff res_simps)

lemma READER_ABOOL_short:
  "length (drop (rc_pos c) (rc_data c)) < n \<Longrightarrow> READER_ABOOL n c \<noteq> Ok r"
proof (induction n arbitrary: c r)
  case 0
  then show ?case by simp
next
  case (Suc n)
  show ?case
  proof
    assume "READER_ABOOL (Suc n) c = Ok r"
    then obtain b c' r' where b: "READER_BOOL c = Ok (b, c')" and r: "READER_ABOOL n c' = Ok r'"
      by (auto simp: res_simps)
    have "length (drop (rc_pos c') (rc_data c')) < n"
    proof -
      have "Suc 0 \<le> length (rc_data c) - rc_pos c"
        using b by (auto simp: READER_BOOL_def READER_U8_def read_u8_def read_exact_Ok_iff res_simps)
      with Suc.prems READER_BOOL_moves [OF b] show ?thesis by simp
    qed
    from Suc.IH [OF this] r show False by blast
  qed
qed

interpretation bool: array_codec READER_BOOL WRITER_BOOL enc_bool 1 False READER_ABOOL WRITER_ABOOL
proof unfold_locales
  show "READER_BOOL c = Err (UnexpectedEof, ''failed to fill whole buffer'')"
    if "length (drop (rc_pos c) (rc_data c)) < 1" for c
    using u8.rd_short [OF that] by (simp add: READER_BOOL_def)
  show "WRITER_BOOL w v = Ok (wc_put w (enc_bool v))" for w v
    by (auto simp: WRITER_BOOL_def WRITER_U8_def write_all_def enc_bool_def)
  show "READER_BOOL c = Ok (v, c\<lparr>rc_pos := rc_pos c + 1\<rparr>)"
    if "drop (rc_pos c) (rc_data c) = enc_bool v @ rest" for c v rest
    using READER_BOOL_enc [OF that] by simp
  show "READER_ABOOL (length vs) c = Ok (vs, c\<lparr>rc_pos := rc_pos c + length vs * 1\<rparr>)"
    if "drop (rc_pos c) (rc_data c) = concat (map enc_bool vs) @ rest" for c vs rest
    using READER_ABOOL_enc [OF that] by simp
  show "READER_ABOOL n c \<noteq> Ok r" if "length (drop (rc_pos c) (rc_data c)) < n * 1" for c n r
    using that READER_ABOOL_short by simp
qed (auto simp: enc_bool_def WRITER_ABOOL_def)

lemma scalar_codec_eqs:
  "READER_I16 L = read_word L LittleEndian" "WRITER_I16 L = write_word L LittleEndian"
  "READER_I32 L = read_word L LittleEndian" "WRITER_I32 L = write_word L LittleEndian"
  "READER_I64 L = read_word L LittleEndian" "WRITER_I64 L = write_word L LittleEndian"
  "READER_U16 L = read_word L LittleEndian" "WRITER_U16 L = write_word L LittleEndian"
  "READER_U32 L = read_word L LittleEndian" "WRITER_U32 L = write_word L LittleEndian"
  "READER_U64 L = read_word L LittleEndian" "WRITER_U64 L = write_word L LittleEndian"
  "READER_F32 L = read_word L LittleEndian" "WRITER_F32 L = write_word L LittleEndian"
  "READER_F64 L = read_word L LittleEndian" "WRITER_F64 L = write_word L LittleEndian"
  "READER_BI16 L = read_word L BigEndian" "WRITER_BI16 L = write_word L BigEndian"
  "READER_BI32 L = read_word L BigEndian" "WRITER_BI32 L = write_word L BigEndian"
  "READER_BI64 L = read_word L BigEndian" "WRITER_BI64 L = write_word L BigEndian"
  "READER_BU16 L = read_word L BigEndian" "WRITER_BU16 L = write_word L BigEndian"
  "READER_BU32 L = read_word L BigEndian" "WRITER_BU32 L = write_word L BigEndian"
  "READER_BU64 L = read_word L BigEndian" "WRITER_BU64 L = write_word L BigEndian"
  "READER_BF32 L = read_word L BigEndian" "WRITER_BF32 L = write_word L BigEndian"
  "READER_BF64 L = read_word L BigEndian" "WRITER_BF64 L = write_word L BigEndian"
  by (simp_all add: fun_eq_iff reader_defs writer_defs)

lemma array_codec_eqs:
  "READER_AI16 L = read_words_into L LittleEndian" "WRITER_AI16 L = write_each (WRITER_I16 L)"
  "READER_AI32 L = read_words_into L LittleEndian" "WRITER_AI32 L = write_each (WRITER_I32 L)"
  "READER_AI64 L = read_words_into L LittleEndian" "WRITER_AI64 L = write_each (WRITER_I64 L)"
  "READER_AU16 L = read_words_into L LittleEndian" "WRITER_AU16 L = write_each (WRITER_U16 L)"
  "READER_AU32 L = read_words_into L LittleEndian" "WRITER_AU32 L = write_each (WRITER_U32 L)"
  "READER_AU64 L = read_words_into L LittleEndian" "WRITER_AU64 L = write_each (WRITER_U64 L)"
  "READER_AF32 L = read_words_into L LittleEndian" "WRITER_AF32 L = write_each (WRITER_F32 L)"
  "READER_AF64 L = read_words_into L LittleEndian" "WRITER_AF64 L = write_each (WRITER_F64 L)"
  "READER_ABI16 L = read_words_into L BigEndian" "WRITER_ABI16 L = write_each (WRITER_BI16 L)"
  "READER_ABI32 L = read_words_into L BigEndian" "WRITER_ABI32 L = write_each (WRITER_BI32 L)"
  "READER_ABI64 L = read_words_into L BigEndian" "WRITER_ABI64 L = write_each (WRITER_BI64 L)"
  "READER_ABU16 L = read_words_into L BigEndian" "WRITER_ABU16 L = write_each (WRITER_BU16 L)"
  "READER_ABU32 L = read_words_into L BigEndian" "WRITER_ABU32 L = write_each (WRITER_BU32 L)"
  "READER_ABU64 L = read_words_into L BigEndian" "WRITER_ABU64 L = write_each (WRITER_BU64 L)"
  "READER_ABF32 L = read_words_into L BigEndian" "WRITER_ABF32 L = write_each (WRITER_BF32 L)"
  "READER_ABF64 L = read_words_into L BigEndian" "WRITER_ABF64 L = write_each (WRITER_BF64 L)"
  by (simp_all add: fun_eq_iff array_reader_defs array_writer_defs)

lemmas codec_eqs = scalar_codec_eqs array_codec_eqs

lemma codec_I16:
  assumes "byteorder_ok L"
  shows "array_codec (READER_I16 L) (WRITER_I16 L) (enc_word LittleEndian) 2 0 (READER_AI16 L) (WRITER_AI16 L)"
  using word_array_codec [where 'a = 16, OF assms, of LittleEndian] by (simp add: codec_eqs)

lemma codec_I32:
  assumes "byteorder_ok L"
  shows "array_codec (READER_I32 L) (WRITER_I32 L) (enc_word LittleEndian) 4 0 (READER_AI32 L) (WRITER_AI32 L)"
  using word_array_codec [where 'a = 32, OF assms, of LittleEndian] by (simp add: codec_eqs)

lemma codec_I64:
  assumes "byteorder_ok L"
  shows "array_codec (READER_I64 L) (WRITER_I64 L) (enc_word LittleEndian) 8 0 (READER_AI64 L) (WRITER_AI64 L)"
  using word_array_codec [where 'a = 64, OF assms, of LittleEndian] by (simp add: codec_eqs)

lemma codec_U16:
  assumes "byteorder_ok L"
  shows "array_codec (READER_U16 L) (WRITER_U16 L) (enc_word LittleEndian) 2 0 (READER_AU16 L) (WRITER_AU16 L)"
  using word_array_codec [where 'a = 16, OF assms, of LittleEndian] by (simp add: codec_eqs)

lemma codec_U32:
  assumes "byteorder_ok L"
  shows "array_codec (READER_U32 L) (WRITER_U32 L) (enc_word LittleEndian) 4 0 (READER_AU32 L) (WRITER_AU32 L)"
  using word_array_codec [where 'a = 32, OF assms, of LittleEndian] by (simp add: codec_eqs)

lemma codec_U64:
  assumes "byteorder_ok L"
  shows "array_codec (READER_U64 L) (WRITER_U64 L) (enc_word LittleEndian) 8 0 (READER_AU64 L) (WRITER_AU64 L)"
  using word_array_codec [where 'a = 64, OF assms, of LittleEndian] by (simp add: codec_eqs)

lemma codec_F32:
  assumes "byteorder_ok L"
  shows "array_codec (READER_F32 L) (WRITER_F32 L) (enc_word LittleEndian) 4 0 (READER_AF32 L) (WRITER_AF32 L)"
  using word_array_codec [where 'a = 32, OF assms, of LittleEndian] by (simp add: codec_eqs)

lemma codec_F64:
  assumes "byteorder_ok L"
  shows "array_codec (READER_F64 L) (WRITER_F64 L) (enc_word LittleEndian) 8 0 (READER_AF64 L) (WRITER_AF64 L)"
  using word_array_codec [where 'a = 64, OF assms, of LittleEndian] by (simp add: codec_eqs)

lemma codec_BI16:
  assumes "byteorder_ok L"
  shows "array_codec (READER_BI16 L) (WRITER_BI16 L) (enc_word BigEndian) 2 0 (READER_ABI16 L) (WRITER_ABI16 L)"
  using word_array_codec [where 'a = 16, OF assms, of BigEndian] by (simp add: codec_eqs)

lemma codec_BI32:
  assumes "byteorder_ok L"
  shows "array_codec (READER_BI32 L) (WRITER_BI32 L) (enc_word BigEndian) 4 0 (READER_ABI32 L) (WRITER_ABI32 L)"
  using word_array_codec [where 'a = 32, OF assms, of BigEndian] by (simp add: codec_eqs)

lemma codec_BI64:
  assumes "byteorder_ok L"
  shows "array_codec (READER_BI64 L) (WRITER_BI64 L) (enc_word BigEndian) 8 0 (READER_ABI64 L) (WRITER_ABI64 L)"
  using word_array_codec [where 'a = 64, OF assms, of BigEndian] by (simp add: codec_eqs)

lemma codec_BU16:
  assumes "byteorder_ok L"
  shows "array_codec (READER_BU16 L) (WRITER_BU16 L) (enc_word BigEndian) 2 0 (READER_ABU16 L) (WRITER_ABU16 L)"
  using word_array_codec [where 'a = 16, OF assms, of BigEndian] by (simp add: codec_eqs)

lemma codec_BU32:
  assumes "byteorder_ok L"
  shows "array_codec (READER_BU32 L) (WRITER_BU32 L) (enc_word BigEndian) 4 0 (READER_ABU32 L) (WRITER_ABU32 L)"
  using word_array_codec [where 'a = 32, OF assms, of BigEndian] by (simp add: codec_eqs)

lemma codec_BU64:
  assumes "byteorder_ok L"
  shows "array_codec (READER_BU64 L) (WRITER_BU64 L) (enc_word BigEndian) 8 0 (READER_ABU64 L) (WRITER_ABU64 L)"
  using word_array_codec [where 'a = 64, OF assms, of BigEndian] by (simp add: codec_eqs)

lemma codec_BF32:
  assumes "byteorder_ok L"
  shows "array_codec (READER_BF32 L) (WRITER_BF32 L) (enc_word BigEndian) 4 0 (READER_ABF32 L) (WRITER_ABF32 L)"
  using word_array_codec [where 'a = 32, OF assms, of BigEndian] by (simp add: codec_eqs)

lemma codec_BF64:
  assumes "byteorder_ok L"
  shows "array_codec (READER_BF64 L) (WRITER_BF64 L) (enc_word BigEndian) 8 0 (READER_ABF64 L) (WRITER_ABF64 L)"
  using word_array_codec [where 'a = 64, OF assms, of BigEndian] by (simp add: codec_eqs)

end
