(* ===== verification/Bs_Value.thy ===== *)
theory Bs_Value
  imports Bs_Types
begin

section \<open>Channel values (src/src/value.rs, src/src/convert.rs)\<close>

text \<open>
  The enum \<open>Value\<close> with its classification, its exact accessors (\<open>as_\<close>), its
  converting accessors (\<open>to_\<close>) and its byte and text forms.  The macros
  \<open>impl_as!\<close> and \<open>impl_to!\<close> are the functions \<open>to_num\<close> and \<open>to_arr\<close>, with the
  target type as an argument, and one definition per generated method.  Numeric casts are
  num-traits' (\<open>num_cast\<close>).  The variant \<open>Value::STR\<close> is \<open>VSTR\<close> (\<open>STR\<close> is HOL syntax).
\<close>

datatype bvalue =
    VSTR string
  | BOOL bool
  | I8 i8
  | U8 u8
  | I16 i16
  | U16 u16
  | I32 i32
  | U32 u32
  | I64 i64
  | U64 u64
  | F32 f32
  | F64 f64
  | ASTR "string list"
  | ABOOL "bool list"
  | AI8 "i8 list"
  | AU8 "u8 list"
  | AI16 "i16 list"
  | AU16 "u16 list"
  | AI32 "i32 list"
  | AU32 "u32 list"
  | AI64 "i64 list"
  | AU64 "u64 list"
  | AF32 "f32 list"
  | AF64 "f64 list"

subsection \<open>Properties of a value\<close>

fun is_array :: "bvalue \<Rightarrow> bool" where
  "is_array (ASTR _) = True"
| "is_array (ABOOL _) = True"
| "is_array (AI8 _) = True"
| "is_array (AU8 _) = True"
| "is_array (AI16 _) = True"
| "is_array (AU16 _) = True"
| "is_array (AI32 _) = True"
| "is_array (AU32 _) = True"
| "is_array (AI64 _) = True"
| "is_array (AU64 _) = True"
| "is_array (AF32 _) = True"
| "is_array (AF64 _) = True"
| "is_array _ = False"

definition is_scalar :: "bvalue \<Rightarrow> bool" where
  "is_scalar v \<longleftrightarrow> \<not> is_array v"

fun element_size_bits :: "bvalue \<Rightarrow> u32" where
  "element_size_bits (VSTR _) = 1"
| "element_size_bits (ASTR _) = 1"
| "element_size_bits (BOOL _) = 4"
| "element_size_bits (ABOOL _) = 4"
| "element_size_bits (I8 _) = 8"
| "element_size_bits (AI8 _) = 8"
| "element_size_bits (U8 _) = 8"
| "element_size_bits (AU8 _) = 8"
| "element_size_bits (I16 _) = 16"
| "element_size_bits (AI16 _) = 16"
| "element_size_bits (U16 _) = 16"
| "element_size_bits (AU16 _) = 16"
| "element_size_bits (I32 _) = 32"
| "element_size_bits (AI32 _) = 32"
| "element_size_bits (U32 _) = 32"
| "element_size_bits (AU32 _) = 32"
| "element_size_bits (I64 _) = 64"
| "element_size_bits (AI64 _) = 64"
| "element_size_bits (U64 _) = 64"
| "element_size_bits (AU64 _) = 64"
| "element_size_bits (F32 _) = 32"
| "element_size_bits (AF32 _) = 32"
| "element_size_bits (F64 _) = 64"
| "element_size_bits (AF64 _) = 64"

fun is_float :: "bvalue \<Rightarrow> bool" where
  "is_float (F32 _) = True"
| "is_float (AF32 _) = True"
| "is_float (F64 _) = True"
| "is_float (AF64 _) = True"
| "is_float _ = False"

fun is_bool :: "bvalue \<Rightarrow> bool" where
  "is_bool (BOOL _) = True"
| "is_bool (ABOOL _) = True"
| "is_bool _ = False"

fun is_str :: "bvalue \<Rightarrow> bool" where
  "is_str (VSTR _) = True"
| "is_str (ASTR _) = True"
| "is_str _ = False"

fun is_int :: "bvalue \<Rightarrow> bool" where
  "is_int (I8 _) = True"
| "is_int (AI8 _) = True"
| "is_int (U8 _) = True"
| "is_int (AU8 _) = True"
| "is_int (I16 _) = True"
| "is_int (AI16 _) = True"
| "is_int (U16 _) = True"
| "is_int (AU16 _) = True"
| "is_int (I32 _) = True"
| "is_int (AI32 _) = True"
| "is_int (U32 _) = True"
| "is_int (AU32 _) = True"
| "is_int (I64 _) = True"
| "is_int (AI64 _) = True"
| "is_int (U64 _) = True"
| "is_int (AU64 _) = True"
| "is_int _ = False"

fun size_of :: "bvalue \<Rightarrow> nat" where
  "size_of (ASTR data) = length data"
| "size_of (ABOOL data) = length data"
| "size_of (AI8 data) = length data"
| "size_of (AU8 data) = length data"
| "size_of (AI16 data) = length data"
| "size_of (AU16 data) = length data"
| "size_of (AI32 data) = length data"
| "size_of (AU32 data) = length data"
| "size_of (AI64 data) = length data"
| "size_of (AU64 data) = length data"
| "size_of (AF32 data) = length data"
| "size_of (AF64 data) = length data"
| "size_of _ = 1"

fun value_name :: "bvalue \<Rightarrow> string" where
  "value_name (VSTR _) = ''STR''"
| "value_name (BOOL _) = ''BOOL''"
| "value_name (I8 _) = ''I8''"
| "value_name (U8 _) = ''U8''"
| "value_name (I16 _) = ''I16''"
| "value_name (U16 _) = ''U16''"
| "value_name (I32 _) = ''I32''"
| "value_name (U32 _) = ''U32''"
| "value_name (I64 _) = ''I64''"
| "value_name (U64 _) = ''U64''"
| "value_name (F32 _) = ''F32''"
| "value_name (F64 _) = ''F64''"
| "value_name (ASTR _) = ''ASTR''"
| "value_name (ABOOL _) = ''ABOOL''"
| "value_name (AI8 _) = ''AI8''"
| "value_name (AU8 _) = ''AU8''"
| "value_name (AI16 _) = ''AI16''"
| "value_name (AU16 _) = ''AU16''"
| "value_name (AI32 _) = ''AI32''"
| "value_name (AU32 _) = ''AU32''"
| "value_name (AI64 _) = ''AI64''"
| "value_name (AU64 _) = ''AU64''"
| "value_name (AF32 _) = ''AF32''"
| "value_name (AF64 _) = ''AF64''"

fun kind :: "bvalue \<Rightarrow> string" where
  "kind (VSTR _) = ''string''"
| "kind (ASTR _) = ''string''"
| "kind (BOOL _) = ''bool''"
| "kind (ABOOL _) = ''bool''"
| "kind (I8 _) = ''int8''"
| "kind (AI8 _) = ''int8''"
| "kind (U8 _) = ''uint8''"
| "kind (AU8 _) = ''uint8''"
| "kind (I16 _) = ''int16''"
| "kind (AI16 _) = ''int16''"
| "kind (U16 _) = ''uint16''"
| "kind (AU16 _) = ''uint16''"
| "kind (I32 _) = ''int32''"
| "kind (AI32 _) = ''int32''"
| "kind (U32 _) = ''uint32''"
| "kind (AU32 _) = ''uint32''"
| "kind (I64 _) = ''int64''"
| "kind (AI64 _) = ''int64''"
| "kind (U64 _) = ''uint64''"
| "kind (AU64 _) = ''uint64''"
| "kind (F32 _) = ''float32''"
| "kind (AF32 _) = ''float32''"
| "kind (F64 _) = ''float64''"
| "kind (AF64 _) = ''float64''"

subsection \<open>Exact accessors\<close>

fun as_bool :: "bvalue \<Rightarrow> bool option" where
  "as_bool (BOOL v) = Some v"
| "as_bool _ = None"

fun as_abool :: "bvalue \<Rightarrow> bool list option" where
  "as_abool (ABOOL v) = Some v"
| "as_abool _ = None"

fun as_str_value :: "bvalue \<Rightarrow> string option" where
  "as_str_value (VSTR v) = Some v"
| "as_str_value _ = None"

fun as_astr :: "bvalue \<Rightarrow> string list option" where
  "as_astr (ASTR v) = Some v"
| "as_astr _ = None"

fun as_i8 :: "bvalue \<Rightarrow> i8 option" where
  "as_i8 (I8 v) = Some v"
| "as_i8 _ = None"

fun as_ai8 :: "bvalue \<Rightarrow> i8 list option" where
  "as_ai8 (AI8 v) = Some v"
| "as_ai8 _ = None"

fun as_u8 :: "bvalue \<Rightarrow> u8 option" where
  "as_u8 (U8 v) = Some v"
| "as_u8 _ = None"

fun as_au8 :: "bvalue \<Rightarrow> u8 list option" where
  "as_au8 (AU8 v) = Some v"
| "as_au8 _ = None"

fun as_i16 :: "bvalue \<Rightarrow> i16 option" where
  "as_i16 (I16 v) = Some v"
| "as_i16 _ = None"

fun as_ai16 :: "bvalue \<Rightarrow> i16 list option" where
  "as_ai16 (AI16 v) = Some v"
| "as_ai16 _ = None"

fun as_u16 :: "bvalue \<Rightarrow> u16 option" where
  "as_u16 (U16 v) = Some v"
| "as_u16 _ = None"

fun as_au16 :: "bvalue \<Rightarrow> u16 list option" where
  "as_au16 (AU16 v) = Some v"
| "as_au16 _ = None"

fun as_i32 :: "bvalue \<Rightarrow> i32 option" where
  "as_i32 (I32 v) = Some v"
| "as_i32 _ = None"

fun as_ai32 :: "bvalue \<Rightarrow> i32 list option" where
  "as_ai32 (AI32 v) = Some v"
| "as_ai32 _ = None"

fun as_u32 :: "bvalue \<Rightarrow> u32 option" where
  "as_u32 (U32 v) = Some v"
| "as_u32 _ = None"

fun as_au32 :: "bvalue \<Rightarrow> u32 list option" where
  "as_au32 (AU32 v) = Some v"
| "as_au32 _ = None"

fun as_i64 :: "bvalue \<Rightarrow> i64 option" where
  "as_i64 (I64 v) = Some v"
| "as_i64 _ = None"

fun as_ai64 :: "bvalue \<Rightarrow> i64 list option" where
  "as_ai64 (AI64 v) = Some v"
| "as_ai64 _ = None"

fun as_u64 :: "bvalue \<Rightarrow> u64 option" where
  "as_u64 (U64 v) = Some v"
| "as_u64 _ = None"

fun as_au64 :: "bvalue \<Rightarrow> u64 list option" where
  "as_au64 (AU64 v) = Some v"
| "as_au64 _ = None"

fun as_f32 :: "bvalue \<Rightarrow> f32 option" where
  "as_f32 (F32 v) = Some v"
| "as_f32 _ = None"

fun as_af32 :: "bvalue \<Rightarrow> f32 list option" where
  "as_af32 (AF32 v) = Some v"
| "as_af32 _ = None"

fun as_f64 :: "bvalue \<Rightarrow> f64 option" where
  "as_f64 (F64 v) = Some v"
| "as_f64 _ = None"

fun as_af64 :: "bvalue \<Rightarrow> f64 list option" where
  "as_af64 (AF64 v) = Some v"
| "as_af64 _ = None"

definition as_bytes :: "bvalue \<Rightarrow> byte list option" where
  "as_bytes v = as_au8 v"

subsection \<open>Conversions (src/src/convert.rs)\<close>

definition cast :: "ext \<Rightarrow> prim_ty \<Rightarrow> prim \<Rightarrow> prim option" where
  "cast L t x = num_cast L t x"

definition cast_arr :: "ext \<Rightarrow> prim_ty \<Rightarrow> prim list \<Rightarrow> prim list option" where
  "cast_arr L t xs = opt_mapM (num_cast L t) xs"

text \<open>A boolean is cast as the \<open>i32\<close> 0 or 1, a boolean array as \<open>u32\<close> values.\<close>

definition cast_bool :: "ext \<Rightarrow> prim_ty \<Rightarrow> bool \<Rightarrow> prim option" where
  "cast_bool L t b = num_cast L t (PI32 (if b then 1 else 0))"

definition cast_bool_arr :: "ext \<Rightarrow> prim_ty \<Rightarrow> bool list \<Rightarrow> prim list option" where
  "cast_bool_arr L t bs = cast_arr L t (map (\<lambda>b. PU32 (if b then 1 else 0)) bs)"

definition to_str_array :: "('a \<Rightarrow> string) \<Rightarrow> 'a list \<Rightarrow> string list option" where
  "to_str_array f xs = Some (map f xs)"

text \<open>The memory of a scalar and of an array, in the target's byte order.\<close>

definition scalar_to_bytes :: "ext \<Rightarrow> 'a::len word \<Rightarrow> byte list" where
  "scalar_to_bytes L v = nat_to_bytes (native_endian L) (nbytes TYPE('a)) (unat v)"

definition array_to_bytes :: "ext \<Rightarrow> 'a::len word list \<Rightarrow> byte list" where
  "array_to_bytes L vs = concat (map (scalar_to_bytes L) vs)"

definition bool_to_bytes :: "bool \<Rightarrow> byte list" where
  "bool_to_bytes b = [if b then 1 else 0]"

definition str_to_bytes :: "string \<Rightarrow> byte list" where
  "str_to_bytes s = str_bytes s"

definition bool_arr_to_bytes :: "bool list \<Rightarrow> byte list" where
  "bool_arr_to_bytes bs = map (\<lambda>b. if b then 1 else 0) bs"

subsection \<open>The macro impl_to!\<close>

fun to_num :: "ext \<Rightarrow> prim_ty \<Rightarrow> bvalue \<Rightarrow> prim option" where
  "to_num L t (BOOL data) = cast_bool L t data"
| "to_num L t (I8 data) = cast L t (PI8 data)"
| "to_num L t (U8 data) = cast L t (PU8 data)"
| "to_num L t (I16 data) = cast L t (PI16 data)"
| "to_num L t (U16 data) = cast L t (PU16 data)"
| "to_num L t (I32 data) = cast L t (PI32 data)"
| "to_num L t (U32 data) = cast L t (PU32 data)"
| "to_num L t (I64 data) = cast L t (PI64 data)"
| "to_num L t (U64 data) = cast L t (PU64 data)"
| "to_num L t (F32 data) = cast L t (PF32 data)"
| "to_num L t (F64 data) = cast L t (PF64 data)"
| "to_num L t _ = None"

fun to_arr :: "ext \<Rightarrow> prim_ty \<Rightarrow> bvalue \<Rightarrow> prim list option" where
  "to_arr L t (BOOL data) = cast_bool_arr L t [data]"
| "to_arr L t (I8 data) = cast_arr L t [PI8 data]"
| "to_arr L t (U8 data) = cast_arr L t [PU8 data]"
| "to_arr L t (I16 data) = cast_arr L t [PI16 data]"
| "to_arr L t (U16 data) = cast_arr L t [PU16 data]"
| "to_arr L t (I32 data) = cast_arr L t [PI32 data]"
| "to_arr L t (U32 data) = cast_arr L t [PU32 data]"
| "to_arr L t (I64 data) = cast_arr L t [PI64 data]"
| "to_arr L t (U64 data) = cast_arr L t [PU64 data]"
| "to_arr L t (F32 data) = cast_arr L t [PF32 data]"
| "to_arr L t (F64 data) = cast_arr L t [PF64 data]"
| "to_arr L t (ABOOL data) = cast_bool_arr L t data"
| "to_arr L t (AI8 data) = cast_arr L t (map PI8 data)"
| "to_arr L t (AU8 data) = cast_arr L t (map PU8 data)"
| "to_arr L t (AI16 data) = cast_arr L t (map PI16 data)"
| "to_arr L t (AU16 data) = cast_arr L t (map PU16 data)"
| "to_arr L t (AI32 data) = cast_arr L t (map PI32 data)"
| "to_arr L t (AU32 data) = cast_arr L t (map PU32 data)"
| "to_arr L t (AI64 data) = cast_arr L t (map PI64 data)"
| "to_arr L t (AU64 data) = cast_arr L t (map PU64 data)"
| "to_arr L t (AF32 data) = cast_arr L t (map PF32 data)"
| "to_arr L t (AF64 data) = cast_arr L t (map PF64 data)"
| "to_arr L t _ = None"

text \<open>The generated methods, which return the target type.\<close>

definition to_i8 :: "ext \<Rightarrow> bvalue \<Rightarrow> i8 option" where
  "to_i8 L v = Option.bind (to_num L TI8 v) (\<lambda>p. case p of PI8 w \<Rightarrow> Some w | _ \<Rightarrow> None)"

definition to_ai8 :: "ext \<Rightarrow> bvalue \<Rightarrow> i8 list option" where
  "to_ai8 L v = Option.bind (to_arr L TI8 v) (opt_mapM (\<lambda>p. case p of PI8 w \<Rightarrow> Some w | _ \<Rightarrow> None))"

definition to_u8 :: "ext \<Rightarrow> bvalue \<Rightarrow> u8 option" where
  "to_u8 L v = Option.bind (to_num L TU8 v) (\<lambda>p. case p of PU8 w \<Rightarrow> Some w | _ \<Rightarrow> None)"

definition to_au8 :: "ext \<Rightarrow> bvalue \<Rightarrow> u8 list option" where
  "to_au8 L v = Option.bind (to_arr L TU8 v) (opt_mapM (\<lambda>p. case p of PU8 w \<Rightarrow> Some w | _ \<Rightarrow> None))"

definition to_i16 :: "ext \<Rightarrow> bvalue \<Rightarrow> i16 option" where
  "to_i16 L v = Option.bind (to_num L TI16 v) (\<lambda>p. case p of PI16 w \<Rightarrow> Some w | _ \<Rightarrow> None)"

definition to_ai16 :: "ext \<Rightarrow> bvalue \<Rightarrow> i16 list option" where
  "to_ai16 L v = Option.bind (to_arr L TI16 v) (opt_mapM (\<lambda>p. case p of PI16 w \<Rightarrow> Some w | _ \<Rightarrow> None))"

definition to_u16 :: "ext \<Rightarrow> bvalue \<Rightarrow> u16 option" where
  "to_u16 L v = Option.bind (to_num L TU16 v) (\<lambda>p. case p of PU16 w \<Rightarrow> Some w | _ \<Rightarrow> None)"

definition to_au16 :: "ext \<Rightarrow> bvalue \<Rightarrow> u16 list option" where
  "to_au16 L v = Option.bind (to_arr L TU16 v) (opt_mapM (\<lambda>p. case p of PU16 w \<Rightarrow> Some w | _ \<Rightarrow> None))"

definition to_i32 :: "ext \<Rightarrow> bvalue \<Rightarrow> i32 option" where
  "to_i32 L v = Option.bind (to_num L TI32 v) (\<lambda>p. case p of PI32 w \<Rightarrow> Some w | _ \<Rightarrow> None)"

definition to_ai32 :: "ext \<Rightarrow> bvalue \<Rightarrow> i32 list option" where
  "to_ai32 L v = Option.bind (to_arr L TI32 v) (opt_mapM (\<lambda>p. case p of PI32 w \<Rightarrow> Some w | _ \<Rightarrow> None))"

definition to_u32 :: "ext \<Rightarrow> bvalue \<Rightarrow> u32 option" where
  "to_u32 L v = Option.bind (to_num L TU32 v) (\<lambda>p. case p of PU32 w \<Rightarrow> Some w | _ \<Rightarrow> None)"

definition to_au32 :: "ext \<Rightarrow> bvalue \<Rightarrow> u32 list option" where
  "to_au32 L v = Option.bind (to_arr L TU32 v) (opt_mapM (\<lambda>p. case p of PU32 w \<Rightarrow> Some w | _ \<Rightarrow> None))"

definition to_i64 :: "ext \<Rightarrow> bvalue \<Rightarrow> i64 option" where
  "to_i64 L v = Option.bind (to_num L TI64 v) (\<lambda>p. case p of PI64 w \<Rightarrow> Some w | _ \<Rightarrow> None)"

definition to_ai64 :: "ext \<Rightarrow> bvalue \<Rightarrow> i64 list option" where
  "to_ai64 L v = Option.bind (to_arr L TI64 v) (opt_mapM (\<lambda>p. case p of PI64 w \<Rightarrow> Some w | _ \<Rightarrow> None))"

definition to_u64 :: "ext \<Rightarrow> bvalue \<Rightarrow> u64 option" where
  "to_u64 L v = Option.bind (to_num L TU64 v) (\<lambda>p. case p of PU64 w \<Rightarrow> Some w | _ \<Rightarrow> None)"

definition to_au64 :: "ext \<Rightarrow> bvalue \<Rightarrow> u64 list option" where
  "to_au64 L v = Option.bind (to_arr L TU64 v) (opt_mapM (\<lambda>p. case p of PU64 w \<Rightarrow> Some w | _ \<Rightarrow> None))"

definition to_f32 :: "ext \<Rightarrow> bvalue \<Rightarrow> f32 option" where
  "to_f32 L v = Option.bind (to_num L TF32 v) (\<lambda>p. case p of PF32 w \<Rightarrow> Some w | _ \<Rightarrow> None)"

definition to_af32 :: "ext \<Rightarrow> bvalue \<Rightarrow> f32 list option" where
  "to_af32 L v = Option.bind (to_arr L TF32 v) (opt_mapM (\<lambda>p. case p of PF32 w \<Rightarrow> Some w | _ \<Rightarrow> None))"

definition to_f64 :: "ext \<Rightarrow> bvalue \<Rightarrow> f64 option" where
  "to_f64 L v = Option.bind (to_num L TF64 v) (\<lambda>p. case p of PF64 w \<Rightarrow> Some w | _ \<Rightarrow> None)"

definition to_af64 :: "ext \<Rightarrow> bvalue \<Rightarrow> f64 list option" where
  "to_af64 L v = Option.bind (to_arr L TF64 v) (opt_mapM (\<lambda>p. case p of PF64 w \<Rightarrow> Some w | _ \<Rightarrow> None))"

subsection \<open>Booleans and text\<close>

definition f32_true :: "f32 \<Rightarrow> bool" where
  "f32_true w \<longleftrightarrow> (let m = unat w mod 2 ^ 31 in m \<noteq> 0 \<and> m \<le> 0x7F800000)"

definition f64_true :: "f64 \<Rightarrow> bool" where
  "f64_true w \<longleftrightarrow> (let m = unat w mod 2 ^ 63 in m \<noteq> 0 \<and> m \<le> 0x7FF0000000000000)"

text \<open>
  \<open>str::trim().is_empty()\<close>: the UTF-8 text is made of characters with the Unicode
  property White_Space.
\<close>

fun all_whitespace :: "byte list \<Rightarrow> bool" where
  "all_whitespace [] = True"
| "all_whitespace (b # bs) =
     (if unat b = 32 \<or> 9 \<le> unat b \<and> unat b \<le> 13 then all_whitespace bs
      else (case bs of
          [] \<Rightarrow> False
        | c # r \<Rightarrow>
           if unat b = 0xC2 \<and> (unat c = 0x85 \<or> unat c = 0xA0) then all_whitespace r
           else (case r of
               [] \<Rightarrow> False
             | d # r' \<Rightarrow>
                (unat b = 0xE1 \<and> unat c = 0x9A \<and> unat d = 0x80
                 \<or> unat b = 0xE2 \<and> unat c = 0x80
                    \<and> (0x80 \<le> unat d \<and> unat d \<le> 0x8A \<or> unat d = 0xA8 \<or> unat d = 0xA9 \<or> unat d = 0xAF)
                 \<or> unat b = 0xE2 \<and> unat c = 0x81 \<and> unat d = 0x9F
                 \<or> unat b = 0xE3 \<and> unat c = 0x80 \<and> unat d = 0x80)
                \<and> all_whitespace r')))"

fun to_bool :: "bvalue \<Rightarrow> bool option" where
  "to_bool (BOOL data) = Some data"
| "to_bool (I8 data) = Some (data \<noteq> 0)"
| "to_bool (U8 data) = Some (data \<noteq> 0)"
| "to_bool (I16 data) = Some (data \<noteq> 0)"
| "to_bool (U16 data) = Some (data \<noteq> 0)"
| "to_bool (I32 data) = Some (data \<noteq> 0)"
| "to_bool (U32 data) = Some (data \<noteq> 0)"
| "to_bool (I64 data) = Some (data \<noteq> 0)"
| "to_bool (U64 data) = Some (data \<noteq> 0)"
| "to_bool (F32 data) = Some (f32_true data)"
| "to_bool (F64 data) = Some (f64_true data)"
| "to_bool (VSTR data) = Some (\<not> all_whitespace (str_bytes data))"
| "to_bool _ = None"

definition to_abool :: "ext \<Rightarrow> bvalue \<Rightarrow> bool list option" where
  "to_abool L v = map_option (map (\<lambda>x. x \<noteq> 0)) (to_au64 L v)"

definition show_bool :: "bool \<Rightarrow> string" where
  "show_bool b = (if b then ''true'' else ''false'')"

definition show_signed :: "'a::len word \<Rightarrow> string" where
  "show_signed w = show_int (sint w)"

definition show_unsigned :: "'a::len word \<Rightarrow> string" where
  "show_unsigned w = show_nat (unat w)"

fun to_str :: "ext \<Rightarrow> bvalue \<Rightarrow> string" where
  "to_str L (VSTR data) = data"
| "to_str L (BOOL data) = show_bool data"
| "to_str L (I8 data) = show_signed data"
| "to_str L (U8 data) = show_unsigned data"
| "to_str L (I16 data) = show_signed data"
| "to_str L (U16 data) = show_unsigned data"
| "to_str L (I32 data) = show_signed data"
| "to_str L (U32 data) = show_unsigned data"
| "to_str L (I64 data) = show_signed data"
| "to_str L (U64 data) = show_unsigned data"
| "to_str L (F32 data) = f32_display L data"
| "to_str L (F64 data) = f64_display L data"
| "to_str L (ASTR data) = show_slice (map (str_debug L) data)"
| "to_str L (ABOOL data) = show_slice (map show_bool data)"
| "to_str L (AI8 data) = show_slice (map show_signed data)"
| "to_str L (AU8 data) = show_slice (map show_unsigned data)"
| "to_str L (AI16 data) = show_slice (map show_signed data)"
| "to_str L (AU16 data) = show_slice (map show_unsigned data)"
| "to_str L (AI32 data) = show_slice (map show_signed data)"
| "to_str L (AU32 data) = show_slice (map show_unsigned data)"
| "to_str L (AI64 data) = show_slice (map show_signed data)"
| "to_str L (AU64 data) = show_slice (map show_unsigned data)"
| "to_str L (AF32 data) = show_slice (map (f32_debug L) data)"
| "to_str L (AF64 data) = show_slice (map (f64_debug L) data)"

fun to_astr :: "ext \<Rightarrow> bvalue \<Rightarrow> string list option" where
  "to_astr L (ASTR data) = to_str_array id data"
| "to_astr L (ABOOL data) = to_str_array show_bool data"
| "to_astr L (AI8 data) = to_str_array show_signed data"
| "to_astr L (AU8 data) = to_str_array show_unsigned data"
| "to_astr L (AI16 data) = to_str_array show_signed data"
| "to_astr L (AU16 data) = to_str_array show_unsigned data"
| "to_astr L (AI32 data) = to_str_array show_signed data"
| "to_astr L (AU32 data) = to_str_array show_unsigned data"
| "to_astr L (AI64 data) = to_str_array show_signed data"
| "to_astr L (AU64 data) = to_str_array show_unsigned data"
| "to_astr L (AF32 data) = to_str_array (f32_display L) data"
| "to_astr L (AF64 data) = to_str_array (f64_display L) data"
| "to_astr L _ = None"

subsection \<open>Bytes\<close>

fun to_bytes :: "ext \<Rightarrow> bvalue \<Rightarrow> byte list" where
  "to_bytes L (VSTR s) = str_bytes s"
| "to_bytes L (BOOL b) = bool_to_bytes b"
| "to_bytes L (I8 v) = [v]"
| "to_bytes L (U8 v) = [v]"
| "to_bytes L (I16 v) = scalar_to_bytes L v"
| "to_bytes L (U16 v) = scalar_to_bytes L v"
| "to_bytes L (I32 v) = scalar_to_bytes L v"
| "to_bytes L (U32 v) = scalar_to_bytes L v"
| "to_bytes L (I64 v) = scalar_to_bytes L v"
| "to_bytes L (U64 v) = scalar_to_bytes L v"
| "to_bytes L (F32 v) = scalar_to_bytes L v"
| "to_bytes L (F64 v) = scalar_to_bytes L v"
| "to_bytes L (ASTR arr) = concat (map str_bytes arr)"
| "to_bytes L (ABOOL arr) = bool_arr_to_bytes arr"
| "to_bytes L (AI8 arr) = arr"
| "to_bytes L (AU8 arr) = arr"
| "to_bytes L (AI16 arr) = array_to_bytes L arr"
| "to_bytes L (AU16 arr) = array_to_bytes L arr"
| "to_bytes L (AI32 arr) = array_to_bytes L arr"
| "to_bytes L (AU32 arr) = array_to_bytes L arr"
| "to_bytes L (AI64 arr) = array_to_bytes L arr"
| "to_bytes L (AU64 arr) = array_to_bytes L arr"
| "to_bytes L (AF32 arr) = array_to_bytes L arr"
| "to_bytes L (AF64 arr) = array_to_bytes L arr"

subsection \<open>The integers a value holds\<close>

text \<open>
  The specification of the conversions: the sequence of integers held by an integer or
  boolean value (one for a scalar).
\<close>

fun value_ints :: "bvalue \<Rightarrow> int list option" where
  "value_ints (BOOL b) = Some [of_bool b]"
| "value_ints (ABOOL bs) = Some (map of_bool bs)"
| "value_ints (I8 w) = Some [sint w]"
| "value_ints (AI8 ws) = Some (map sint ws)"
| "value_ints (U8 w) = Some [uint w]"
| "value_ints (AU8 ws) = Some (map uint ws)"
| "value_ints (I16 w) = Some [sint w]"
| "value_ints (AI16 ws) = Some (map sint ws)"
| "value_ints (U16 w) = Some [uint w]"
| "value_ints (AU16 ws) = Some (map uint ws)"
| "value_ints (I32 w) = Some [sint w]"
| "value_ints (AI32 ws) = Some (map sint ws)"
| "value_ints (U32 w) = Some [uint w]"
| "value_ints (AU32 ws) = Some (map uint ws)"
| "value_ints (I64 w) = Some [sint w]"
| "value_ints (AI64 ws) = Some (map sint ws)"
| "value_ints (U64 w) = Some [uint w]"
| "value_ints (AU64 ws) = Some (map uint ws)"
| "value_ints _ = None"

lemma sint_word_of_int_range:
  "- (2 ^ (LENGTH('a) - 1)) \<le> n \<Longrightarrow> n < 2 ^ (LENGTH('a::len) - 1) \<Longrightarrow> sint (word_of_int n :: 'a word) = n"
  by (cases "LENGTH('a)") (simp_all add: signed_of_int signed_take_bit_int_eq_self)

lemma uint_word_of_int_range:
  "0 \<le> n \<Longrightarrow> n < 2 ^ LENGTH('a::len) \<Longrightarrow> uint (word_of_int n :: 'a word) = n"
  by (simp add: unsigned_of_int take_bit_int_eq_self)

lemma prim_int_prim_of_int: "prim_of_int t n = Some p \<Longrightarrow> prim_int p = Some n"
  by (cases t) (auto simp: sint_word_of_int_range uint_word_of_int_range split: if_splits)

lemma opt_mapM_prim_int: "opt_mapM (prim_of_int t) ns = Some ps \<Longrightarrow> map prim_int ps = map Some ns"
  by (induction ns arbitrary: ps) (auto simp: prim_int_prim_of_int split: option.splits)

lemma cast_arr_ints:
  assumes "num_cast_ok L" and "is_int_ty t" and "map prim_int xs = map Some ns"
  shows "cast_arr L t xs = opt_mapM (prim_of_int t) ns"
  using assms(3) unfolding cast_arr_def
proof (induction xs arbitrary: ns)
  case Nil
  then show ?case by simp
next
  case (Cons x xs)
  then obtain n ns' where ns: "ns = n # ns'" and x: "prim_int x = Some n"
    and xs: "map prim_int xs = map Some ns'"
    by (cases ns) auto
  have "num_cast L t x = prim_of_int t n"
    using assms(1,2) x by (simp add: num_cast_ok_def)
  with Cons.IH [OF xs] ns show ?case by (simp split: option.split)
qed

lemma to_arr_ints:
  assumes "num_cast_ok L" and "is_int_ty t" and "value_ints v = Some ns"
  shows "to_arr L t v = opt_mapM (prim_of_int t) ns"
proof -
  note c = cast_arr_ints [OF assms(1,2)]
  from assms(3) show ?thesis
    by (cases v) (auto simp: cast_bool_arr_def simp del: opt_mapM.simps intro!: c)
qed

lemma to_num_to_arr:
  assumes "num_cast_ok L" and "is_int_ty t" and "is_scalar v" and "value_ints v = Some [n]"
  shows "to_num L t v = prim_of_int t n"
  using assms by (cases v) (auto simp: is_scalar_def cast_bool_def cast_def num_cast_ok_def)

lemma chunks_array_to_bytes:
  assumes "LENGTH('a::len) = 8 * nbytes TYPE('a)"
  shows "chunks_exact (nbytes TYPE('a)) (array_to_bytes L (vs :: 'a word list)) = map (scalar_to_bytes L) vs"
proof -
  have "0 < nbytes TYPE('a)" using assms len_gt_0 [where 'a = 'a] by (cases "nbytes TYPE('a)") auto
  then have "chunks_exact (nbytes TYPE('a)) (concat (map (scalar_to_bytes L) vs) @ []) = map (scalar_to_bytes L) vs"
    by (intro chunks_exact_concat) (auto simp: scalar_to_bytes_def)
  then show ?thesis by (simp add: array_to_bytes_def)
qed

lemma bytes_to_nat_scalar:
  assumes "LENGTH('a::len) = 8 * nbytes TYPE('a)"
  shows "bytes_to_nat (native_endian L) (scalar_to_bytes L (v :: 'a word)) = unat v"
proof -
  have "unat v < 2 ^ LENGTH('a)" by (rule unsigned_less)
  also have "(2 :: nat) ^ LENGTH('a) = (2 ^ 8) ^ nbytes TYPE('a)"
    unfolding assms by (rule power_mult)
  finally have "unat v < 256 ^ nbytes TYPE('a)" by simp
  then show ?thesis by (simp add: scalar_to_bytes_def bytes_to_nat_to_bytes)
qed

lemma length_array_to_bytes: "length (array_to_bytes L (vs :: 'a::len word list)) = length vs * nbytes TYPE('a)"
  by (induction vs) (auto simp: array_to_bytes_def scalar_to_bytes_def)

subsection \<open>Properties\<close>

text \<open>
  C33. Functional: converting an integer or boolean value (scalar or array) to an integer
  type is all or nothing.  It fails exactly when some element does not fit the target, and
  otherwise returns one scalar per element with the same mathematical value.
\<close>

theorem to_arr_exact:
  assumes "num_cast_ok L" and "is_int_ty t" and "value_ints v = Some ns"
  shows "(to_arr L t v = None \<longleftrightarrow> (\<exists>n \<in> set ns. prim_of_int t n = None))
    \<and> (\<forall>ps. to_arr L t v = Some ps \<longrightarrow> map prim_int ps = map Some ns)"
  using to_arr_ints [OF assms] by (auto simp: opt_mapM_eq_None opt_mapM_prim_int)

theorem to_arr_exact_witness:
  "to_arr ref_ext TU8 (AI16 [1, -1]) = None \<and> to_arr ref_ext TU8 (AI16 [1, 255]) = Some [PU8 1, PU8 255]"
proof -
  have a: "value_ints (AI16 [1, -1]) = Some [1, -1]" and b: "value_ints (AI16 [1, 255]) = Some [1, 255]"
    by simp_all
  from to_arr_exact [OF ref_num_cast_ok _ a, of TU8] to_arr_ints [OF ref_num_cast_ok _ b, of TU8]
  show ?thesis by simp
qed

text \<open>
  The two boolean views of a signed value disagree: for a negative number
  \<open>to_bool\<close> says true, while \<open>to_abool\<close>, which goes through \<open>u64\<close>, fails.
\<close>

lemma to_abool_negative:
  assumes "num_cast_ok L" and "sint w < 0"
  shows "to_bool (I8 w) = Some True \<and> to_abool L (I8 w) = None \<and> to_abool L (AI8 [w]) = None"
proof -
  have "value_ints (I8 w) = Some [sint w]" and "value_ints (AI8 [w]) = Some [sint w]" by simp_all
  then have "to_arr L TU64 (I8 w) = None" and "to_arr L TU64 (AI8 [w]) = None"
    using assms(2) by (simp_all add: to_arr_ints [OF assms(1), of TU64] del: to_arr.simps)
  with assms(2) show ?thesis by (auto simp: to_abool_def to_au64_def simp del: to_arr.simps)
qed

text \<open>
  The bytes of a numeric value, scalar or array, are \<open>size\<close> times the element
  width that \<open>element_size\<close> gives in bits.
\<close>

lemma to_bytes_layout:
  "is_int v \<or> is_float v \<Longrightarrow>
     length (to_bytes L v) = size_of v * (unat (element_size_bits v) div 8)"
  by (cases v) (auto simp: length_array_to_bytes scalar_to_bytes_def)

theorem array_to_bytes_decodes:
  assumes "LENGTH('a::len) = 8 * nbytes TYPE('a)"
  shows "map (bytes_to_nat (native_endian L)) (chunks_exact (nbytes TYPE('a)) (array_to_bytes L (vs :: 'a word list)))
     = map unat vs"
  by (simp add: chunks_array_to_bytes [OF assms] bytes_to_nat_scalar [OF assms])

end
