(* ===== verification/Bs_Channel.thy ===== *)
theory Bs_Channel
  imports Bs_Codec Bs_Value
begin

section \<open>Channels (src/src/channel.rs)\<close>

text \<open>
  A channel's configuration, its metadata, and the channel objects.  A
  \<open>Box<dyn ChannelTrait>\<close> is the record of its three methods; \<open>ChannelScalar\<close>,
  \<open>ChannelArray\<close> and \<open>ChannelRaw\<close> are its constructors, with the variant of
  \<open>Value\<close> their macro instance wraps and the reader and writer they were given.
\<close>

subsection \<open>Configuration\<close>

record channel_config =
  cfg_name :: string
  cfg_kind :: string
  cfg_shape :: "u32 list option"
  cfg_elements :: nat
  cfg_element_size :: nat
  cfg_little_endian :: bool
  cfg_compression :: compression
  cfg_raw :: bool

definition cfg_size :: "channel_config \<Rightarrow> nat" where
  "cfg_size c = cfg_element_size c * cfg_elements c"

text \<open>The product of the dimensions is computed on \<open>u32\<close> and wraps.\<close>

definition elements :: "u32 list option \<Rightarrow> nat" where
  "elements shape =
     (case shape of Some (d # ds) \<Rightarrow> unat (prod_list (d # ds)) | _ \<Rightarrow> 1)"

definition element_size :: "string \<Rightarrow> nat" where
  "element_size typ =
     (if typ = ''bool'' then 1
      else if typ = ''string'' then 1
      else if typ = ''int8'' then 1
      else if typ = ''uint8'' then 1
      else if typ = ''int16'' then 2
      else if typ = ''uint16'' then 2
      else if typ = ''int32'' then 4
      else if typ = ''uint32'' then 4
      else if typ = ''int64'' then 8
      else if typ = ''uint64'' then 8
      else if typ = ''float32'' then 4
      else if typ = ''float64'' then 8
      else 4)"

text \<open>\<open>JsonValue::Number(num.into())\<close> of a \<open>u32\<close> is the number of its value.\<close>

definition metadata :: "ext \<Rightarrow> channel_config \<Rightarrow> header" where
  "metadata L c =
     (let shape = (case cfg_shape c of None \<Rightarrow> [1] | Some s \<Rightarrow> s);
          m = [''name'' \<mapsto> JString (cfg_name c),
               ''shape'' \<mapsto> JArray (map (\<lambda>n. json_of_u64 L (ucast n)) shape),
               ''type'' \<mapsto> JString (cfg_kind c),
               ''encoding'' \<mapsto> JString (if cfg_little_endian c then ''little'' else ''big'')]
      in if cfg_compression c \<noteq> CompNone
         then m(''compression'' \<mapsto> JString (compression_to_string (cfg_compression c)))
         else m)"

definition EMPTY_CONFIG :: channel_config where
  "EMPTY_CONFIG = \<lparr>cfg_name = [], cfg_kind = [], cfg_shape = None, cfg_elements = 0,
     cfg_element_size = 0, cfg_little_endian = False, cfg_compression = CompNone, cfg_raw = False\<rparr>"

definition mk_config :: "string \<Rightarrow> string \<Rightarrow> u32 list option \<Rightarrow> bool \<Rightarrow> compression \<Rightarrow> bool \<Rightarrow> channel_config" where
  "mk_config name typ shape le cmpr raw =
     \<lparr>cfg_name = name, cfg_kind = typ, cfg_shape = shape, cfg_elements = elements shape,
      cfg_element_size = element_size typ, cfg_little_endian = le, cfg_compression = cmpr,
      cfg_raw = raw\<rparr>"

text \<open>\<open>channel::is_array\<close>: the first dimension decides.\<close>

definition shape_is_array :: "u32 list option \<Rightarrow> bool" where
  "shape_is_array shape =
     (case shape of None \<Rightarrow> False | Some [] \<Rightarrow> False | Some (d # _) \<Rightarrow> 1 < d)"

subsection \<open>Channel objects\<close>

record channel =
  ch_config :: channel_config
  ch_read :: "rcursor \<Rightarrow> (bvalue \<times> rcursor) res"
  ch_write :: "wcursor \<Rightarrow> bvalue \<Rightarrow> wcursor res"

definition channel_scalar ::
  "channel_config \<Rightarrow> ('t \<Rightarrow> bvalue) \<Rightarrow> (bvalue \<Rightarrow> 't option) \<Rightarrow>
   (rcursor \<Rightarrow> ('t \<times> rcursor) res) \<Rightarrow> (wcursor \<Rightarrow> 't \<Rightarrow> wcursor res) \<Rightarrow> channel" where
  "channel_scalar cfg variant as_variant reader writer =
     \<lparr>ch_config = cfg,
      ch_read = (\<lambda>c. res_map (\<lambda>(v, c'). (variant v, c')) (reader c)),
      ch_write = (\<lambda>c v. case as_variant v of
          Some data \<Rightarrow> writer c data
        | None \<Rightarrow> Err (InvalidInput, ''Channel write with invalid variant''))\<rparr>"

definition channel_array ::
  "channel_config \<Rightarrow> ('t list \<Rightarrow> bvalue) \<Rightarrow> (bvalue \<Rightarrow> 't list option) \<Rightarrow>
   (nat \<Rightarrow> rcursor \<Rightarrow> ('t list \<times> rcursor) res) \<Rightarrow> (wcursor \<Rightarrow> 't list \<Rightarrow> wcursor res) \<Rightarrow> channel" where
  "channel_array cfg variant as_variant reader writer =
     \<lparr>ch_config = cfg,
      ch_read = (\<lambda>c. res_map (\<lambda>(v, c'). (variant v, c')) (reader (cfg_elements cfg) c)),
      ch_write = (\<lambda>c v. case as_variant v of
          Some data \<Rightarrow> writer c data
        | None \<Rightarrow> Err (InvalidInput, ''Channel write with invalid variant''))\<rparr>"

text \<open>The read buffer of a raw channel has \<open>elements * elements\<close> bytes, as in the code.\<close>

definition channel_raw ::
  "ext \<Rightarrow> channel_config \<Rightarrow> (nat \<Rightarrow> rcursor \<Rightarrow> (byte list \<times> rcursor) res) \<Rightarrow>
   (wcursor \<Rightarrow> byte list \<Rightarrow> wcursor res) \<Rightarrow> channel" where
  "channel_raw L cfg reader writer =
     \<lparr>ch_config = cfg,
      ch_read = (\<lambda>c. res_map (\<lambda>(v, c'). (AU8 v, c')) (reader (cfg_elements cfg * cfg_elements cfg) c)),
      ch_write = (\<lambda>c v. writer c (case as_bytes v of Some b \<Rightarrow> b | None \<Rightarrow> to_bytes L v))\<rparr>"

text \<open>\<open>ChannelArray<String>\<close> overrides \<open>read\<close> only; the other methods are the defaults.\<close>

definition channel_array_string :: channel where
  "channel_array_string =
     \<lparr>ch_config = EMPTY_CONFIG,
      ch_read = (\<lambda>c. Err (Unsupported, ''String array not supported'')),
      ch_write = (\<lambda>c v. Err (Unsupported, ''Unsupported channel type''))\<rparr>"

subsection \<open>Construction\<close>

definition channel_new_raw :: "ext \<Rightarrow> channel_config \<Rightarrow> channel res" where
  "channel_new_raw L cfg =
     (let typ = cfg_kind cfg in
      if cfg_little_endian cfg \<or> element_size typ = 1
      then Ok (channel_raw L cfg READER_RAW WRITER_RAW)
      else if element_size typ = 2 then Ok (channel_raw L cfg READER_BRAW16 WRITER_BRAW16)
      else if element_size typ = 4 then Ok (channel_raw L cfg READER_BRAW32 WRITER_BRAW32)
      else if element_size typ = 8 then Ok (channel_raw L cfg READER_BRAW64 WRITER_BRAW64)
      else Err (Unsupported, ''Unsupported data type''))"

definition channel_new_array :: "ext \<Rightarrow> channel_config \<Rightarrow> channel res" where
  "channel_new_array L cfg =
     (let typ = cfg_kind cfg; le = cfg_little_endian cfg in
      if typ = ''bool'' then Ok (channel_array cfg ABOOL as_abool READER_ABOOL WRITER_ABOOL)
      else if typ = ''string'' then Ok (channel_scalar cfg VSTR as_str_value (READER_STRING L) WRITER_STRING)
      else if typ = ''int8'' then Ok (channel_array cfg AI8 as_ai8 READER_AI8 WRITER_AI8)
      else if typ = ''uint8'' then Ok (channel_array cfg AU8 as_au8 READER_AU8 WRITER_AU8)
      else if typ = ''int16'' then
        Ok (channel_array cfg AI16 as_ai16 (if le then READER_AI16 L else READER_ABI16 L)
              (if le then WRITER_AI16 L else WRITER_ABI16 L))
      else if typ = ''uint16'' then
        Ok (channel_array cfg AU16 as_au16 (if le then READER_AU16 L else READER_ABU16 L)
              (if le then WRITER_AU16 L else WRITER_ABU16 L))
      else if typ = ''int32'' then
        Ok (channel_array cfg AI32 as_ai32 (if le then READER_AI32 L else READER_ABI32 L)
              (if le then WRITER_AI32 L else WRITER_ABI32 L))
      else if typ = ''uint32'' then
        Ok (channel_array cfg AU32 as_au32 (if le then READER_AU32 L else READER_ABU32 L)
              (if le then WRITER_AU32 L else WRITER_ABU32 L))
      else if typ = ''int64'' then
        Ok (channel_array cfg AI64 as_ai64 (if le then READER_AI64 L else READER_ABI64 L)
              (if le then WRITER_AI64 L else WRITER_ABI64 L))
      else if typ = ''uint64'' then
        Ok (channel_array cfg AU64 as_au64 (if le then READER_AU64 L else READER_ABU64 L)
              (if le then WRITER_AU64 L else WRITER_ABU64 L))
      else if typ = ''float32'' then
        Ok (channel_array cfg AF32 as_af32 (if le then READER_AF32 L else READER_ABF32 L)
              (if le then WRITER_AF32 L else WRITER_ABF32 L))
      else if typ = ''float64'' then
        Ok (channel_array cfg AF64 as_af64 (if le then READER_AF64 L else READER_ABF64 L)
              (if le then WRITER_AF64 L else WRITER_ABF64 L))
      else Err (Unsupported, ''Unsupported data type''))"

definition channel_new_scalar :: "ext \<Rightarrow> channel_config \<Rightarrow> channel res" where
  "channel_new_scalar L cfg =
     (let typ = cfg_kind cfg; le = cfg_little_endian cfg in
      if typ = ''bool'' then Ok (channel_scalar cfg BOOL as_bool READER_BOOL WRITER_BOOL)
      else if typ = ''string'' then Ok (channel_scalar cfg VSTR as_str_value (READER_STRING L) WRITER_STRING)
      else if typ = ''int8'' then Ok (channel_scalar cfg I8 as_i8 READER_I8 WRITER_I8)
      else if typ = ''uint8'' then Ok (channel_scalar cfg U8 as_u8 READER_U8 WRITER_U8)
      else if typ = ''int16'' then
        Ok (channel_scalar cfg I16 as_i16 (if le then READER_I16 L else READER_BI16 L)
              (if le then WRITER_I16 L else WRITER_BI16 L))
      else if typ = ''uint16'' then
        Ok (channel_scalar cfg U16 as_u16 (if le then READER_U16 L else READER_BU16 L)
              (if le then WRITER_U16 L else WRITER_BU16 L))
      else if typ = ''int32'' then
        Ok (channel_scalar cfg I32 as_i32 (if le then READER_I32 L else READER_BI32 L)
              (if le then WRITER_I32 L else WRITER_BI32 L))
      else if typ = ''uint32'' then
        Ok (channel_scalar cfg U32 as_u32 (if le then READER_U32 L else READER_BU32 L)
              (if le then WRITER_U32 L else WRITER_BU32 L))
      else if typ = ''int64'' then
        Ok (channel_scalar cfg I64 as_i64 (if le then READER_I64 L else READER_BI64 L)
              (if le then WRITER_I64 L else WRITER_BI64 L))
      else if typ = ''uint64'' then
        Ok (channel_scalar cfg U64 as_u64 (if le then READER_U64 L else READER_BU64 L)
              (if le then WRITER_U64 L else WRITER_BU64 L))
      else if typ = ''float32'' then
        Ok (channel_scalar cfg F32 as_f32 (if le then READER_F32 L else READER_BF32 L)
              (if le then WRITER_F32 L else WRITER_BF32 L))
      else if typ = ''float64'' then
        Ok (channel_scalar cfg F64 as_f64 (if le then READER_F64 L else READER_BF64 L)
              (if le then WRITER_F64 L else WRITER_BF64 L))
      else Err (Unsupported, ''Unsupported data type''))"

definition channel_new :: "ext \<Rightarrow> string \<Rightarrow> string \<Rightarrow> u32 list option \<Rightarrow> bool \<Rightarrow> compression \<Rightarrow> bool \<Rightarrow> channel res" where
  "channel_new L name typ shape le cmpr raw =
     (if raw \<and> typ \<noteq> ''string''
      then channel_new_raw L (mk_config name typ shape le cmpr True)
      else if shape_is_array shape
      then channel_new_array L (mk_config name typ shape le cmpr False)
      else channel_new_scalar L (mk_config name typ shape le cmpr False))"

definition channel_copy :: "ext \<Rightarrow> channel \<Rightarrow> channel res" where
  "channel_copy L ch =
     (let c = ch_config ch in
      channel_new L (cfg_name c) (cfg_kind c) (cfg_shape c) (cfg_little_endian c)
        (cfg_compression c) (cfg_raw c))"

subsection \<open>What a channel stores\<close>

text \<open>
  The abstract content of a channel after a write: arrays are cut or zero-filled to the
  number of elements of the shape, strings end at their first NUL, scalars are kept.
\<close>

definition fit :: "nat \<Rightarrow> 'a \<Rightarrow> 'a list \<Rightarrow> 'a list" where
  "fit n z xs = take n (xs @ replicate n z)"

definition cut_string :: "string \<Rightarrow> string" where
  "cut_string s = bytes_str (takeWhile (\<lambda>b. b \<noteq> 0) (str_bytes s))"

fun stored :: "nat \<Rightarrow> bvalue \<Rightarrow> bvalue" where
  "stored n (VSTR s) = VSTR (cut_string s)"
| "stored n (ABOOL xs) = ABOOL (fit n False xs)"
| "stored n (AI8 xs) = AI8 (fit n 0 xs)"
| "stored n (AU8 xs) = AU8 (fit n 0 xs)"
| "stored n (AI16 xs) = AI16 (fit n 0 xs)"
| "stored n (AU16 xs) = AU16 (fit n 0 xs)"
| "stored n (AI32 xs) = AI32 (fit n 0 xs)"
| "stored n (AU32 xs) = AU32 (fit n 0 xs)"
| "stored n (AI64 xs) = AI64 (fit n 0 xs)"
| "stored n (AU64 xs) = AU64 (fit n 0 xs)"
| "stored n (AF32 xs) = AF32 (fit n 0 xs)"
| "stored n (AF64 xs) = AF64 (fit n 0 xs)"
| "stored n v = v"

text \<open>
  The values a (non-raw) channel of a type and shape takes.  A string channel takes one
  string whatever its shape, and a Rust string is valid UTF-8.
\<close>

definition accepts :: "string \<Rightarrow> u32 list option \<Rightarrow> bvalue \<Rightarrow> bool" where
  "accepts typ shape v \<longleftrightarrow>
     kind v = typ \<and>
     (case v of VSTR s \<Rightarrow> utf8_valid (str_bytes s)
      | ASTR _ \<Rightarrow> False
      | _ \<Rightarrow> is_array v = shape_is_array shape)"

definition supported_kinds :: "string list" where
  "supported_kinds = [''bool'', ''string'', ''int8'', ''uint8'', ''int16'', ''uint16'', ''int32'',
     ''uint32'', ''int64'', ''uint64'', ''float32'', ''float64'']"

definition roundtrips :: "channel \<Rightarrow> byte list \<Rightarrow> bvalue \<Rightarrow> bvalue \<Rightarrow> bool" where
  "roundtrips ch buf v v' \<longleftrightarrow>
     (\<exists>w c'. ch_write ch (wcursor_new buf) v = Ok w \<and> ch_read ch (rcursor_new (wc_data w)) = Ok (v', c'))"

lemma length_fit [simp]: "length (fit n z xs) = n"
  by (simp add: fit_def)

lemma fit_id [simp]: "length xs = n \<Longrightarrow> fit n z xs = xs"
  by (simp add: fit_def)

lemma utf8_valid_takeWhile: "utf8_valid bs \<Longrightarrow> utf8_valid (takeWhile (\<lambda>b. b \<noteq> 0) bs)"
proof (induction bs rule: utf8_valid.induct)
  case 1
  then show ?case by simp
next
  case (2 b bs)
  have nz: "c \<noteq> 0" if "utf8_cont c" for c
    using that by (auto simp: utf8_cont_def)
  consider (one) "unat b < 128"
    | (two) c r where "\<not> unat b < 128" "bs = c # r" "utf8_cont c" "194 \<le> unat b" "unat b \<le> 223"
    | (three) c d r where "\<not> unat b \<le> 223" "bs = c # d # r" "utf8_cont c" "utf8_cont d"
        "224 \<le> unat b" "unat b \<le> 239"
    | (four) c d e r where "\<not> unat b \<le> 239" "bs = c # d # e # r" "utf8_cont c" "utf8_cont d"
        "utf8_cont e" "240 \<le> unat b" "unat b \<le> 244"
    using "2.prems" by (fastforce simp: Let_def split: if_splits list.splits)
  then show ?case
  proof cases
    case one
    with 2 show ?thesis by simp
  next
    case (two c r)
    moreover from two have "b \<noteq> 0" by auto
    ultimately show ?thesis using "2.prems" "2.IH"(2) nz [OF two(3)] by simp
  next
    case (three c d r)
    moreover from three have "b \<noteq> 0" by auto
    ultimately show ?thesis using "2.prems" "2.IH"(3) nz [OF three(3)] nz [OF three(4)] by (simp add: Let_def)
  next
    case (four c d e r)
    moreover from four have "b \<noteq> 0" by auto
    ultimately show ?thesis
      using "2.prems" "2.IH"(4) nz [OF four(3)] nz [OF four(4)] nz [OF four(5)] by (simp add: Let_def)
  qed
qed

lemma cut_string_valid: "utf8_valid (str_bytes s) \<Longrightarrow> utf8_valid (str_bytes (cut_string s))"
  by (simp add: cut_string_def utf8_valid_takeWhile)

subsection \<open>Round trips of the channel objects\<close>

lemma channel_scalar_roundtrips:
  assumes "elem_codec rd wr enc width z" and "as_variant v = Some x" and "v' = variant x"
  shows "roundtrips (channel_scalar cfg variant as_variant rd wr) buf v v'"
  using elem_codec.read_written [OF assms(1), of buf x] assms(2,3)
  by (auto simp: roundtrips_def channel_scalar_def)

lemma channel_array_roundtrips:
  assumes "array_codec rd wr enc width z rda wra" and "as_variant v = Some xs"
    and "buf = replicate (width * cfg_elements cfg) 0"
    and "v' = variant (fit (cfg_elements cfg) z xs)"
  shows "roundtrips (channel_array cfg variant as_variant rda wra) buf v v'"
  using array_codec.read_written_array [OF assms(1), of "cfg_elements cfg" xs] assms(2,3,4)
  by (auto simp: roundtrips_def channel_array_def fit_def)

lemma takeWhile_zeros: "takeWhile (\<lambda>b. b \<noteq> 0) (bs @ drop k (replicate n 0)) = takeWhile (\<lambda>b. b \<noteq> (0::byte)) bs"
proof -
  have "takeWhile (\<lambda>b. b \<noteq> (0::byte)) (replicate m 0) = []" for m
    by (cases m) simp_all
  then show ?thesis by (induction bs) auto
qed

lemma channel_string_roundtrips:
  assumes "utf8_valid (str_bytes s)"
  shows "roundtrips (channel_scalar cfg VSTR as_str_value (READER_STRING L) WRITER_STRING)
    (replicate n 0) (VSTR s) (VSTR (cut_string s))"
  using utf8_valid_takeWhile [OF assms]
  by (simp add: roundtrips_def channel_scalar_def WRITER_STRING_def write_all_def wc_put_new
      READER_STRING_def read_to_end_def Let_def cut_string_def takeWhile_zeros del: drop_replicate)

text \<open>Both byte orders of every multi-byte type implement the codec interface.\<close>

lemma elem_of_array: "array_codec rd wr enc width z rda wra \<Longrightarrow> elem_codec rd wr enc width z"
  by (simp add: array_codec_def)

lemmas codecs = codec_I16 codec_I32 codec_I64 codec_U16 codec_U32 codec_U64 codec_F32 codec_F64
  codec_BI16 codec_BI32 codec_BI64 codec_BU16 codec_BU32 codec_BU64 codec_BF32 codec_BF64

lemmas byte_codecs = u8.array_codec_axioms i8.array_codec_axioms bool.array_codec_axioms

lemma array_roundtrips:
  assumes "byteorder_ok L" and "channel_new_array L cfg = Ok ch" and "kind v = cfg_kind cfg"
    and "is_array v" and "as_astr v = None"
    and "buf = replicate (element_size (cfg_kind cfg) * cfg_elements cfg) 0"
  shows "roundtrips ch buf v (stored (cfg_elements cfg) v)"
proof -
  note c = codecs [OF assms(1)] byte_codecs
  show ?thesis
    using assms(1,2,4-) assms(3) [symmetric]
    by (cases v; cases "cfg_little_endian cfg")
      (auto simp: channel_new_array_def Let_def element_size_def intro: c intro!: channel_array_roundtrips)
qed

lemma scalar_roundtrips:
  assumes "byteorder_ok L" and "channel_new_scalar L cfg = Ok ch" and "kind v = cfg_kind cfg"
    and "\<not> is_array v" and "as_str_value v = None"
  shows "roundtrips ch buf v (stored (cfg_elements cfg) v)"
proof -
  note c = codecs [OF assms(1), THEN elem_of_array] byte_codecs [THEN elem_of_array]
  show ?thesis
    using assms(1,2,4-) assms(3) [symmetric]
    by (cases v; cases "cfg_little_endian cfg")
      (auto simp: channel_new_scalar_def Let_def intro: c intro!: channel_scalar_roundtrips)
qed

lemma channel_new_string:
  assumes "channel_new L name ''string'' shape le cmpr raw = Ok ch"
  shows "ch = channel_scalar (mk_config name ''string'' shape le cmpr False)
           VSTR as_str_value (READER_STRING L) WRITER_STRING"
  using assms
  by (auto simp: channel_new_def channel_new_array_def channel_new_scalar_def mk_config_def Let_def split: if_splits)

subsection \<open>Construction: errors, configuration and copies\<close>

lemma array_new_eq:
  "(if cfg_kind cfg \<in> set supported_kinds
    then \<exists>ch. channel_new_array L cfg = Ok ch \<and> ch_config ch = cfg
    else channel_new_array L cfg = Err (Unsupported, ''Unsupported data type''))"
  by (auto simp: channel_new_array_def Let_def supported_kinds_def channel_array_def channel_scalar_def)

lemma scalar_new_eq:
  "(if cfg_kind cfg \<in> set supported_kinds
    then \<exists>ch. channel_new_scalar L cfg = Ok ch \<and> ch_config ch = cfg
    else channel_new_scalar L cfg = Err (Unsupported, ''Unsupported data type''))"
  by (auto simp: channel_new_scalar_def Let_def supported_kinds_def channel_scalar_def)

lemma element_size_cases: "element_size typ \<in> {1, 2, 4, 8}"
  by (simp add: element_size_def)

lemma raw_new_eq: "\<exists>ch. channel_new_raw L cfg = Ok ch \<and> ch_config ch = cfg"
  using element_size_cases [of "cfg_kind cfg"]
  by (auto simp: channel_new_raw_def channel_raw_def Let_def)

text \<open>
  Construction decides by the type string alone: a raw channel of any type but
  \<open>string\<close>, known or not, is built; otherwise exactly the twelve supported types are,
  and every other type is \<open>Unsupported\<close>.  The channel's configuration is the one its
  arguments describe.
\<close>

lemma channel_new_spec:
  "if raw \<and> typ \<noteq> ''string'' \<or> typ \<in> set supported_kinds
   then \<exists>ch. channel_new L name typ shape le cmpr raw = Ok ch
          \<and> ch_config ch = mk_config name typ shape le cmpr (raw \<and> typ \<noteq> ''string'')
   else channel_new L name typ shape le cmpr raw = Err (Unsupported, ''Unsupported data type'')"
  using raw_new_eq [of L "mk_config name typ shape le cmpr True"]
    array_new_eq [of "mk_config name typ shape le cmpr False" L]
    scalar_new_eq [of "mk_config name typ shape le cmpr False" L]
  by (auto simp: channel_new_def mk_config_def)

lemma channel_new_config:
  assumes "channel_new L name typ shape le cmpr raw = Ok ch"
  shows "ch_config ch = mk_config name typ shape le cmpr (raw \<and> typ \<noteq> ''string'')"
  using assms raw_new_eq [of L "mk_config name typ shape le cmpr True"]
    array_new_eq [of "mk_config name typ shape le cmpr False" L]
    scalar_new_eq [of "mk_config name typ shape le cmpr False" L]
  by (auto simp: channel_new_def mk_config_def split: if_splits)

lemma channel_new_not_Panic: "channel_new L name typ shape le cmpr raw \<noteq> Panic"
  using raw_new_eq [of L "mk_config name typ shape le cmpr True"]
    array_new_eq [of "mk_config name typ shape le cmpr False" L]
    scalar_new_eq [of "mk_config name typ shape le cmpr False" L]
  by (auto simp: channel_new_def split: if_splits)

lemma channel_new_string_raw:
  "channel_new L name ''string'' shape le cmpr raw = channel_new L name ''string'' shape le cmpr False"
  by (simp add: channel_new_def)

text \<open>A copy of a constructed channel is the channel.\<close>

lemma channel_copy_new:
  assumes "channel_new L name typ shape le cmpr raw = Ok ch"
  shows "channel_copy L ch = Ok ch"
  using assms channel_new_config [OF assms] channel_new_string_raw [of L name shape le cmpr raw]
  by (cases "typ = ''string''") (auto simp: channel_copy_def mk_config_def)

subsection \<open>Properties of constructed channels\<close>

lemma accepts_string: "accepts ''string'' shape v \<Longrightarrow> \<exists>s. v = VSTR s \<and> utf8_valid (str_bytes s)"
  by (cases v) (auto simp: accepts_def)

lemma accepts_not_string:
  "accepts typ shape v \<Longrightarrow> typ \<noteq> ''string'' \<Longrightarrow>
   kind v = typ \<and> is_array v = shape_is_array shape \<and> as_astr v = None \<and> as_str_value v = None"
  by (cases v) (auto simp: accepts_def)

lemma channel_write_read_all:
  assumes "byteorder_ok L"
    and "channel_new L name typ shape le cmpr False = Ok ch"
    and "accepts typ shape v"
  shows "\<exists>w c'. ch_write ch (wcursor_new (replicate (cfg_size (ch_config ch)) 0)) v = Ok w
      \<and> ch_read ch (rcursor_new (wc_data w)) = Ok (stored (cfg_elements (ch_config ch)) v, c')"
proof (cases "typ = ''string''")
  case True
  with assms(3) obtain s where s: "v = VSTR s" "utf8_valid (str_bytes s)"
    using accepts_string by blast
  from assms(2) True have "ch = channel_scalar (mk_config name ''string'' shape le cmpr False)
      VSTR as_str_value (READER_STRING L) WRITER_STRING"
    using channel_new_string by blast
  with s channel_string_roundtrips [OF s(2)] show ?thesis
    by (simp add: roundtrips_def)
next
  case False
  let ?cfg = "mk_config name typ shape le cmpr False"
  have cfg: "ch_config ch = ?cfg" using channel_new_config [OF assms(2)] by simp
  have kind: "cfg_kind ?cfg = typ" and size: "cfg_size ?cfg = element_size typ * cfg_elements ?cfg"
    by (simp_all add: mk_config_def cfg_size_def)
  note v = accepts_not_string [OF assms(3) False]
  have "roundtrips ch (replicate (cfg_size ?cfg) 0) v (stored (cfg_elements ?cfg) v)"
  proof (cases "shape_is_array shape")
    case True
    with assms(2) have "channel_new_array L ?cfg = Ok ch" by (simp add: channel_new_def)
    from array_roundtrips [OF assms(1) this] v True kind size show ?thesis by simp
  next
    case False
    with assms(2) have "channel_new_scalar L ?cfg = Ok ch" by (simp add: channel_new_def)
    from scalar_roundtrips [OF assms(1) this] v False kind show ?thesis by simp
  qed
  with cfg show ?thesis by (simp add: roundtrips_def)
qed

text \<open>
  C7. Round trip of one channel: a channel of any supported type, shape and byte order,
  given a value of its type, writes it into the zeroed buffer of its configured size and
  reads back the stored content: arrays cut or zero-filled to the shape's number of
  elements, strings up to their first NUL, scalars unchanged.
\<close>

theorem channel_write_read:
  assumes "byteorder_ok L"
    and "channel_new L name typ shape le cmpr False = Ok ch"
    and "accepts typ shape v"
  shows "\<exists>w c'. ch_write ch (wcursor_new (replicate (cfg_size (ch_config ch)) 0)) v = Ok w
      \<and> ch_read ch (rcursor_new (wc_data w)) = Ok (stored (cfg_elements (ch_config ch)) v, c')"
  using channel_write_read_all [OF assms] .

theorem channel_write_read_witness:
  "\<exists>ch w c'. channel_new ref_ext ''x'' ''int16'' (Some [3]) False CompNone False = Ok ch
    \<and> ch_write ch (wcursor_new (replicate 6 0)) (AI16 [1, - 2]) = Ok w
    \<and> ch_read ch (rcursor_new (wc_data w)) = Ok (AI16 [1, - 2, 0], c')"
proof -
  let ?new = "channel_new ref_ext ''x'' ''int16'' (Some [3]) False CompNone False"
  obtain ch where ch: "?new = Ok ch" "ch_config ch = mk_config ''x'' ''int16'' (Some [3]) False CompNone False"
    using channel_new_spec [of False "''int16''" ref_ext "''x''" "Some [3]" False CompNone]
    by (auto simp: supported_kinds_def)
  have "accepts ''int16'' (Some [3]) (AI16 [1, - 2])"
    by (simp add: accepts_def shape_is_array_def)
  from channel_write_read [OF ref_byteorder_ok ch(1) this] ch
  have "\<exists>w c'. ch_write ch (wcursor_new (replicate 6 0)) (AI16 [1, - 2]) = Ok w
      \<and> ch_read ch (rcursor_new (wc_data w)) = Ok (AI16 (fit 3 0 [1, - 2]), c')"
    by (simp add: mk_config_def cfg_size_def elements_def element_size_def)
  moreover have "fit 3 0 [1, - 2] = [1, - 2, 0 :: i16]"
    by (simp add: fit_def eval_nat_numeral)
  ultimately show ?thesis using ch(1) by auto
qed

subsection \<open>Rejected values, raw reads\<close>

lemma array_accessor_None:
  "\<not> (kind v = ''bool'' \<and> is_array v) \<Longrightarrow> as_abool v = None"
  "\<not> (kind v = ''int8'' \<and> is_array v) \<Longrightarrow> as_ai8 v = None"
  "\<not> (kind v = ''uint8'' \<and> is_array v) \<Longrightarrow> as_au8 v = None"
  "\<not> (kind v = ''int16'' \<and> is_array v) \<Longrightarrow> as_ai16 v = None"
  "\<not> (kind v = ''uint16'' \<and> is_array v) \<Longrightarrow> as_au16 v = None"
  "\<not> (kind v = ''int32'' \<and> is_array v) \<Longrightarrow> as_ai32 v = None"
  "\<not> (kind v = ''uint32'' \<and> is_array v) \<Longrightarrow> as_au32 v = None"
  "\<not> (kind v = ''int64'' \<and> is_array v) \<Longrightarrow> as_ai64 v = None"
  "\<not> (kind v = ''uint64'' \<and> is_array v) \<Longrightarrow> as_au64 v = None"
  "\<not> (kind v = ''float32'' \<and> is_array v) \<Longrightarrow> as_af32 v = None"
  "\<not> (kind v = ''float64'' \<and> is_array v) \<Longrightarrow> as_af64 v = None"
  by (cases v; simp)+

lemma scalar_accessor_None:
  "\<not> (kind v = ''bool'' \<and> \<not> is_array v) \<Longrightarrow> as_bool v = None"
  "\<not> (kind v = ''int8'' \<and> \<not> is_array v) \<Longrightarrow> as_i8 v = None"
  "\<not> (kind v = ''uint8'' \<and> \<not> is_array v) \<Longrightarrow> as_u8 v = None"
  "\<not> (kind v = ''int16'' \<and> \<not> is_array v) \<Longrightarrow> as_i16 v = None"
  "\<not> (kind v = ''uint16'' \<and> \<not> is_array v) \<Longrightarrow> as_u16 v = None"
  "\<not> (kind v = ''int32'' \<and> \<not> is_array v) \<Longrightarrow> as_i32 v = None"
  "\<not> (kind v = ''uint32'' \<and> \<not> is_array v) \<Longrightarrow> as_u32 v = None"
  "\<not> (kind v = ''int64'' \<and> \<not> is_array v) \<Longrightarrow> as_i64 v = None"
  "\<not> (kind v = ''uint64'' \<and> \<not> is_array v) \<Longrightarrow> as_u64 v = None"
  "\<not> (kind v = ''float32'' \<and> \<not> is_array v) \<Longrightarrow> as_f32 v = None"
  "\<not> (kind v = ''float64'' \<and> \<not> is_array v) \<Longrightarrow> as_f64 v = None"
  by (cases v; simp)+

lemma kind_cases:
  assumes "t \<in> set supported_kinds" and "t \<noteq> ''string''"
  shows "t = ''bool'' \<or> t = ''int8'' \<or> t = ''uint8'' \<or> t = ''int16'' \<or> t = ''uint16'' \<or> t = ''int32''
    \<or> t = ''uint32'' \<or> t = ''int64'' \<or> t = ''uint64'' \<or> t = ''float32'' \<or> t = ''float64''"
  using assms by (simp add: supported_kinds_def)

lemma array_rejects:
  assumes "channel_new_array L cfg = Ok ch" and "cfg_kind cfg \<noteq> ''string''"
    and "\<not> (kind v = cfg_kind cfg \<and> is_array v)"
  shows "ch_write ch w v = Err (InvalidInput, ''Channel write with invalid variant'')"
proof -
  have "cfg_kind cfg \<in> set supported_kinds"
    using array_new_eq [of cfg L] assms(1) by (auto split: if_splits)
  from kind_cases [OF this assms(2)] assms(1,3) show ?thesis
    by (elim disjE) (simp_all add: channel_new_array_def Let_def channel_array_def
        array_accessor_None, auto simp: array_accessor_None)
qed

lemma scalar_rejects:
  assumes "channel_new_scalar L cfg = Ok ch" and "cfg_kind cfg \<noteq> ''string''"
    and "\<not> (kind v = cfg_kind cfg \<and> \<not> is_array v)"
  shows "ch_write ch w v = Err (InvalidInput, ''Channel write with invalid variant'')"
proof -
  have "cfg_kind cfg \<in> set supported_kinds"
    using scalar_new_eq [of cfg L] assms(1) by (auto split: if_splits)
  from kind_cases [OF this assms(2)] assms(1,3) show ?thesis
    by (elim disjE) (simp_all add: channel_new_scalar_def Let_def channel_scalar_def
        scalar_accessor_None, auto simp: scalar_accessor_None)
qed

text \<open>
  C38. A channel refuses a value of another variant with \<open>InvalidInput\<close> and leaves the
  cursor alone: every value that is not of the channel's type and arrayness, and every
  value but a single string on a string channel.
\<close>

theorem channel_write_rejects:
  assumes "channel_new L name typ shape le cmpr False = Ok ch"
    and "if typ = ''string'' then as_str_value v = None
         else kind v \<noteq> typ \<or> is_array v \<noteq> shape_is_array shape"
  shows "ch_write ch w v = Err (InvalidInput, ''Channel write with invalid variant'')"
proof (cases "typ = ''string''")
  case True
  with assms channel_new_string show ?thesis
    by (fastforce simp: channel_scalar_def)
next
  case False
  let ?cfg = "mk_config name typ shape le cmpr False"
  have "cfg_kind ?cfg = typ" by (simp add: mk_config_def)
  with False assms array_rejects [of L ?cfg ch v w] scalar_rejects [of L ?cfg ch v w]
  show ?thesis by (cases "shape_is_array shape") (auto simp: channel_new_def)
qed

theorem channel_write_rejects_witness:
  "\<exists>ch. channel_new ref_ext ''x'' ''int16'' (Some [3]) True CompNone False = Ok ch
    \<and> ch_write ch (wcursor_new []) (I16 5) = Err (InvalidInput, ''Channel write with invalid variant'')"
proof -
  obtain ch where ch: "channel_new ref_ext ''x'' ''int16'' (Some [3]) True CompNone False = Ok ch"
    using channel_new_spec [of False "''int16''" ref_ext "''x''" "Some [3]" True CompNone]
    by (auto simp: supported_kinds_def)
  have "ch_write ch (wcursor_new []) (I16 5) = Err (InvalidInput, ''Channel write with invalid variant'')"
    by (rule channel_write_rejects [OF ch]) (simp add: shape_is_array_def)
  with ch show ?thesis by blast
qed

lemma channel_array_short:
  assumes "array_codec rd wr enc width z rda wra"
    and "length data < width * cfg_elements cfg"
  shows "ch_read (channel_array cfg variant as_variant rda wra) (rcursor_new data) \<noteq> Ok r"
  using array_codec.rda_short [OF assms(1), of "rcursor_new data" "cfg_elements cfg"] assms(2)
  by (auto simp: channel_array_def res_simps mult.commute)

lemma channel_scalar_short:
  assumes "elem_codec rd wr enc width z" and "length data < width"
  shows "ch_read (channel_scalar cfg variant as_variant rd wr) (rcursor_new data) \<noteq> Ok r"
  using elem_codec.rd_short [OF assms(1), of "rcursor_new data"] assms(2)
  by (simp add: channel_scalar_def)

lemma array_short:
  assumes "byteorder_ok L" and "channel_new_array L cfg = Ok ch" and "cfg_kind cfg \<noteq> ''string''"
    and "length data < element_size (cfg_kind cfg) * cfg_elements cfg"
  shows "ch_read ch (rcursor_new data) \<noteq> Ok r"
proof -
  note c = codecs [OF assms(1)] byte_codecs
  have "cfg_kind cfg \<in> set supported_kinds"
    using array_new_eq [of cfg L] assms(2) by (auto split: if_splits)
  from kind_cases [OF this assms(3)] assms(2,4) show ?thesis
    by (elim disjE; cases "cfg_little_endian cfg")
      (auto simp: channel_new_array_def Let_def element_size_def byte_codecs [THEN channel_array_short, simplified]
        dest: c [THEN channel_array_short])
qed

lemma scalar_short:
  assumes "byteorder_ok L" and "channel_new_scalar L cfg = Ok ch" and "cfg_kind cfg \<noteq> ''string''"
    and "length data < element_size (cfg_kind cfg)"
  shows "ch_read ch (rcursor_new data) \<noteq> Ok r"
proof -
  note c = codecs [OF assms(1), THEN elem_of_array] byte_codecs [THEN elem_of_array]
  have "cfg_kind cfg \<in> set supported_kinds"
    using scalar_new_eq [of cfg L] assms(2) by (auto split: if_splits)
  from kind_cases [OF this assms(3)] assms(2,4) show ?thesis
    by (elim disjE; cases "cfg_little_endian cfg")
      (auto simp: channel_new_scalar_def Let_def element_size_def byte_codecs [THEN elem_of_array, THEN channel_scalar_short, simplified]
        dest: c [THEN channel_scalar_short])
qed

text \<open>The bytes a read of a non-string channel needs.\<close>

definition read_size :: "string \<Rightarrow> u32 list option \<Rightarrow> nat" where
  "read_size typ shape = (if shape_is_array shape then element_size typ * elements shape else element_size typ)"

lemma channel_read_short:
  assumes "byteorder_ok L" and "channel_new L name typ shape le cmpr False = Ok ch"
    and "typ \<noteq> ''string''" and "length data < read_size typ shape"
  shows "ch_read ch (rcursor_new data) \<noteq> Ok r"
proof -
  let ?cfg = "mk_config name typ shape le cmpr False"
  have "cfg_kind ?cfg = typ" "cfg_elements ?cfg = elements shape" by (simp_all add: mk_config_def)
  with assms array_short [OF assms(1), of ?cfg ch data r] scalar_short [OF assms(1), of ?cfg ch data r]
  show ?thesis by (auto simp: channel_new_def read_size_def split: if_splits)
qed

subsection \<open>A channel and its shape\<close>

text \<open>
  Only the number of elements and the arrayness of the shape reach the reader and the
  writer; two shapes that agree on both give the same channel up to the recorded shape.
\<close>

definition set_shape :: "u32 list option \<Rightarrow> channel \<Rightarrow> channel" where
  "set_shape shape ch = ch\<lparr>ch_config := (ch_config ch)\<lparr>cfg_shape := shape\<rparr>\<rparr>"

lemma set_shape_simps [simp]:
  "ch_read (set_shape s ch) = ch_read ch" "ch_write (set_shape s ch) = ch_write ch"
  "ch_config (set_shape s ch) = (ch_config ch)\<lparr>cfg_shape := s\<rparr>"
  by (simp_all add: set_shape_def)

lemma channel_new_array_shape:
  "channel_new_array L (cfg\<lparr>cfg_shape := s\<rparr>) = res_map (set_shape s) (channel_new_array L cfg)"
  by (simp add: channel_new_array_def Let_def channel_array_def channel_scalar_def set_shape_def)

lemma channel_new_scalar_shape:
  "channel_new_scalar L (cfg\<lparr>cfg_shape := s\<rparr>) = res_map (set_shape s) (channel_new_scalar L cfg)"
  by (simp add: channel_new_scalar_def Let_def channel_scalar_def set_shape_def)

lemma channel_new_raw_shape:
  "channel_new_raw L (cfg\<lparr>cfg_shape := s\<rparr>) = res_map (set_shape s) (channel_new_raw L cfg)"
  by (simp add: channel_new_raw_def Let_def channel_raw_def set_shape_def)

lemma channel_new_shape:
  assumes "elements s' = elements s" and "shape_is_array s' = shape_is_array s"
  shows "channel_new L name typ s' le cmpr raw = res_map (set_shape s') (channel_new L name typ s le cmpr raw)"
proof -
  have "mk_config name typ s' le cmpr r = (mk_config name typ s le cmpr r)\<lparr>cfg_shape := s'\<rparr>" for r
    by (simp add: mk_config_def assms(1))
  then show ?thesis
    by (simp add: channel_new_def assms(2) channel_new_array_shape channel_new_scalar_shape
        channel_new_raw_shape)
qed

lemma raw_reads:
  assumes "channel_new_raw L cfg = Ok ch"
  shows "(\<exists>v c'. ch_read ch c = Ok (v, c'))
    \<longleftrightarrow> cfg_elements cfg * cfg_elements cfg \<le> length (rc_data c) - rc_pos c"
  using assms
  by (auto simp: channel_new_raw_def Let_def channel_raw_def READER_RAW_def READER_BRAW16_def
      READER_BRAW32_def READER_BRAW64_def read_exact_def res_simps split: if_splits)

text \<open>
  The read of a raw channel asks for \<open>elements * elements\<close> bytes where the data
  has \<open>element_size * elements\<close>: on a buffer of the channel's configured size it
  succeeds exactly when the channel has no more elements than bytes per element.
\<close>

lemma raw_channel_read_size:
  assumes "channel_new L name typ shape le cmpr True = Ok ch" and "typ \<noteq> ''string''"
    and "length data = cfg_size (ch_config ch)"
  shows "(\<exists>v c'. ch_read ch (rcursor_new data) = Ok (v, c'))
    \<longleftrightarrow> elements shape = 0 \<or> elements shape \<le> element_size typ"
proof -
  have "channel_new_raw L (mk_config name typ shape le cmpr True) = Ok ch"
    using assms(1,2) by (simp add: channel_new_def)
  from raw_reads [OF this] assms channel_new_config [OF assms(1)] show ?thesis
    by (auto simp: mk_config_def cfg_size_def rcursor_new_def)
qed

end
