(* ===== verification/Bs_Compression.thy ===== *)
theory Bs_Compression
  imports Bs_Types
begin

unbundle bit_operations_syntax

section \<open>Compression (src/src/compression.rs)\<close>

text \<open>
  The framing the crate puts around the two block compressions: a 4-byte length in the
  channel's byte order before an lz4 block, and the 12-byte big-endian header (byte count,
  block size in bytes) before a bitshuffle block.  lz4 and the C functions of bitshuffle
  are parameters (\<open>ext\<close>).  Index and \<open>unwrap\<close> failures are panics.
\<close>

subsection \<open>bitshuffle\<close>

text \<open>
  A zero-initialised output vector of \<open>n\<close> bytes of which the C function has written a
  prefix.
\<close>

definition c_output :: "nat \<Rightarrow> byte list \<Rightarrow> byte list" where
  "c_output n out = take n out @ replicate (n - length out) 0"

definition bshuf_untrans_bit_elem :: "ext \<Rightarrow> byte list \<Rightarrow> nat \<Rightarrow> (string + byte list) res" where
  "bshuf_untrans_bit_elem L input elem_size =
     (if length input < 8 then Panic
      else let size_out = bo_get L BigEndian (take 8 input) in
      if elem_size = 0 then Panic
      else let n = size_out div elem_size in
      if length input < 12 then Panic
      else let block_bytes = (word_of_nat (bo_get L BigEndian (take 4 (drop 8 input))) :: u32);
               es32 = (word_of_nat elem_size :: u32) in
      if es32 = 0 \<or> 2 ^ 63 \<le> size_out then Panic
      else let block_size = unat block_bytes div unat es32;
               (ret, out) = bshuf_decompress L (drop 12 input) n elem_size block_size in
      if ret < 0 then Ok (Inl (''Decompression failed with error code '' @ show_int ret))
      else Ok (Inr (c_output size_out out)))"

definition bshuf_block :: "nat \<Rightarrow> nat" where
  "bshuf_block elem_size = max (8192 div elem_size div 8 * 8) 128"

definition bshuf_trans_bit_elem :: "ext \<Rightarrow> byte list \<Rightarrow> nat \<Rightarrow> (string + byte list) res" where
  "bshuf_trans_bit_elem L input elem_size =
     (if elem_size = 0 then Panic
      else let block_size = bshuf_block elem_size;
               n = length input div elem_size;
               output_bound = bshuf_compress_bound L n elem_size block_size;
               hd8 = bo_put L BigEndian 8 (unat (word_of_nat (n * elem_size) :: u64));
               hd4 = bo_put L BigEndian 4 (unat (word_of_nat (block_size * elem_size) :: u32));
               (ret, out) = bshuf_compress L input n elem_size block_size in
      if ret < 0 then Ok (Inl (''Compression failed with error code '' @ show_int ret))
      else Ok (Inr (take (nat ret + 12) (hd8 @ hd4 @ c_output output_bound out))))"

text \<open>The outer functions turn the string error into \<open>InvalidInput\<close>.\<close>

fun string_err :: "(string + byte list) res \<Rightarrow> byte list res" where
  "string_err (Ok (Inr out)) = Ok out"
| "string_err (Ok (Inl e)) = Err (InvalidInput, e)"
| "string_err (Err e) = Err e"
| "string_err Panic = Panic"

definition decompress_bitshuffle_lz4 :: "ext \<Rightarrow> byte list \<Rightarrow> nat \<Rightarrow> byte list res" where
  "decompress_bitshuffle_lz4 L data es = string_err (bshuf_untrans_bit_elem L data es)"

definition compress_bitshuffle_lz4 :: "ext \<Rightarrow> byte list \<Rightarrow> nat \<Rightarrow> byte list res" where
  "compress_bitshuffle_lz4 L data es = string_err (bshuf_trans_bit_elem L data es)"

subsection \<open>lz4\<close>

definition decompress_lz4 :: "ext \<Rightarrow> byte list \<Rightarrow> bool \<Rightarrow> byte list res" where
  "decompress_lz4 L data le =
     (case data of
        b0 # b1 # b2 # b3 # blob \<Rightarrow>
          let size = (if le
            then (ucast b0 :: i32) OR push_bit 8 (ucast b1) OR push_bit 16 (ucast b2) OR push_bit 24 (ucast b3)
            else ucast b3 OR push_bit 8 (ucast b2) OR push_bit 16 (ucast b1) OR push_bit 24 (ucast b0))
          in of_sum (lz4_decompress L blob size)
      | _ \<Rightarrow> Panic)"

definition compress_lz4 :: "ext \<Rightarrow> byte list \<Rightarrow> bool \<Rightarrow> byte list res" where
  "compress_lz4 L data le =
     (let size = length data;
          header = (if le
            then [word_of_nat size, word_of_nat (drop_bit 8 size),
                  word_of_nat (drop_bit 16 size), word_of_nat (drop_bit 24 size)]
            else [word_of_nat (drop_bit 24 size), word_of_nat (drop_bit 16 size),
                  word_of_nat (drop_bit 8 size), word_of_nat size])
      in res_map (\<lambda>blob. header @ blob) (of_sum (lz4_compress L data)))"

subsection \<open>The interface of a block compression\<close>

text \<open>
  What \<open>serialize_channel\<close> and \<open>parse_channel_data\<close> rely on: on the buffers it is
  good for, the compression returns a frame that the decompression turns back.
\<close>

locale block_compression =
  fixes compress :: "byte list \<Rightarrow> byte list res"
    and decompress :: "byte list \<Rightarrow> byte list res"
    and good :: "byte list \<Rightarrow> bool"
  assumes restores: "good bs \<Longrightarrow> \<exists>c. compress bs = Ok c \<and> decompress c = Ok bs"
begin

lemma compress_decompress: "good bs \<Longrightarrow> res_bind (compress bs) decompress = Ok bs"
  using restores by fastforce

lemma compressed_read:
  "good bs \<Longrightarrow> compress bs = Ok c \<Longrightarrow> res_bind (decompress c) f = f bs"
  using restores [of bs] by auto

end

lemma lz4_size_bits:
  "(ucast (word_of_nat n :: byte) :: i32) OR push_bit 8 (ucast (word_of_nat (drop_bit 8 n) :: byte))
     OR push_bit 16 (ucast (word_of_nat (drop_bit 16 n) :: byte))
     OR push_bit 24 (ucast (word_of_nat (drop_bit 24 n) :: byte)) = word_of_nat n"
  apply (rule bit_word_eqI)
  apply (auto simp: bit_simps)
  subgoal for k by (cases "24 \<le> k") simp_all
  done


subsection \<open>The two compressions implement the interface\<close>

lemma decompress_compress_lz4:
  assumes "lz4_ok L bs"
  shows "\<exists>c. compress_lz4 L bs le = Ok c \<and> decompress_lz4 L c le = Ok bs"
proof -
  from assms obtain c where "lz4_compress L bs = Inr c"
      "lz4_decompress L c (word_of_nat (length bs)) = Inr bs"
    by (auto simp: lz4_ok_def)
  then show ?thesis
    by (simp add: compress_lz4_def decompress_lz4_def Let_def lz4_size_bits)
qed

interpretation lz4: block_compression
  "\<lambda>bs. compress_lz4 L bs le" "\<lambda>c. decompress_lz4 L c le" "lz4_ok L" for L le
  by unfold_locales (rule decompress_compress_lz4)

lemma bshuf_block_bounds: "8 dvd bshuf_block es" "128 \<le> bshuf_block es"
  by (auto simp: bshuf_block_def max_def)

lemma bshuf_block_bytes:
  assumes "0 < es"
  shows "bshuf_block es * es \<le> max 8192 (128 * es)"
proof -
  have "8192 div es div 8 * 8 * es \<le> 8192 div es * es"
    by (intro mult_right_mono) simp_all
  also have "\<dots> \<le> 8192" by simp
  finally have "8192 div es div 8 * 8 * es \<le> 8192" .
  moreover have "bshuf_block es = 8192 div es div 8 * 8 \<or> bshuf_block es = 128"
    by (simp add: bshuf_block_def max_def)
  ultimately show ?thesis by (metis max.coboundedI1 max.coboundedI2 order_refl)
qed

text \<open>What the bitshuffle framing can carry: whole elements, sizes within the header.\<close>

definition bshuf_good :: "ext \<Rightarrow> nat \<Rightarrow> byte list \<Rightarrow> bool" where
  "bshuf_good L es bs \<longleftrightarrow>
     byteorder_ok L \<and> 0 < es \<and> es < 2 ^ 25 \<and> es dvd length bs \<and> length bs < 2 ^ 63
     \<and> bshuf_ok L bs es (bshuf_block es)"

lemma bshuf_header:
  assumes "byteorder_ok L" and "n < 2 ^ 64" and "m < 2 ^ 32"
  shows "bo_get L BigEndian (take 8 (bo_put L BigEndian 8 n @ r)) = n"
    and "bo_get L BigEndian (take 4 (drop 8 (bo_put L BigEndian 8 n @ bo_put L BigEndian 4 m @ r'))) = m"
    and "length (bo_put L BigEndian 8 n) = 8" and "length (bo_put L BigEndian 4 m) = 4"
  using assms
  by (auto simp: byteorder_ok_def bytes_to_nat_to_bytes [of _ 8 BigEndian]
      bytes_to_nat_to_bytes [of _ 4 BigEndian] simp del: bytes_to_nat.simps nat_to_bytes.simps)

lemma decompress_compress_bitshuffle:
  assumes "bshuf_good L es bs"
  shows "\<exists>c. compress_bitshuffle_lz4 L bs es = Ok c \<and> decompress_bitshuffle_lz4 L c es = Ok bs"
proof -
  let ?n = "length bs div es" and ?b = "bshuf_block es"
  let ?h8 = "bo_put L BigEndian 8 (length bs)" and ?h4 = "bo_put L BigEndian 4 (?b * es)"
  from assms have es: "byteorder_ok L" "0 < es" "es < 2 ^ 25" "es dvd length bs" "length bs < 2 ^ 63"
      "bshuf_ok L bs es ?b"
    by (simp_all add: bshuf_good_def)
  from es(6) obtain c r' where c: "bshuf_compress L bs ?n es ?b = (int (length c), c)"
      "length c \<le> bshuf_compress_bound L ?n es ?b" "0 \<le> r'"
      "bshuf_decompress L c ?n es ?b = (r', bs)"
    by (auto simp: bshuf_ok_def split: prod.splits)
  have m: "?b * es < 2 ^ 32"
  proof (rule order.strict_trans1 [OF bshuf_block_bytes [OF es(2)]])
    show "max 8192 (128 * es) < 2 ^ 32" using es(3) by simp
  qed
  have n64: "length bs < 2 ^ 64" using es(5) by simp
  have len: "?n * es = length bs" using es(4) by simp
  note hd = bshuf_header [OF es(1) n64 m]
  have u64: "unat (word_of_nat (length bs) :: u64) = length bs"
    using n64 by (simp add: unat_of_nat take_bit_nat_eq_self)
  have u32: "unat (word_of_nat (?b * es) :: u32) = ?b * es"
    using m by (subst unat_of_nat) (simp add: take_bit_nat_eq_self)
  have es32: "unat (word_of_nat es :: u32) = es"
    using es(3) by (subst unat_of_nat) (simp add: take_bit_nat_eq_self)
  then have "(word_of_nat es :: u32) \<noteq> 0" using es(2) by auto
  have frame: "bshuf_trans_bit_elem L bs es = Ok (Inr (?h8 @ ?h4 @ c))"
    using c(1,2) es(2) hd(3,4) u64 u32
    by (simp add: bshuf_trans_bit_elem_def Let_def len c_output_def del: of_nat_mult)
  have "bshuf_untrans_bit_elem L (?h8 @ ?h4 @ c) es = Ok (Inr (c_output (length bs) bs))"
    using hd es(2,5) es32 u32 c(3,4) \<open>(word_of_nat es :: u32) \<noteq> 0\<close>
    by (simp add: bshuf_untrans_bit_elem_def Let_def del: of_nat_mult)
  with frame show ?thesis
    by (simp add: compress_bitshuffle_lz4_def decompress_bitshuffle_lz4_def c_output_def)
qed

interpretation bshuf: block_compression
  "\<lambda>bs. compress_bitshuffle_lz4 L bs es" "\<lambda>c. decompress_bitshuffle_lz4 L c es" "bshuf_good L es"
  for L es
  by unfold_locales (rule decompress_compress_bitshuffle)

subsection \<open>Properties\<close>

lemma to_le_4:
  "to_le 4 n = [word_of_nat n, word_of_nat (drop_bit 8 n), word_of_nat (drop_bit 16 n), word_of_nat (drop_bit 24 n)]"
proof -
  have four: "(4 :: nat) = Suc (Suc (Suc (Suc 0)))" by simp
  show ?thesis
    unfolding four by (simp add: drop_bit_eq_div div_mult2_eq [symmetric])
qed

lemma compress_lz4_eq:
  "compress_lz4 L bs le = res_map (\<lambda>blob. nat_to_bytes (if le then LittleEndian else BigEndian) 4 (length bs) @ blob)
     (of_sum (lz4_compress L bs))"
  by (cases "lz4_compress L bs") (simp_all add: compress_lz4_def Let_def to_le_4)

text \<open>
  lz4 round trip: in either byte order of the length header, decompressing the
  compressed frame gives the data back; the frame is the block behind the data's length
  modulo $2^{32}$ in four bytes.
\<close>

lemma lz4_roundtrip:
  assumes "lz4_ok L bs"
  shows "\<exists>blob. lz4_compress L bs = Inr blob
    \<and> (let frame = nat_to_bytes (if le then LittleEndian else BigEndian) 4 (length bs) @ blob
       in compress_lz4 L bs le = Ok frame \<and> decompress_lz4 L frame le = Ok bs)"
proof -
  from assms obtain blob where blob: "lz4_compress L bs = Inr blob" by (auto simp: lz4_ok_def)
  then show ?thesis
    using lz4.restores [OF assms, of le] by (auto simp: compress_lz4_eq Let_def)
qed

text \<open>
  C34. bitshuffle round trip: whole elements of any size below $2^{25}$ bytes survive
  compression and decompression with the same element size, provided the block functions
  of the C library restore their input.
\<close>

theorem bitshuffle_roundtrip:
  assumes "byteorder_ok L" and "0 < es" and "es < 2 ^ 25" and "es dvd length bs"
    and "length bs < 2 ^ 63" and "bshuf_ok L bs es (bshuf_block es)"
  shows "\<exists>c. compress_bitshuffle_lz4 L bs es = Ok c \<and> decompress_bitshuffle_lz4 L c es = Ok bs"
  using assms by (intro bshuf.restores) (simp add: bshuf_good_def)

lemma ref_bshuf_ok: "0 < es \<Longrightarrow> es dvd length bs \<Longrightarrow> bshuf_ok ref_ext bs es block"
  by (simp add: bshuf_ok_def ref_ext_def)

theorem bitshuffle_roundtrip_witness:
  "\<exists>c. compress_bitshuffle_lz4 ref_ext [1, 2, 3, 4] 2 = Ok c
    \<and> decompress_bitshuffle_lz4 ref_ext c 2 = Ok [1, 2, 3, 4]"
  by (rule bitshuffle_roundtrip [OF ref_byteorder_ok]) (simp_all add: ref_bshuf_ok)

text \<open>
  The block size: a multiple of 8, at least 128 elements, and no more than 8192 bytes
  as long as 128 elements fit in them.
\<close>

lemma bshuf_block_spec:
  assumes "0 < es"
  shows "bshuf_block es mod 8 = 0 \<and> 128 \<le> bshuf_block es
    \<and> bshuf_block es * es \<le> max 8192 (128 * es)
    \<and> (es \<le> 64 \<longrightarrow> 8192 < (bshuf_block es + 8) * es)"
proof -
  have "8192 < (bshuf_block es + 8) * es"
  proof -
    have "k < k div 8 * 8 + 8" for k :: nat by presburger
    then have "8192 div es < 8192 div es div 8 * 8 + 8" .
    also have "\<dots> \<le> bshuf_block es + 8" by (simp add: bshuf_block_def)
    finally have "Suc (8192 div es) \<le> bshuf_block es + 8" by simp
    then have "Suc (8192 div es) * es \<le> (bshuf_block es + 8) * es" by (rule mult_right_mono) simp
    moreover have "8192 < Suc (8192 div es) * es"
      using dividend_less_times_div [OF assms, of 8192] by (simp add: mult.commute)
    ultimately show ?thesis by linarith
  qed
  with assms bshuf_block_bounds [of es] bshuf_block_bytes [OF assms] show ?thesis by auto
qed

text \<open>
  Truncated frames are not errors but panics: fewer than 4 bytes of an lz4 frame,
  fewer than 12 of a bitshuffle frame (and any bitshuffle frame with element size 0).
\<close>

lemma truncated_frame_panics:
  "(length data < 4 \<longrightarrow> decompress_lz4 L data le = Panic)
   \<and> (length data < 12 \<or> es = 0 \<longrightarrow> decompress_bitshuffle_lz4 L data es = Panic)"
proof
  show "length data < 4 \<longrightarrow> decompress_lz4 L data le = Panic"
    by (auto simp: decompress_lz4_def split: list.splits)
  show "length data < 12 \<or> es = 0 \<longrightarrow> decompress_bitshuffle_lz4 L data es = Panic"
    by (auto simp: decompress_bitshuffle_lz4_def bshuf_untrans_bit_elem_def Let_def)
qed

end
