(* ===== verification/Bs_Message.thy ===== *)
theory Bs_Message
  imports Bs_Channel Bs_Compression Bs_Containers Bs_Helpers
begin

section \<open>Messages (src/src/message.rs)\<close>

text \<open>
  Headers and channels to frames and back: the data header of a list of channels and its
  parser, the two frames of a channel's data and their parser, the main header's fields,
  \<open>Message\<close> and its constructors, and \<open>parse_message\<close> with the cache of data headers.
\<close>

type_synonym timestamp = "u64 \<times> u64"

subsection \<open>Channels of a data header\<close>

definition decode_json :: "ext \<Rightarrow> byte list \<Rightarrow> header res" where
  "decode_json L bs = of_sum (json_from_slice L bs)"

definition convert_shape_val_to_vec :: "ext \<Rightarrow> json option \<Rightarrow> u32 list option" where
  "convert_shape_val_to_vec L opt_val =
     (case opt_val of
        Some (JArray arr) \<Rightarrow>
          (case opt_mapM (\<lambda>item. map_option ucast (json_i64 L item)) arr of
             Some (d # ds) \<Rightarrow> Some (d # ds)
           | _ \<Rightarrow> None)
      | _ \<Rightarrow> None)"

text \<open>\<open>channel_data.get(key).and_then(|v| v.as_str())\<close>.\<close>

definition get_str :: "header \<Rightarrow> string \<Rightarrow> string option" where
  "get_str h key = Option.bind (h key) json_str"

definition str_or :: "string \<Rightarrow> string option \<Rightarrow> string" where
  "str_or d x = (case x of Some s \<Rightarrow> s | None \<Rightarrow> d)"

definition parse_channel :: "ext \<Rightarrow> header \<Rightarrow> bool \<Rightarrow> channel res" where
  "parse_channel L h raw =
     res_bind (ok_or (InvalidInput, ''Invalid format: 'name' missing or not a string'') (get_str h ''name''))
       (\<lambda>name.
          let typ = str_or ''float64'' (get_str h ''type'');
              shape = convert_shape_val_to_vec L (h ''shape'');
              encoding = str_or [] (get_str h ''encoding'');
              little_endian = (if encoding = ''>'' \<or> to_lowercase encoding = ''big'' then False else True)
          in res_bind (compression_from_str (str_or ''none'' (get_str h ''compression'')))
               (\<lambda>cmpr. channel_new L name typ shape little_endian cmpr raw))"

definition parse_channels :: "ext \<Rightarrow> header \<Rightarrow> bool \<Rightarrow> channel list res" where
  "parse_channels L data_header raw =
     res_bind (ok_or (InvalidInput, ''Invalid format: 'channels' missing or not an array'')
                (Option.bind (data_header ''channels'') json_array))
       (res_mapM (\<lambda>item.
          res_bind (ok_or (InvalidInput, ''Invalid format: is not an object'') (json_object item))
            (\<lambda>channel_data. unwrap (parse_channel L channel_data raw))))"

definition create_data_header :: "ext \<Rightarrow> channel list \<Rightarrow> header" where
  "create_data_header L channels =
     [''htype'' \<mapsto> JString ''bsr_d-1.1'',
      ''channels'' \<mapsto> JArray (map (\<lambda>ch. JObject (metadata L (ch_config ch))) channels)]"

subsection \<open>The frames of a channel\<close>

record channel_data =
  cd_value :: bvalue
  cd_timestamp :: timestamp

text \<open>The two \<open>match channel.config().compression()\<close> expressions.\<close>

definition mark_decompression :: "io_error \<Rightarrow> io_error" where
  "mark_decompression e = (DECOMPRESSION_ERROR, snd e)"

definition decompress_data :: "ext \<Rightarrow> compression \<Rightarrow> nat \<Rightarrow> bool \<Rightarrow> byte list \<Rightarrow> byte list res" where
  "decompress_data L cmpr es le v =
     (case cmpr of
        BitshuffleLz4 \<Rightarrow> map_err mark_decompression (decompress_bitshuffle_lz4 L v es)
      | Lz4 \<Rightarrow> map_err mark_decompression (decompress_lz4 L v le)
      | CompNone \<Rightarrow> Ok v)"

definition compress_data :: "ext \<Rightarrow> compression \<Rightarrow> nat \<Rightarrow> bool \<Rightarrow> byte list \<Rightarrow> byte list res" where
  "compress_data L cmpr es le buf =
     (case cmpr of
        BitshuffleLz4 \<Rightarrow> compress_bitshuffle_lz4 L buf es
      | Lz4 \<Rightarrow> compress_lz4 L buf le
      | CompNone \<Rightarrow> Ok buf)"

definition parse_channel_data ::
  "ext \<Rightarrow> timestamp \<Rightarrow> channel \<Rightarrow> byte list \<Rightarrow> byte list \<Rightarrow> bool \<Rightarrow> channel_data res" where
  "parse_channel_data L global_timestamp ch v t raw =
     res_bind
       (if length t = 16
        then res_bind (READER_U64 L (rcursor_new t)) (\<lambda>(secs, c).
               res_bind (READER_U64 L c) (\<lambda>(nanos, c'). Ok (secs, nanos)))
        else Ok global_timestamp)
       (\<lambda>timestamp.
          let cfg = ch_config ch in
          res_bind (decompress_data L (cfg_compression cfg) (cfg_element_size cfg) (cfg_little_endian cfg) v)
            (\<lambda>data.
               if raw then Ok \<lparr>cd_value = AU8 data, cd_timestamp = timestamp\<rparr>
               else res_map (\<lambda>(value, c). \<lparr>cd_value = value, cd_timestamp = timestamp\<rparr>)
                      (unwrap (ch_read ch (rcursor_new data)))))"

definition serialize_channel :: "ext \<Rightarrow> channel \<Rightarrow> channel_data \<Rightarrow> (byte list \<times> byte list) res" where
  "serialize_channel L ch cd =
     (let cfg = ch_config ch; size = cfg_size cfg in
      res_bind (ch_write ch (wcursor_new (replicate size 0)) (cd_value cd)) (\<lambda>w.
      res_bind (compress_data L (cfg_compression cfg) (cfg_element_size cfg) (cfg_little_endian cfg) (wc_data w)) (\<lambda>data.
      res_bind (WRITER_U64 L (wcursor_new (replicate 16 0)) (fst (cd_timestamp cd))) (\<lambda>t1.
      res_bind (WRITER_U64 L t1 (snd (cd_timestamp cd))) (\<lambda>t2.
      Ok (data, wc_data t2))))))"

subsection \<open>The fields of the main header\<close>

definition msg_id :: "ext \<Rightarrow> header \<Rightarrow> u64 res" where
  "msg_id L main_header =
     (case main_header ''pulse_id'' of
        None \<Rightarrow> Err (InvalidInput, ''Missing 'pulse_id'' @ [CHR 0x27])
      | Some v \<Rightarrow>
          (case json_i64 L v of
             Some pid \<Rightarrow> if 0 \<le> sint pid then Ok pid
                        else Err (InvalidInput, '''pulse_id' cannot be negative'')
           | None \<Rightarrow> Err (InvalidInput, '''pulse_id' is not a valid integer'')))"

definition msg_hash :: "header \<Rightarrow> string res" where
  "msg_hash main_header =
     ok_or (InvalidInput, ''Invalid format: 'hash' missing or not a string'') (get_str main_header ''hash'')"

definition msg_htype :: "header \<Rightarrow> string res" where
  "msg_htype main_header =
     res_bind (ok_or (InvalidInput, ''Invalid format: 'htype' missing or not a string'') (get_str main_header ''htype''))
       (\<lambda>h. if h \<noteq> HTYPE then Err (InvalidInput, ''Invalid field: 'htype'' @ [CHR 0x27]) else Ok h)"

definition dh_compression :: "header \<Rightarrow> compression res" where
  "dh_compression main_header =
     (case main_header ''dh_compression'' of
        None \<Rightarrow> Ok CompNone
      | Some v \<Rightarrow>
          res_bind (ok_or (InvalidInput, ''Invalid format: 'dh_compression' is not a string'') (json_str v))
            compression_from_str)"

text \<open>A present \<open>global_timestamp\<close> is unwrapped all the way.\<close>

definition msg_timestamp :: "ext \<Rightarrow> header \<Rightarrow> timestamp res" where
  "msg_timestamp L main_header =
     (case main_header ''global_timestamp'' of
        None \<Rightarrow> Ok (0, 0)
      | Some v \<Rightarrow>
          res_bind (opt_unwrap (json_object v)) (\<lambda>m.
          res_bind (opt_unwrap (m ''ns'')) (\<lambda>ns_json.
          res_bind (opt_unwrap (json_u64 L ns_json)) (\<lambda>ns.
          res_bind (opt_unwrap (m ''sec'')) (\<lambda>sec_json.
          res_bind (opt_unwrap (json_u64 L sec_json)) (\<lambda>sec. Ok (sec, ns)))))))"

subsection \<open>Message\<close>

record message =
  m_main_header :: header
  m_data_header :: header
  m_channels :: "channel list"
  m_data :: "channel_data option index_map"
  m_id :: u64
  m_hash :: string
  m_htype :: string
  m_dh_compression :: compression
  m_timestamp :: timestamp
  m_header_changed :: "bool option"
  m_raw :: bool

record data_header_info =
  dhi_hash :: string
  dhi_data_header :: header
  dhi_channels :: "channel list"

definition message_new ::
  "ext \<Rightarrow> header \<Rightarrow> header \<Rightarrow> channel list \<Rightarrow> channel_data option index_map \<Rightarrow> bool option \<Rightarrow> bool \<Rightarrow> message res" where
  "message_new L main_header data_header channels data header_changed raw =
     res_bind (msg_hash main_header) (\<lambda>hash.
     res_bind (msg_id L main_header) (\<lambda>pid.
     res_bind (msg_htype main_header) (\<lambda>htype.
     res_bind (dh_compression main_header) (\<lambda>dhc.
     res_bind (msg_timestamp L main_header) (\<lambda>timestamp.
     Ok \<lparr>m_main_header = main_header, m_data_header = data_header, m_channels = channels,
         m_data = data, m_id = pid, m_hash = hash, m_htype = htype, m_dh_compression = dhc,
         m_timestamp = timestamp, m_header_changed = header_changed, m_raw = raw\<rparr>)))))"

definition timestamp_json :: "ext \<Rightarrow> timestamp \<Rightarrow> json" where
  "timestamp_json L ts = JObject [''sec'' \<mapsto> json_of_u64 L (fst ts), ''ns'' \<mapsto> json_of_u64 L (snd ts)]"

definition new_from_channel_map ::
  "ext \<Rightarrow> u64 \<Rightarrow> timestamp \<Rightarrow> channel list \<Rightarrow> channel_data option index_map \<Rightarrow> message res" where
  "new_from_channel_map L pid ts channels data =
     (let main1 = [''htype'' \<mapsto> JString HTYPE, ''pulse_id'' \<mapsto> json_of_u64 L pid,
                   ''global_timestamp'' \<mapsto> timestamp_json L ts];
          data_header = create_data_header L channels
      in res_bind (of_sum (json_print_map L data_header)) (\<lambda>text.
         message_new L (main1(''hash'' \<mapsto> JString (hash_md5 L (str_bytes text)))) data_header channels
           data None False))"

text \<open>The loop over the channels indexes \<open>channel_data\<close>, which panics when it is shorter.\<close>

fun collect_data ::
  "ext \<Rightarrow> channel list \<Rightarrow> channel_data option list \<Rightarrow> channel_data option index_map \<Rightarrow> channel_data option index_map res" where
  "collect_data L [] cds m = Ok m"
| "collect_data L (ch # chs) [] m = Panic"
| "collect_data L (ch # chs) (cd # cds) m = collect_data L chs cds (im_insert L m (cfg_name (ch_config ch)) cd)"

definition new_from_channel_vec ::
  "ext \<Rightarrow> u64 \<Rightarrow> timestamp \<Rightarrow> channel list \<Rightarrow> channel_data option list \<Rightarrow> message res" where
  "new_from_channel_vec L pid ts channels cds =
     res_bind (collect_data L channels cds im_new) (\<lambda>data.
     res_bind (res_mapM (channel_copy L) channels) (\<lambda>cloned.
     new_from_channel_map L pid ts cloned data))"

definition message_header_changed :: "message \<Rightarrow> bool" where
  "message_header_changed m = (case m_header_changed m of Some b \<Rightarrow> b | None \<Rightarrow> False)"

definition message_channel_data :: "message \<Rightarrow> string \<Rightarrow> channel_data option" where
  "message_channel_data m name = (case im_map (m_data m) name of Some cd \<Rightarrow> cd | None \<Rightarrow> None)"

definition message_channel_value :: "message \<Rightarrow> string \<Rightarrow> bvalue option" where
  "message_channel_value m name = map_option cd_value (message_channel_data m name)"

definition clone_data_header_info :: "ext \<Rightarrow> message \<Rightarrow> string \<Rightarrow> data_header_info option res" where
  "clone_data_header_info L m hash =
     (case parse_channels L (m_data_header m) (m_raw m) of
        Ok ch \<Rightarrow> Ok (Some \<lparr>dhi_hash = hash, dhi_data_header = m_data_header m, dhi_channels = ch\<rparr>)
      | Err _ \<Rightarrow> Ok None
      | Panic \<Rightarrow> Panic)"

subsection \<open>\<open>parse_message\<close>\<close>

type_synonym header_cache = "(string, data_header_info) lhm"

text \<open>The cached header for a message: the endpoint's if its hash is right, else the hash's.\<close>

definition cached_header :: "header_cache \<Rightarrow> string option \<Rightarrow> string \<Rightarrow> data_header_info option" where
  "cached_header last_headers endpoint hash =
     (case Option.bind endpoint (lhm_get last_headers) of
        Some info \<Rightarrow> if dhi_hash info = hash then Some info else lhm_get last_headers hash
      | None \<Rightarrow> lhm_get last_headers hash)"

text \<open>The header read from the second frame.\<close>

definition decode_data_header :: "ext \<Rightarrow> header \<Rightarrow> byte list \<Rightarrow> bool \<Rightarrow> (header \<times> channel list) res" where
  "decode_data_header L main_header blob raw =
     res_bind (dh_compression main_header) (\<lambda>cmpr.
     res_bind (decompress_data L cmpr 1 False blob) (\<lambda>text.
     res_bind (decode_json L text) (\<lambda>data_header.
     res_bind (unwrap (parse_channels L data_header raw)) (\<lambda>channels.
     Ok (data_header, channels)))))"

text \<open>The loop over the channels; an unreadable channel is recorded as \<open>None\<close>.\<close>

fun parse_frames ::
  "ext \<Rightarrow> timestamp \<Rightarrow> bool \<Rightarrow> channel list \<Rightarrow> byte list list \<Rightarrow> channel_data option index_map
   \<Rightarrow> channel_data option index_map res" where
  "parse_frames L gts raw (ch # chs) (v # t # rest) data =
     res_bind (res_ok (parse_channel_data L gts ch v t raw)) (\<lambda>cd.
       parse_frames L gts raw chs rest (im_insert L data (cfg_name (ch_config ch)) cd))"
| "parse_frames L gts raw [] frames data = Ok data"
| "parse_frames L gts raw _ _ data = Panic"

text \<open>Reuse or reparse: the data header, its channels, and whether they are new.\<close>

definition message_headers ::
  "ext \<Rightarrow> header \<Rightarrow> byte list \<Rightarrow> string option \<Rightarrow> header_cache \<Rightarrow> string \<Rightarrow> bool \<Rightarrow> (header \<times> channel list \<times> bool) res" where
  "message_headers L main_header blob endpoint last_headers hash raw =
     (case cached_header last_headers endpoint hash of
        Some info \<Rightarrow> Ok (dhi_data_header info, dhi_channels info, False)
      | None \<Rightarrow> res_map (\<lambda>(dh, chs). (dh, chs, True)) (decode_data_header L main_header blob raw))"

text \<open>The rest of the function: the message, and the entry to store if any.\<close>

definition parse_data ::
  "ext \<Rightarrow> byte list list \<Rightarrow> header \<Rightarrow> string \<Rightarrow> timestamp \<Rightarrow> bool \<Rightarrow> header \<Rightarrow> channel list \<Rightarrow> bool
   \<Rightarrow> (message \<times> data_header_info option) res" where
  "parse_data L parts main_header hash global_timestamp raw data_header channels changed =
     (if length parts - 2 \<noteq> length channels * 2
      then Err (InvalidData, ''Invalid number of messages'')
      else
        res_bind (parse_frames L global_timestamp raw channels (drop 2 parts) im_new) (\<lambda>data.
        res_bind (message_new L main_header data_header channels data (Some changed) raw) (\<lambda>m.
        if changed then res_map (\<lambda>l. (m, l)) (clone_data_header_info L m hash)
        else Ok (m, None))))"

definition parse_body ::
  "ext \<Rightarrow> byte list list \<Rightarrow> string option \<Rightarrow> header_cache \<Rightarrow> bool \<Rightarrow> (message \<times> data_header_info option) res" where
  "parse_body L parts endpoint last_headers raw =
     (if length parts < 2 then Err (InvalidData, ''Invalid message format'')
      else
       res_bind (decode_json L (parts ! 0)) (\<lambda>main_header.
       res_bind (msg_hash main_header) (\<lambda>hash.
       res_bind (msg_timestamp L main_header) (\<lambda>global_timestamp.
       res_bind (message_headers L main_header (parts ! 1) endpoint last_headers hash raw)
         (\<lambda>(data_header, channels, changed).
            parse_data L parts main_header hash global_timestamp raw data_header channels changed)))))"

definition parse_message ::
  "ext \<Rightarrow> byte list list \<Rightarrow> string option \<Rightarrow> header_cache \<Rightarrow> bool \<Rightarrow> message res \<times> header_cache" where
  "parse_message L parts endpoint last_headers raw =
     (case parse_body L parts endpoint last_headers raw of
        Ok (m, Some l) \<Rightarrow>
          (Ok m, lhm_insert last_headers (case endpoint of Some ep \<Rightarrow> ep | None \<Rightarrow> dhi_hash l) l)
      | Ok (m, None) \<Rightarrow> (Ok m, last_headers)
      | Err e \<Rightarrow> (Err e, last_headers)
      | Panic \<Rightarrow> (Panic, last_headers))"

subsection \<open>Compression of a channel's data\<close>

text \<open>The buffers a compression is good for, and the interface instance of the dispatch.\<close>

definition compressible :: "ext \<Rightarrow> compression \<Rightarrow> nat \<Rightarrow> byte list \<Rightarrow> bool" where
  "compressible L cmpr es bs =
     (case cmpr of CompNone \<Rightarrow> True | Lz4 \<Rightarrow> lz4_ok L bs | BitshuffleLz4 \<Rightarrow> bshuf_good L es bs)"

interpretation data: block_compression
  "compress_data L cmpr es le" "decompress_data L cmpr es le" "compressible L cmpr es" for L cmpr es le
proof unfold_locales
  show "\<exists>c. compress_data L cmpr es le bs = Ok c \<and> decompress_data L cmpr es le c = Ok bs"
    if "compressible L cmpr es bs" for bs
    using that lz4.restores [of L bs le] bshuf.restores [of L es bs]
    by (cases cmpr) (auto simp: compressible_def compress_data_def decompress_data_def)
qed

subsection \<open>Data headers\<close>

text \<open>What a shape becomes on its way through the data header.\<close>

definition norm_shape :: "u32 list option \<Rightarrow> u32 list option" where
  "norm_shape s = (case s of None \<Rightarrow> Some [1] | Some [] \<Rightarrow> None | Some (d # ds) \<Rightarrow> Some (d # ds))"

definition norm_channel :: "channel \<Rightarrow> channel" where
  "norm_channel ch = set_shape (norm_shape (cfg_shape (ch_config ch))) ch"

lemma norm_shape_same:
  "elements (norm_shape s) = elements s" "shape_is_array (norm_shape s) = shape_is_array s"
  by (auto simp: norm_shape_def elements_def shape_is_array_def split: option.splits list.splits)

lemma norm_shape_norm: "norm_shape (norm_shape (norm_shape s)) = norm_shape (norm_shape s)"
  by (auto simp: norm_shape_def split: option.splits list.splits)

lemma u32_through_json:
  assumes "json_num_ok L"
  shows "map_option ucast (json_i64 L (json_of_u64 L (ucast (w :: u32)))) = Some w"
proof -
  have "uint w < 2 ^ 32" using uint_lt2p [of w] by simp
  then have "uint (ucast w :: u64) < 2 ^ 63" by (simp add: unsigned_ucast_eq take_bit_int_eq_self)
  moreover have "ucast (ucast w :: u64) = w" by (rule bit_word_eqI) (simp add: bit_simps)
  ultimately show ?thesis using json_i64_of_u64 [OF assms] by simp
qed

lemma convert_shape_metadata:
  assumes "json_num_ok L"
  shows "convert_shape_val_to_vec L (Some (JArray (map (\<lambda>n. json_of_u64 L (ucast n)) ds)))
    = (if ds = [] then None else Some ds)"
proof -
  have "opt_mapM (\<lambda>item. map_option ucast (json_i64 L item)) (map (\<lambda>n. json_of_u64 L (ucast n)) ds) = Some ds"
    using opt_mapM_Some [of ds "(\<lambda>item. map_option ucast (json_i64 L item)) \<circ> (\<lambda>n. json_of_u64 L (ucast n))" "\<lambda>n. n"]
    by (simp add: opt_mapM_map u32_through_json [OF assms])
  then show ?thesis by (cases ds) (simp_all add: convert_shape_val_to_vec_def)
qed

lemma lower_encoding: "to_lowercase ''little'' \<noteq> ''big''" "to_lowercase ''big'' = ''big''"
  by (simp_all add: to_lowercase_def ascii_lower_def)

lemma parse_channel_metadata:
  assumes "json_num_ok L"
  shows "parse_channel L (metadata L c) raw
    = channel_new L (cfg_name c) (cfg_kind c) (norm_shape (cfg_shape c)) (cfg_little_endian c)
        (cfg_compression c) raw"
proof -
  have "convert_shape_val_to_vec L (metadata L c ''shape'') = norm_shape (cfg_shape c)"
    using convert_shape_metadata [OF assms]
    by (auto simp: metadata_def Let_def norm_shape_def split: option.splits list.splits)
  then show ?thesis
    by (auto simp: parse_channel_def get_str_def metadata_def Let_def str_or_def lower_encoding)
qed

text \<open>A channel as the crate builds it: one of \<open>channel::new\<close> that is not raw.\<close>

definition built :: "ext \<Rightarrow> channel \<Rightarrow> bool" where
  "built L ch \<longleftrightarrow> channel_copy L ch = Ok ch \<and> \<not> cfg_raw (ch_config ch)"

lemma built_new:
  "built L ch \<Longrightarrow> channel_new L (cfg_name (ch_config ch)) (cfg_kind (ch_config ch)) (cfg_shape (ch_config ch))
     (cfg_little_endian (ch_config ch)) (cfg_compression (ch_config ch)) False = Ok ch"
  by (auto simp: built_def channel_copy_def Let_def)

lemma new_built: "channel_new L name typ shape le cmpr False = Ok ch \<Longrightarrow> built L ch"
  using channel_copy_new [of L name "typ" shape le cmpr False ch]
    channel_new_config [of L name "typ" shape le cmpr False ch]
  by (simp add: built_def mk_config_def)

lemma reparse_channel:
  assumes "json_num_ok L" and "built L ch"
  shows "parse_channel L (metadata L (ch_config ch)) False = Ok (norm_channel ch)"
  using built_new [OF assms(2)]
  by (simp add: parse_channel_metadata [OF assms(1)] norm_channel_def
      channel_new_shape [OF norm_shape_same])

lemma norm_channel_simps [simp]:
  "ch_read (norm_channel ch) = ch_read ch"
  "cfg_name (ch_config (norm_channel ch)) = cfg_name (ch_config ch)"
  "cfg_compression (ch_config (norm_channel ch)) = cfg_compression (ch_config ch)"
  "cfg_element_size (ch_config (norm_channel ch)) = cfg_element_size (ch_config ch)"
  "cfg_elements (ch_config (norm_channel ch)) = cfg_elements (ch_config ch)"
  "cfg_little_endian (ch_config (norm_channel ch)) = cfg_little_endian (ch_config ch)"
  by (simp_all add: norm_channel_def)

lemma data_header_reparse:
  assumes "json_num_ok L" and "\<forall>ch \<in> set chs. built L ch"
  shows "parse_channels L (create_data_header L chs) False = Ok (map norm_channel chs)"
proof -
  have "res_mapM (\<lambda>item. res_bind (ok_or (InvalidInput, ''Invalid format: is not an object'') (json_object item))
      (\<lambda>h. unwrap (parse_channel L h False))) (map (\<lambda>ch. JObject (metadata L (ch_config ch))) chs)
      = Ok (map norm_channel chs)"
    unfolding res_mapM_map
    by (rule res_mapM_Ok) (simp add: assms reparse_channel [OF assms(1)])
  then show ?thesis by (simp add: parse_channels_def create_data_header_def)
qed

text \<open>
  C15. Round trip of the data header: parsing the channel list of the header that
  \<open>create_data_header\<close> writes gives the same channels, in order, with the same names,
  types, byte orders, compressions, readers and writers; only an absent shape comes back
  as \<open>[1]\<close> and an empty shape as absent.
\<close>

theorem data_header_roundtrip:
  assumes "json_num_ok L" and "\<forall>ch \<in> set chs. built L ch"
  shows "parse_channels L (create_data_header L chs) False = Ok (map norm_channel chs)"
  using data_header_reparse [OF assms] .

theorem data_header_roundtrip_witness:
  "\<exists>a b. channel_new ref_ext ''a'' ''float64'' None False Lz4 False = Ok a
    \<and> channel_new ref_ext ''b'' ''int16'' (Some [3, 2]) True CompNone False = Ok b
    \<and> parse_channels ref_ext (create_data_header ref_ext [a, b]) False = Ok [set_shape (Some [1]) a, b]"
proof -
  obtain a where a: "channel_new ref_ext ''a'' ''float64'' None False Lz4 False = Ok a"
      "ch_config a = mk_config ''a'' ''float64'' None False Lz4 False"
    using channel_new_spec [of False "''float64''" ref_ext "''a''" None False Lz4]
    by (auto simp: supported_kinds_def)
  obtain b where b: "channel_new ref_ext ''b'' ''int16'' (Some [3, 2]) True CompNone False = Ok b"
      "ch_config b = mk_config ''b'' ''int16'' (Some [3, 2]) True CompNone False"
    using channel_new_spec [of False "''int16''" ref_ext "''b''" "Some [3, 2]" True CompNone]
    by (auto simp: supported_kinds_def)
  have "parse_channels ref_ext (create_data_header ref_ext [a, b]) False = Ok (map norm_channel [a, b])"
    by (rule data_header_roundtrip [OF ref_json_num_ok]) (simp add: new_built [OF a(1)] new_built [OF b(1)])
  moreover have "norm_channel a = set_shape (Some [1]) a" "norm_channel b = b"
    using a(2) b(2) by (simp_all add: norm_channel_def norm_shape_def mk_config_def set_shape_def)
  ultimately show ?thesis using a(1) b(1) by simp
qed

subsection \<open>One channel's frames\<close>

definition written_buffer :: "channel \<Rightarrow> bvalue \<Rightarrow> byte list" where
  "written_buffer ch v =
     (case ch_write ch (wcursor_new (replicate (cfg_size (ch_config ch)) 0)) v of
        Ok w \<Rightarrow> wc_data w | _ \<Rightarrow> [])"

lemma timestamp_frame:
  assumes "byteorder_ok L"
  shows "\<exists>t1 t2. WRITER_U64 L (wcursor_new (replicate 16 0)) secs = Ok t1 \<and> WRITER_U64 L t1 nanos = Ok t2
    \<and> wc_data t2 = enc_word LittleEndian secs @ enc_word LittleEndian nanos"
proof -
  note c = codec_U64 [OF assms, THEN elem_of_array, THEN elem_codec.wr_enc]
  show ?thesis
    by (simp add: c wc_put_append wcursor_new_def) (simp add: wc_put_def Let_def)
qed

lemma read_timestamp_frame:
  assumes "byteorder_ok L"
  shows "\<exists>c c'. READER_U64 L (rcursor_new (enc_word LittleEndian secs @ enc_word LittleEndian nanos)) = Ok (secs, c)
    \<and> READER_U64 L c = Ok (nanos, c')"
proof -
  note rd = codec_U64 [OF assms, THEN elem_of_array, THEN elem_codec.rd_enc]
  let ?c = "rcursor_new (enc_word LittleEndian secs @ enc_word LittleEndian nanos)"
  have "READER_U64 L ?c = Ok (secs, ?c\<lparr>rc_pos := rc_pos ?c + 8\<rparr>)"
    by (rule rd) simp
  moreover have "READER_U64 L (?c\<lparr>rc_pos := rc_pos ?c + 8\<rparr>)
      = Ok (nanos, ?c\<lparr>rc_pos := rc_pos ?c + 8\<rparr>\<lparr>rc_pos := rc_pos (?c\<lparr>rc_pos := rc_pos ?c + 8\<rparr>) + 8\<rparr>)"
    by (rule rd [where rest = "[]"]) (simp add: rcursor_new_def)
  ultimately show ?thesis by blast
qed

lemma parse_norm_channel [simp]: "parse_channel_data L gts (norm_channel ch) v t raw = parse_channel_data L gts ch v t raw"
  by (cases raw) (simp_all add: parse_channel_data_def Let_def)

lemma parse_timestamped:
  assumes "byteorder_ok L"
  shows "parse_channel_data L gts ch v (enc_word LittleEndian (fst ts) @ enc_word LittleEndian (snd ts)) raw
    = parse_channel_data L ts ch v [] raw"
  using read_timestamp_frame [OF assms, of "fst ts" "snd ts"]
  by (auto simp: parse_channel_data_def)

lemma serialize_frames:
  assumes "byteorder_ok L" and "built L ch" and "accepts (cfg_kind (ch_config ch)) (cfg_shape (ch_config ch)) v"
    and "compressible L (cfg_compression (ch_config ch)) (cfg_element_size (ch_config ch)) (written_buffer ch v)"
  shows "\<exists>d. serialize_channel L ch \<lparr>cd_value = v, cd_timestamp = ts\<rparr>
        = Ok (d, enc_word LittleEndian (fst ts) @ enc_word LittleEndian (snd ts))
    \<and> parse_channel_data L ts ch d [] False
        = Ok \<lparr>cd_value = stored (cfg_elements (ch_config ch)) v, cd_timestamp = ts\<rparr>"
proof -
  let ?cfg = "ch_config ch"
  obtain w c' where w: "ch_write ch (wcursor_new (replicate (cfg_size ?cfg) 0)) v = Ok w"
      and r: "ch_read ch (rcursor_new (wc_data w)) = Ok (stored (cfg_elements ?cfg) v, c')"
    using channel_write_read_all [OF assms(1) built_new [OF assms(2)] assms(3)] by blast
  obtain d where d: "compress_data L (cfg_compression ?cfg) (cfg_element_size ?cfg) (cfg_little_endian ?cfg) (wc_data w) = Ok d"
      and dd: "decompress_data L (cfg_compression ?cfg) (cfg_element_size ?cfg) (cfg_little_endian ?cfg) d = Ok (wc_data w)"
    using data.restores [of L "cfg_compression ?cfg" "cfg_element_size ?cfg" "wc_data w"] assms(4) w
    by (auto simp: written_buffer_def)
  show ?thesis
    using timestamp_frame [OF assms(1), of "fst ts" "snd ts"] w d dd r
    by (auto simp: serialize_channel_def Let_def parse_channel_data_def)
qed

text \<open>
  C14. Round trip of one channel's two frames: what \<open>serialize_channel\<close> writes for a value
  the channel accepts, with any compression and timestamp, \<open>parse_channel_data\<close> reads as
  the stored value with that timestamp, whatever the global timestamp.
\<close>

theorem channel_frames_roundtrip:
  assumes "byteorder_ok L" and "built L ch" and "accepts (cfg_kind (ch_config ch)) (cfg_shape (ch_config ch)) v"
    and "compressible L (cfg_compression (ch_config ch)) (cfg_element_size (ch_config ch)) (written_buffer ch v)"
  shows "\<exists>d t. serialize_channel L ch \<lparr>cd_value = v, cd_timestamp = ts\<rparr> = Ok (d, t) \<and> length t = 16
    \<and> parse_channel_data L gts ch d t False
        = Ok \<lparr>cd_value = stored (cfg_elements (ch_config ch)) v, cd_timestamp = ts\<rparr>"
  using serialize_frames [OF assms, of ts] by (auto simp: parse_timestamped [OF assms(1)])

theorem channel_frames_roundtrip_witness:
  "\<exists>ch d t. channel_new ref_ext ''x'' ''int16'' (Some [2]) False Lz4 False = Ok ch
    \<and> serialize_channel ref_ext ch \<lparr>cd_value = AI16 [5, - 1], cd_timestamp = (3, 4)\<rparr> = Ok (d, t) \<and> length t = 16
    \<and> parse_channel_data ref_ext (0, 0) ch d t False = Ok \<lparr>cd_value = AI16 [5, - 1], cd_timestamp = (3, 4)\<rparr>"
proof -
  obtain ch where ch: "channel_new ref_ext ''x'' ''int16'' (Some [2]) False Lz4 False = Ok ch"
      "ch_config ch = mk_config ''x'' ''int16'' (Some [2]) False Lz4 False"
    using channel_new_spec [of False "''int16''" ref_ext "''x''" "Some [2]" False Lz4]
    by (auto simp: supported_kinds_def)
  have a: "accepts (cfg_kind (ch_config ch)) (cfg_shape (ch_config ch)) (AI16 [5, - 1])"
    using ch(2) by (simp add: accepts_def shape_is_array_def mk_config_def)
  have c: "compressible ref_ext (cfg_compression (ch_config ch)) (cfg_element_size (ch_config ch)) (written_buffer ch (AI16 [5, - 1]))"
    using ch(2) by (simp add: compressible_def mk_config_def lz4_ok_def ref_ext_def)
  have "cfg_elements (ch_config ch) = 2" using ch(2) by (simp add: mk_config_def elements_def)
  with channel_frames_roundtrip [OF ref_byteorder_ok new_built [OF ch(1)] a c, of "(3, 4)" "(0, 0)"] ch(1)
  show ?thesis by simp
qed

text \<open>
  C40. A data frame that is too short for its channel is not reported: for an uncompressed
  channel of any type but string, \<open>parse_channel_data\<close> panics, although its caller turns
  its errors into \<open>None\<close>.
\<close>

theorem short_frame_panics:
  assumes "byteorder_ok L" and "built L ch" and "cfg_compression (ch_config ch) = CompNone"
    and "cfg_kind (ch_config ch) \<noteq> ''string''"
    and "length v < read_size (cfg_kind (ch_config ch)) (cfg_shape (ch_config ch))"
  shows "parse_channel_data L gts ch v t False = Panic"
proof -
  have "unwrap (ch_read ch (rcursor_new v)) = Panic"
    using channel_read_short [OF assms(1) built_new [OF assms(2)] assms(4,5)]
    by (auto simp: res_simps)
  moreover have "\<exists>ts. (if length t = 16
        then res_bind (READER_U64 L (rcursor_new t)) (\<lambda>(secs, c).
               res_bind (READER_U64 L c) (\<lambda>(nanos, c'). Ok (secs, nanos)))
        else Ok gts) = Ok ts"
    by (auto simp: READER_U64_def read_word_def read_exact_def rcursor_new_def)
  ultimately show ?thesis
    using assms(3) by (auto simp: parse_channel_data_def decompress_data_def Let_def)
qed

theorem short_frame_panics_witness:
  "\<exists>ch. channel_new ref_ext ''x'' ''float64'' (Some [1]) True CompNone False = Ok ch
    \<and> parse_channel_data ref_ext (0, 0) ch [1, 2, 3] [] False = Panic"
proof -
  obtain ch where ch: "channel_new ref_ext ''x'' ''float64'' (Some [1]) True CompNone False = Ok ch"
      "ch_config ch = mk_config ''x'' ''float64'' (Some [1]) True CompNone False"
    using channel_new_spec [of False "''float64''" ref_ext "''x''" "Some [1]" True CompNone]
    by (auto simp: supported_kinds_def)
  have "parse_channel_data ref_ext (0, 0) ch [1, 2, 3] [] False = Panic"
    using ch(2)
    by (intro short_frame_panics [OF ref_byteorder_ok new_built [OF ch(1)]])
      (simp_all add: mk_config_def read_size_def shape_is_array_def element_size_def)
  with ch(1) show ?thesis by blast
qed

subsection \<open>The header cache\<close>

text \<open>
  A cache is sound for an assignment \<open>H\<close> of data headers to hashes when every entry holds
  the header of its hash with the channels that header parses to, and its key is the hash
  or the name of an endpoint (in \<open>E\<close>).
\<close>

definition entry_sound ::
  "ext \<Rightarrow> bool \<Rightarrow> (string \<Rightarrow> header option) \<Rightarrow> string set \<Rightarrow> string \<Rightarrow> data_header_info \<Rightarrow> bool" where
  "entry_sound L raw H E k info \<longleftrightarrow>
     (k \<in> E \<or> k = dhi_hash info) \<and> H (dhi_hash info) = Some (dhi_data_header info)
     \<and> parse_channels L (dhi_data_header info) raw = Ok (dhi_channels info)"

definition cache_sound ::
  "ext \<Rightarrow> bool \<Rightarrow> (string \<Rightarrow> header option) \<Rightarrow> string set \<Rightarrow> header_cache \<Rightarrow> bool" where
  "cache_sound L raw H E c \<longleftrightarrow>
     lhm_ok c \<and> (\<forall>k info. lhm_get c k = Some info \<longrightarrow> entry_sound L raw H E k info)"

definition strip_changed :: "message \<Rightarrow> message" where
  "strip_changed m = m\<lparr>m_header_changed := None\<rparr>"

lemma cache_sound_void: "cache_sound L raw H E lhm_void" and cache_sound_new: "cache_sound L raw H E (lhm_new n)"
  using lhm_ok_void lhm_ok_new by (simp_all add: cache_sound_def lhm_get_def) (simp_all add: lhm_void_def lhm_new_def)

lemma cached_header_sound:
  assumes "cache_sound L raw H E c" and "hash \<notin> E" and "cached_header c ep hash = Some info"
  shows "dhi_hash info = hash \<and> H hash = Some (dhi_data_header info)
    \<and> parse_channels L (dhi_data_header info) raw = Ok (dhi_channels info)"
  using assms unfolding cache_sound_def cached_header_def entry_sound_def
  by (cases ep) (auto split: option.splits if_splits)

lemma cached_header_void: "cached_header lhm_void ep hash = None"
  by (cases ep) (simp_all add: cached_header_def lhm_get_def lhm_void_def)

lemma cache_sound_insert:
  assumes "cache_sound L raw H E c" and "entry_sound L raw H E k l"
  shows "cache_sound L raw H E (lhm_insert c k l)"
  using assms lhm.put_keeps_all [of c "entry_sound L raw H E" k l] lhm.inv_put [of c k l]
  by (simp add: cache_sound_def)

lemma message_new_fields:
  "message_new L mh dh chs data hc raw = Ok m \<Longrightarrow>
   m_data_header m = dh \<and> m_raw m = raw \<and> m_header_changed m = hc \<and> msg_hash mh = Ok (m_hash m)
   \<and> m_channels m = chs \<and> m_data m = data"
  by (auto simp: message_new_def res_simps)

lemma message_new_changed:
  "message_new L mh dh chs data hc raw
     = res_map (\<lambda>m. m\<lparr>m_header_changed := hc\<rparr>) (message_new L mh dh chs data hc' raw)"
  by (simp add: message_new_def)
    (cases "msg_hash mh"; cases "msg_id L mh"; cases "msg_htype mh"; cases "dh_compression mh";
     cases "msg_timestamp L mh"; simp)

text \<open>Parsing with a known header and with a new one differ in the flag and the entry only.\<close>

lemma parse_data_changed:
  assumes "parse_channels L dh raw = Ok chs"
  shows "parse_data L parts mh h gts raw dh chs True
    = res_map (\<lambda>(m, _). (m\<lparr>m_header_changed := Some True\<rparr>,
          Some \<lparr>dhi_hash = h, dhi_data_header = dh, dhi_channels = chs\<rparr>))
        (parse_data L parts mh h gts raw dh chs False)"
proof -
  have *: "res_bind (message_new L mh dh chs data (Some True) raw)
        (\<lambda>m. res_map (Pair m) (clone_data_header_info L m h))
      = res_map (\<lambda>(m, _). (m\<lparr>m_header_changed := Some True\<rparr>,
          Some \<lparr>dhi_hash = h, dhi_data_header = dh, dhi_channels = chs\<rparr>))
        (res_bind (message_new L mh dh chs data (Some False) raw) (\<lambda>m. Ok (m, None :: data_header_info option)))"
    for data
    unfolding message_new_changed [where hc = "Some True" and hc' = "Some False"]
    using message_new_fields [of L mh dh chs data "Some False" raw]
    by (cases "message_new L mh dh chs data (Some False) raw")
      (auto simp: clone_data_header_info_def assms)
  show ?thesis
    by (cases "parse_frames L gts raw chs (drop 2 parts) im_new") (simp_all add: parse_data_def *)
qed

lemma strip_changed_update [simp]: "strip_changed (m\<lparr>m_header_changed := c\<rparr>) = strip_changed m"
  by (simp add: strip_changed_def)

lemma decode_data_header_parses:
  "decode_data_header L mh blob raw = Ok (dh, chs) \<Longrightarrow> parse_channels L dh raw = Ok chs"
  by (auto simp: decode_data_header_def res_simps)

text \<open>The messages of senders whose hashes name their data headers as \<open>H\<close> says.\<close>

definition well_hashed ::
  "ext \<Rightarrow> bool \<Rightarrow> (string \<Rightarrow> header option) \<Rightarrow> string set \<Rightarrow> byte list list \<Rightarrow> string option \<Rightarrow> bool" where
  "well_hashed L raw H E parts ep \<longleftrightarrow>
     set_option ep \<subseteq> E \<and>
     (2 \<le> length parts \<longrightarrow>
       (case decode_json L (parts ! 0) of
          Ok mh \<Rightarrow>
            (case msg_hash mh of
               Ok h \<Rightarrow> h \<notin> E \<and>
                 (case decode_data_header L mh (parts ! 1) raw of
                    Ok (dh, chs) \<Rightarrow> H h = Some dh | _ \<Rightarrow> False)
             | _ \<Rightarrow> True)
        | _ \<Rightarrow> True))"

lemma parse_body_cached:
  assumes "cache_sound L raw H E c" and "well_hashed L raw H E parts ep"
  shows "(\<exists>e. parse_body L parts ep c raw = Err e \<and> parse_body L parts ep lhm_void raw = Err e)
    \<or> (parse_body L parts ep c raw = Panic \<and> parse_body L parts ep lhm_void raw = Panic)
    \<or> (\<exists>m m' l l'. parse_body L parts ep c raw = Ok (m, l) \<and> parse_body L parts ep lhm_void raw = Ok (m', l')
         \<and> strip_changed m = strip_changed m'
         \<and> (\<forall>x. l = Some x \<longrightarrow> entry_sound L raw H E (case ep of Some e \<Rightarrow> e | None \<Rightarrow> dhi_hash x) x))"
proof (cases "length parts < 2")
  case True
  then show ?thesis by (simp add: parse_body_def)
next
  case long: False
  show ?thesis
  proof (cases "decode_json L (parts ! 0)")
    case (Ok mh)
    show ?thesis
    proof (cases "msg_hash mh")
      case h: (Ok h)
      from assms(2) long Ok h obtain dh chs where
        d: "decode_data_header L mh (parts ! 1) raw = res.Ok (dh, chs)" and H: "H h = Some dh" and E: "h \<notin> E"
        by (auto simp: well_hashed_def split: res.splits)
      note p = decode_data_header_parses [OF d]
      have fresh: "message_headers L mh (parts ! 1) ep c' h raw = res.Ok (dh, chs, cached_header c' ep h = None)"
        if "cache_sound L raw H E c'" for c'
        using cached_header_sound [OF that E] H d p
        by (fastforce simp: message_headers_def split: option.split)
      note cases = fresh [OF assms(1)] fresh [OF cache_sound_void]
      have entry: "entry_sound L raw H E (case ep of Some e \<Rightarrow> e | None \<Rightarrow> h)
          \<lparr>dhi_hash = h, dhi_data_header = dh, dhi_channels = chs\<rparr>"
        using assms(2) H p by (auto simp: entry_sound_def well_hashed_def split: option.split)
      show ?thesis
      proof (cases "msg_timestamp L mh")
        case ts: (Ok ts)
        have body: "parse_body L parts ep c' raw = parse_data L parts mh h ts raw dh chs (cached_header c' ep h = None)"
          if "cache_sound L raw H E c'" for c'
          using long Ok h ts fresh [OF that] by (simp add: parse_body_def)
        have nol: "l = None" if "parse_data L parts mh h ts raw dh chs False = res.Ok (m, l)" for m l
          using that by (auto simp: parse_data_def res_simps split: if_splits)
        show ?thesis
          unfolding body [OF assms(1)] body [OF cache_sound_void] cached_header_void
          using nol entry
          by (cases "cached_header c ep h = None"; cases "parse_data L parts mh h ts raw dh chs False")
            (auto simp: parse_data_changed [OF p] cong: option.case_cong)
      qed (use long Ok h in \<open>simp_all add: parse_body_def\<close>)
    qed (use long Ok in \<open>simp_all add: parse_body_def\<close>)
  qed (use long in \<open>simp_all add: parse_body_def\<close>)
qed

lemma parse_message_cached:
  assumes "cache_sound L raw H E c" and "well_hashed L raw H E parts ep"
  shows "res_map strip_changed (fst (parse_message L parts ep c raw))
      = res_map strip_changed (fst (parse_message L parts ep lhm_void raw))
    \<and> cache_sound L raw H E (snd (parse_message L parts ep c raw))"
  using parse_body_cached [OF assms] assms(1)
  by (auto simp: parse_message_def cache_sound_insert split: option.splits)

text \<open>A receiver's loop: the messages in turn, with the cache passed along.\<close>

fun parse_stream ::
  "ext \<Rightarrow> bool \<Rightarrow> header_cache \<Rightarrow> (byte list list \<times> string option) list \<Rightarrow> message res list \<times> header_cache" where
  "parse_stream L raw c [] = ([], c)"
| "parse_stream L raw c ((parts, ep) # ms) =
     (let (r, c') = parse_message L parts ep c raw; (rs, c'') = parse_stream L raw c' ms
      in (r # rs, c''))"

text \<open>
  C6. The header cache is transparent: for any cache that is sound for the senders'
  hashes, of any size and however old, and any sequence of messages from well-hashed
  senders on any endpoints, every message parses to the same outcome as without a cache
  (up to the header-changed flag), and the cache stays sound.
\<close>

theorem header_cache_transparent:
  assumes "cache_sound L raw H E c" and "\<forall>(parts, ep) \<in> set ms. well_hashed L raw H E parts ep"
  shows "map (res_map strip_changed) (fst (parse_stream L raw c ms))
      = map (\<lambda>(parts, ep). res_map strip_changed (fst (parse_message L parts ep lhm_void raw))) ms
    \<and> cache_sound L raw H E (snd (parse_stream L raw c ms))"
  using assms
proof (induction ms arbitrary: c)
  case Nil
  then show ?case by simp
next
  case (Cons m ms)
  obtain parts ep where m: "m = (parts, ep)" by (cases m)
  obtain r c' where r: "parse_message L parts ep c raw = (r, c')" by (cases "parse_message L parts ep c raw")
  have "well_hashed L raw H E parts ep" using Cons.prems(2) m by simp
  from parse_message_cached [OF Cons.prems(1) this] r
  have c': "res_map strip_changed r = res_map strip_changed (fst (parse_message L parts ep lhm_void raw))"
      "cache_sound L raw H E c'" by simp_all
  obtain rs c'' where rs: "parse_stream L raw c' ms = (rs, c'')" by (cases "parse_stream L raw c' ms")
  from Cons.IH [OF c'(2)] Cons.prems(2) c'(1) m r rs show ?case by simp
qed

text \<open>The JSON of the witnesses: frame \<open>[1]\<close> is a main header, frame \<open>[2]\<close> a data header.\<close>

definition demo_main :: header where
  "demo_main = [''htype'' \<mapsto> JString HTYPE, ''hash'' \<mapsto> JString ''h'', ''pulse_id'' \<mapsto> JNumber (JInt 7)]"

definition demo_header :: header where
  "demo_header = [''channels'' \<mapsto> JArray []]"

definition demo_ext :: ext where
  "demo_ext = ref_ext\<lparr>json_from_slice := (\<lambda>bs.
     if bs = [1] then Inr demo_main else if bs = [2] then Inr demo_header
     else Inl (InvalidData, ''expected value''))\<rparr>"

lemma demo_hash: "msg_hash demo_main = Ok ''h''"
  by (simp add: msg_hash_def demo_main_def get_str_def)

lemma demo_decode: "decode_data_header demo_ext demo_main [2] False = Ok (demo_header, [])"
  by (simp add: decode_data_header_def dh_compression_def demo_main_def decompress_data_def decode_json_def
      demo_ext_def parse_channels_def demo_header_def)

lemma demo_well_hashed:
  assumes "set_option ep \<subseteq> {''tcp''}"
  shows "well_hashed demo_ext False [''h'' \<mapsto> demo_header] {''tcp''} [[1], [2]] ep"
proof -
  have "decode_json demo_ext [1] = Ok demo_main" by (simp add: decode_json_def demo_ext_def)
  with assms demo_hash demo_decode show ?thesis by (simp add: well_hashed_def)
qed

theorem header_cache_transparent_witness:
  "map (res_map strip_changed) (fst (parse_stream demo_ext False (lhm_new 1)
       [([[1], [2]], Some ''tcp''), ([[1], [2]], None), ([[1]], None)]))
   = map (\<lambda>(parts, ep). res_map strip_changed (fst (parse_message demo_ext parts ep lhm_void False)))
       [([[1], [2]], Some ''tcp''), ([[1], [2]], None), ([[1]], None)]"
proof -
  have "well_hashed demo_ext False [''h'' \<mapsto> demo_header] {''tcp''} [[1]] None"
    by (simp add: well_hashed_def)
  with demo_well_hashed have "\<forall>(parts, ep) \<in> set [([[1], [2]], Some ''tcp''), ([[1], [2]], None), ([[1]], None)].
      well_hashed demo_ext False [''h'' \<mapsto> demo_header] {''tcp''} parts ep"
    by simp
  from header_cache_transparent [OF cache_sound_new this] show ?thesis by blast
qed

lemma parse_data_fields:
  assumes "parse_data L parts mh h gts raw dh chs changed = Ok (m, l)" and "msg_hash mh = Ok h"
  shows "m_header_changed m = Some changed \<and> m_hash m = h \<and> m_data_header m = dh"
  using assms by (auto simp: parse_data_def res_simps split: if_splits dest!: message_new_fields)

lemma message_headers_new:
  "message_headers L mh blob ep c h raw = Ok (dh, chs, True) \<Longrightarrow> parse_channels L dh raw = Ok chs"
  by (auto simp: message_headers_def res_simps decode_data_header_parses split: option.splits)

lemma parse_message_new:
  assumes "parse_message L parts ep c raw = (Ok m, c')" and "m_header_changed m = Some True"
  shows "\<exists>chs. c' = lhm_insert c (case ep of Some e \<Rightarrow> e | None \<Rightarrow> m_hash m)
      \<lparr>dhi_hash = m_hash m, dhi_data_header = m_data_header m, dhi_channels = chs\<rparr>"
proof -
  from assms(1) obtain l where l: "parse_body L parts ep c raw = Ok (m, l)"
      and c': "c' = (case l of None \<Rightarrow> c | Some x \<Rightarrow> lhm_insert c (case ep of Some e \<Rightarrow> e | None \<Rightarrow> dhi_hash x) x)"
    by (auto simp: parse_message_def split: res.splits option.splits)
  from l obtain mh h ts dh chs ch where h: "msg_hash mh = Ok h"
      and hd: "message_headers L mh (parts ! 1) ep c h raw = Ok (dh, chs, ch)"
      and d: "parse_data L parts mh h ts raw dh chs ch = Ok (m, l)"
    by (auto simp: parse_body_def res_simps split: if_splits)
  note f = parse_data_fields [OF d h]
  with assms(2) have ch: "ch" by simp
  with hd have p: "parse_channels L dh raw = Ok chs" by (auto dest: message_headers_new)
  from d ch have "l = Some \<lparr>dhi_hash = h, dhi_data_header = dh, dhi_channels = chs\<rparr>"
    by (auto simp: parse_data_changed [OF p] res_simps)
  with c' f show ?thesis by (cases ep) auto
qed

lemma demo_parse:
  "\<exists>m c'. parse_message demo_ext [[1], [2]] (Some ''tcp'') (lhm_new 1) False = (Ok m, c')
    \<and> m_header_changed m = Some True \<and> m_hash m = ''h'' \<and> m_data_header m = demo_header \<and> m_id m = 7"
proof -
  let ?body = "parse_body demo_ext [[1], [2]] (Some ''tcp'') (lhm_new 1 :: header_cache) False"
  have "decode_json demo_ext [1] = Ok demo_main" by (simp add: decode_json_def demo_ext_def)
  moreover have "msg_timestamp demo_ext demo_main = Ok (0, 0)" by (simp add: msg_timestamp_def demo_main_def)
  moreover have "cached_header (lhm_new 1) (Some ''tcp'') ''h'' = None"
    by (simp add: cached_header_def lhm_get_def lhm_new_def)
  moreover have p: "parse_channels demo_ext demo_header False = Ok []"
    using demo_decode by (rule decode_data_header_parses)
  ultimately obtain m l where "?body = Ok (m, Some l)" "m_header_changed m = Some True"
      "m_hash m = ''h''" "m_data_header m = demo_header" "m_id m = 7"
    by (simp add: parse_body_def demo_hash message_headers_def demo_decode parse_data_def message_new_def
        msg_htype_def msg_id_def dh_compression_def clone_data_header_info_def)
      (simp add: demo_main_def get_str_def HTYPE_def demo_ext_def ref_ext_def)
  then show ?thesis by (simp add: parse_message_def)
qed

text \<open>
  A new data header is stored once: after a message that brought a new header, in a
  cache with room for an entry, the next message with the same hash from the same place
  finds it, and its header counts as unchanged.
\<close>

lemma new_header_is_cached:
  assumes "lhm_ok c" and "0 < lhm_max c"
    and "parse_message L parts ep c raw = (Ok m, c')" and "m_header_changed m = Some True"
  shows "\<exists>info. cached_header c' ep (m_hash m) = Some info \<and> dhi_data_header info = m_data_header m
    \<and> dhi_hash info = m_hash m
    \<and> message_headers L mh blob ep c' (m_hash m) raw = Ok (m_data_header m, dhi_channels info, False)"
proof -
  let ?k = "case ep of Some e \<Rightarrow> e | None \<Rightarrow> m_hash m"
  from parse_message_new [OF assms(3,4)] obtain chs where
    c': "c' = lhm_insert c ?k \<lparr>dhi_hash = m_hash m, dhi_data_header = m_data_header m, dhi_channels = chs\<rparr>"
    by blast
  from lhm.get_put_same [OF assms(1,2)]
  have "lhm_get c' ?k = Some \<lparr>dhi_hash = m_hash m, dhi_data_header = m_data_header m, dhi_channels = chs\<rparr>"
    unfolding c' .
  then have "cached_header c' ep (m_hash m)
      = Some \<lparr>dhi_hash = m_hash m, dhi_data_header = m_data_header m, dhi_channels = chs\<rparr>"
    by (cases ep) (simp_all add: cached_header_def)
  then show ?thesis by (simp add: message_headers_def)
qed

end
