(* ===== verification/Bs_Sockets.thy ===== *)
theory Bs_Sockets
  imports Bs_Helpers
begin

section \<open>Sockets (src/src/sockets.rs)\<close>

text \<open>
  Transports and their endpoint strings, socket options, the monitor of endpoint states,
  and the tracked sockets a receiver holds.  A zmq socket is a value of a type \<open>'s\<close> and
  the zmq crate is the record \<open>'s zmq\<close> of the operations the crate calls, a parameter: each
  returns the socket's new state and the error it reports, if any.
\<close>

subsection \<open>The zmq interface\<close>

datatype socket_type = PUB | SUB | PUSH | PULL | PAIR_socket

datatype sock_opt =
    OptLinger i32 | OptRcvhwm i32 | OptSndhwm i32
  | OptTcpKeepalive i32 | OptTcpKeepaliveIdle i32 | OptTcpKeepaliveIntvl i32 | OptTcpKeepaliveCnt i32
  | OptHeartbeatIvl i32 | OptHeartbeatTimeout i32 | OptHeartbeatTtl i32

record 's zmq =
  z_new :: "socket_type \<Rightarrow> io_error + 's"
  z_recv :: "'s \<Rightarrow> 's \<times> (io_error + byte list list)"
  z_poll :: "'s list \<Rightarrow> io_error + bool list"
  z_send :: "'s \<Rightarrow> byte list \<Rightarrow> i32 \<Rightarrow> 's \<times> io_error option"
  z_bind :: "'s \<Rightarrow> string \<Rightarrow> 's \<times> io_error option"
  z_unbind :: "'s \<Rightarrow> string \<Rightarrow> 's \<times> io_error option"
  z_connect :: "'s \<Rightarrow> string \<Rightarrow> 's \<times> io_error option"
  z_disconnect :: "'s \<Rightarrow> string \<Rightarrow> 's \<times> io_error option"
  z_subscribe :: "'s \<Rightarrow> byte list \<Rightarrow> 's \<times> io_error option"
  z_set :: "'s \<Rightarrow> sock_opt \<Rightarrow> 's \<times> io_error option"
  z_monitor :: "'s \<Rightarrow> string \<Rightarrow> 's \<times> io_error option"
  z_socket_type :: "'s \<Rightarrow> io_error + socket_type"
  z_last_endpoint :: "'s \<Rightarrow> string option"

text \<open>\<open>zmq::DONTWAIT\<close> and \<open>zmq::SNDMORE\<close>.\<close>

definition DONTWAIT :: i32 where
  "DONTWAIT = 1"

definition SNDMORE :: i32 where
  "SNDMORE = 2"

text \<open>A sequence of operations with \<open>?\<close> after each: it stops at the first error.\<close>

fun run_all :: "('s \<Rightarrow> 'x \<Rightarrow> 's \<times> 'e option) \<Rightarrow> 's \<Rightarrow> 'x list \<Rightarrow> 's \<times> 'e option" where
  "run_all f s [] = (s, None)"
| "run_all f s (x # xs) =
     (case f s x of (s', None) \<Rightarrow> run_all f s' xs | (s', Some e) \<Rightarrow> (s', Some e))"

lemma run_all_append:
  "run_all f s (xs @ ys) =
     (case run_all f s xs of (s', None) \<Rightarrow> run_all f s' ys | (s', Some e) \<Rightarrow> (s', Some e))"
  by (induction xs arbitrary: s) (auto split: prod.splits option.splits)

subsection \<open>Strings\<close>

text \<open>\<open>str::strip_prefix\<close>, \<open>str::contains\<close>, \<open>str::rsplit_once\<close>, \<open>str::parse::<u32>\<close>.\<close>

fun starts_with :: "string \<Rightarrow> string \<Rightarrow> bool" where
  "starts_with [] s = True"
| "starts_with (p # ps) [] = False"
| "starts_with (p # ps) (c # cs) = (p = c \<and> starts_with ps cs)"

definition strip_prefix :: "string \<Rightarrow> string \<Rightarrow> string option" where
  "strip_prefix p s = (if starts_with p s then Some (drop (length p) s) else None)"

fun contains :: "string \<Rightarrow> string \<Rightarrow> bool" where
  "contains p [] = (p = [])"
| "contains p (c # cs) = (starts_with p (c # cs) \<or> contains p cs)"

fun rsplit_once :: "string \<Rightarrow> string \<Rightarrow> (string \<times> string) option" where
  "rsplit_once p [] = (if p = [] then Some ([], []) else None)"
| "rsplit_once p (c # cs) =
     (case rsplit_once p cs of
        Some (a, b) \<Rightarrow> Some (c # a, b)
      | None \<Rightarrow> if starts_with p (c # cs) then Some ([], drop (length p) (c # cs)) else None)"

definition digit_value :: "char \<Rightarrow> nat option" where
  "digit_value c = (if 48 \<le> (of_char c :: nat) \<and> (of_char c :: nat) \<le> 57 then Some (of_char c - 48) else None)"

fun parse_digits :: "nat \<Rightarrow> string \<Rightarrow> nat option" where
  "parse_digits acc [] = Some acc"
| "parse_digits acc (c # cs) =
     (case digit_value c of
        None \<Rightarrow> None
      | Some d \<Rightarrow> if acc * 10 + d < 2 ^ 32 then parse_digits (acc * 10 + d) cs else None)"

definition parse_u32 :: "string \<Rightarrow> u32 option" where
  "parse_u32 s =
     (let digits = (case s of c # cs \<Rightarrow> if c = CHR ''+'' then cs else s | [] \<Rightarrow> [])
      in if digits = [] then None else map_option word_of_nat (parse_digits 0 digits))"

subsection \<open>Transport\<close>

datatype transport = Tcp u32 "string option" | Ipc "string option"

definition IPC_FILE_PREFIX :: string where
  "IPC_FILE_PREFIX = ''/bsread_icp_''"

definition local_address :: string where
  "local_address = ''0.0.0.0''"

definition ipc_feeds_folder :: string where
  "ipc_feeds_folder = ''/tmp''"

text \<open>\<open>app\<close> is the name of the running program, the result of \<open>app_name\<close>.\<close>

definition transport_endpoint :: "string option \<Rightarrow> transport \<Rightarrow> string" where
  "transport_endpoint app tr =
     (case tr of
        Tcp port host \<Rightarrow>
          let host = (case host of Some h \<Rightarrow> h | None \<Rightarrow> local_address)
          in if contains ''://'' host then host @ '':'' @ show_nat (unat port)
             else ''tcp://'' @ host @ '':'' @ show_nat (unat port)
      | Ipc name \<Rightarrow>
          let suffix = (case name of
                None \<Rightarrow> (case app of None \<Rightarrow> ''test'' | Some a \<Rightarrow> a)
              | Some s \<Rightarrow> s)
          in ''ipc://'' @ ipc_feeds_folder @ IPC_FILE_PREFIX @ suffix)"

definition from_endpoint :: "string \<Rightarrow> string + transport" where
  "from_endpoint endpoint =
     (case strip_prefix ''tcp://'' endpoint of
        Some rest \<Rightarrow>
          (case rsplit_once '':'' rest of
             None \<Rightarrow> Inl (''Invalid TCP endpoint: '' @ endpoint)
           | Some (host, port_str) \<Rightarrow>
               (case parse_u32 port_str of
                  None \<Rightarrow> Inl (''Invalid TCP port: '' @ port_str)
                | Some port \<Rightarrow> Inr (Tcp port (if host = local_address then None else Some host))))
      | None \<Rightarrow>
          (case strip_prefix ''ipc://'' endpoint of
             Some rest \<Rightarrow>
               (case rsplit_once IPC_FILE_PREFIX rest of
                  None \<Rightarrow> Inl (''Invalid IPC endpoint: '' @ endpoint)
                | Some (_, name) \<Rightarrow> Inr (Ipc (Some name)))
           | None \<Rightarrow> Inl (''Unsupported endpoint: '' @ endpoint)))"

lemma starts_with_append [simp]: "starts_with p (p @ s)"
  by (induction p) auto

lemma strip_prefix_append [simp]: "strip_prefix p (p @ s) = Some s"
  by (simp add: strip_prefix_def)

lemma rsplit_once_None: "p \<noteq> [] \<Longrightarrow> \<not> contains p s \<Longrightarrow> rsplit_once p s = None"
  by (induction s) (auto split: option.splits)

lemma rsplit_once_found:
  assumes "p = c # cs" and "\<not> contains p (cs @ b)"
  shows "rsplit_once p (a @ p @ b) = Some (a, b)"
proof -
  have "rsplit_once p (p @ b) = Some ([], b)"
    using rsplit_once_None [of p "cs @ b"] assms starts_with_append [of p b] by auto
  then show ?thesis by (induction a) auto
qed

lemma parse_digits_append:
  "parse_digits acc (xs @ ys) = Option.bind (parse_digits acc xs) (\<lambda>a. parse_digits a ys)"
  by (induction xs arbitrary: acc) (auto split: option.splits)

lemma digit_value_char: "d < 10 \<Longrightarrow> digit_value (digit_char d) = Some d"
  by (simp add: digit_value_def digit_char_def of_char_of)

lemma parse_digits_show_nat: "n < 2 ^ 32 \<Longrightarrow> parse_digits 0 (show_nat n) = Some n"
proof (induction n rule: show_nat.induct)
  case (1 n)
  show ?case
  proof (cases "n < 10")
    case True
    then show ?thesis by (subst show_nat.simps) (simp add: digit_value_char)
  next
    case False
    then have "parse_digits 0 (show_nat (n div 10)) = Some (n div 10)" using 1 by simp
    with False "1.prems" show ?thesis
      by (subst show_nat.simps) (simp add: parse_digits_append digit_value_char)
  qed
qed

lemma digit_char_not: "d < 10 \<Longrightarrow> digit_char d \<noteq> CHR ''+'' \<and> digit_char d \<noteq> CHR '':''"
  using digit_value_char [of d] by (auto simp: digit_value_def)

lemma show_nat_chars: "c \<in> set (show_nat n) \<Longrightarrow> c \<noteq> CHR ''+'' \<and> c \<noteq> CHR '':''"
proof (induction n rule: show_nat.induct)
  case (1 n)
  then show ?case
    by (subst (asm) (2) show_nat.simps) (auto simp: digit_char_not split: if_splits)
qed

lemma parse_u32_show: "parse_u32 (show_nat (unat w)) = Some w"
proof -
  have "unat w < 2 ^ 32" using unsigned_less [of w] by simp
  note p = parse_digits_show_nat [OF this]
  obtain c cs where s: "show_nat (unat w) = c # cs" using show_nat_nonempty by (cases "show_nat (unat w)") auto
  then have "c \<noteq> CHR ''+''" using show_nat_chars [of c "unat w"] by auto
  with p s show ?thesis by (simp add: parse_u32_def)
qed

lemma contains_single: "contains [c] s \<longleftrightarrow> c \<in> set s"
  by (induction s) auto

text \<open>The transports an endpoint string can name.\<close>

fun canonical_transport :: "transport \<Rightarrow> bool" where
  "canonical_transport (Tcp port None) = True"
| "canonical_transport (Tcp port (Some host)) = (host \<noteq> local_address \<and> \<not> contains ''://'' host)"
| "canonical_transport (Ipc None) = False"
| "canonical_transport (Ipc (Some name)) = (\<not> contains IPC_FILE_PREFIX name)"

lemma from_endpoint_tcp:
  "from_endpoint (''tcp://'' @ host @ '':'' @ show_nat (unat port))
     = Inr (Tcp port (if host = local_address then None else Some host))"
proof -
  have "\<not> contains '':'' ([] @ show_nat (unat port))"
    using show_nat_chars [of "CHR '':''" "unat port"] by (auto simp: contains_single)
  from rsplit_once_found [OF refl this]
  have "rsplit_once '':'' (host @ '':'' @ show_nat (unat port)) = Some (host, show_nat (unat port))" .
  then show ?thesis
    unfolding from_endpoint_def strip_prefix_append by (simp add: parse_u32_show)
qed

lemma from_endpoint_ipc:
  assumes "\<not> contains IPC_FILE_PREFIX name"
  shows "from_endpoint (''ipc://'' @ ipc_feeds_folder @ IPC_FILE_PREFIX @ name) = Inr (Ipc (Some name))"
proof -
  have "\<not> contains IPC_FILE_PREFIX (tl IPC_FILE_PREFIX @ name)"
    using assms by (simp add: IPC_FILE_PREFIX_def)
  moreover have "IPC_FILE_PREFIX = CHR ''/'' # tl IPC_FILE_PREFIX" by (simp add: IPC_FILE_PREFIX_def)
  ultimately have "rsplit_once IPC_FILE_PREFIX (ipc_feeds_folder @ IPC_FILE_PREFIX @ name)
      = Some (ipc_feeds_folder, name)"
    by (intro rsplit_once_found)
  moreover have "strip_prefix ''tcp://'' (''ipc://'' @ s) = None" for s
    by (simp add: strip_prefix_def)
  ultimately show ?thesis
    unfolding from_endpoint_def strip_prefix_append by simp
qed

text \<open>
  Round trip of endpoint strings: a TCP transport with the default or any other host
  that is not itself a URL, and a named IPC transport, are recovered from their endpoint
  string.
\<close>

lemma transport_roundtrip:
  assumes "canonical_transport tr"
  shows "from_endpoint (transport_endpoint app tr) = Inr tr"
proof (cases tr)
  case (Tcp port host)
  have "\<not> contains ''://'' local_address" by (simp add: local_address_def)
  with assms Tcp show ?thesis
    by (cases host) (simp_all add: transport_endpoint_def from_endpoint_tcp [simplified])
next
  case (Ipc name)
  with assms show ?thesis
    using from_endpoint_ipc by (cases name) (simp_all add: transport_endpoint_def)
qed

text \<open>
  An unnamed IPC transport is bound under the name of the program, and its endpoint names
  that transport: an application's name holds no slash, so it cannot hold the prefix.
\<close>

lemma starts_with_mem: "starts_with p s \<Longrightarrow> set p \<subseteq> set s"
  by (induction p s rule: starts_with.induct) auto

lemma contains_mem: "contains p s \<Longrightarrow> set p \<subseteq> set s"
  by (induction s) (auto dest: subsetD [OF starts_with_mem])

lemma app_endpoint_roundtrip:
  "from_endpoint (transport_endpoint (app_name exe) (Ipc None))
     = Inr (Ipc (Some (case app_name exe of None \<Rightarrow> ''test'' | Some a \<Rightarrow> a)))"
proof -
  have "\<not> contains IPC_FILE_PREFIX a" if "CHR ''/'' \<notin> set a" for a
    using that contains_mem [of IPC_FILE_PREFIX a] by (auto simp: IPC_FILE_PREFIX_def)
  then have "\<not> contains IPC_FILE_PREFIX (case app_name exe of None \<Rightarrow> ''test'' | Some a \<Rightarrow> a)"
    using app_name_plain(2) [of exe]
    by (cases "app_name exe") (simp_all del: contains.simps)
  then show ?thesis
    using from_endpoint_ipc unfolding transport_endpoint_def by simp
qed

text \<open>No endpoint is the hash of a data header.\<close>

lemma endpoint_not_hash: "hash_md5 L bs \<noteq> transport_endpoint app tr"
proof -
  have "CHR '':'' \<in> set (transport_endpoint app tr)"
    unfolding transport_endpoint_def by (cases tr) (simp_all add: Let_def)
  moreover have "CHR '':'' \<notin> set (hash_md5 L bs)"
    using hash_md5_chars [of L bs] by auto
  ultimately show ?thesis by metis
qed

subsection \<open>Socket options\<close>

record keep_alive =
  ka_idle :: i32
  ka_intvl :: i32
  ka_cnt :: i32

record heartbeat =
  hb_ivl :: i32
  hb_timeout :: i32
  hb_ttl :: i32

record socket_options =
  so_linger :: "i32 option"
  so_rcvhwm :: "i32 option"
  so_sndhwm :: "i32 option"
  so_keepalive :: "keep_alive option"
  so_heartbeat :: "heartbeat option"

definition socket_options_new :: socket_options where
  "socket_options_new = \<lparr>so_linger = None, so_rcvhwm = None, so_sndhwm = None, so_keepalive = None, so_heartbeat = None\<rparr>"

definition is_socket_ipc :: "'s zmq \<Rightarrow> 's \<Rightarrow> bool" where
  "is_socket_ipc z s = (case z_last_endpoint z s of Some ep \<Rightarrow> starts_with ''ipc://'' ep | None \<Rightarrow> False)"

definition set_socket_keepalive :: "'s zmq \<Rightarrow> 's \<Rightarrow> keep_alive \<Rightarrow> 's \<times> io_error option" where
  "set_socket_keepalive z s ka =
     (if \<not> is_socket_ipc z s
      then run_all (z_set z) s [OptTcpKeepalive 1, OptTcpKeepaliveIdle (ka_idle ka),
             OptTcpKeepaliveIntvl (ka_intvl ka), OptTcpKeepaliveCnt (ka_cnt ka)]
      else (s, None))"

definition set_socket_heartbeat :: "'s zmq \<Rightarrow> 's \<Rightarrow> heartbeat \<Rightarrow> 's \<times> io_error option" where
  "set_socket_heartbeat z s hb =
     run_all (z_set z) s [OptHeartbeatIvl (hb_ivl hb), OptHeartbeatTimeout (hb_timeout hb), OptHeartbeatTtl (hb_ttl hb)]"

definition if_some :: "('s \<Rightarrow> 'x \<Rightarrow> 's \<times> 'e option) \<Rightarrow> 'x option \<Rightarrow> 's \<Rightarrow> 's \<times> 'e option" where
  "if_some f x s = (case x of Some v \<Rightarrow> f s v | None \<Rightarrow> (s, None))"

definition socket_options_set :: "'s zmq \<Rightarrow> socket_options \<Rightarrow> 's \<Rightarrow> 's \<times> io_error option" where
  "socket_options_set z opts s =
     run_all (\<lambda>s f. f s) s
       [if_some (\<lambda>s v. z_set z s (OptLinger v)) (so_linger opts),
        if_some (\<lambda>s v. z_set z s (OptRcvhwm v)) (so_rcvhwm opts),
        if_some (\<lambda>s v. z_set z s (OptSndhwm v)) (so_sndhwm opts),
        if_some (set_socket_keepalive z) (so_keepalive opts),
        if_some (set_socket_heartbeat z) (so_heartbeat opts)]"

text \<open>The loops of \<open>SocketConfig\<close> over the sockets of a sender or receiver.\<close>

fun each_socket :: "('s \<Rightarrow> 's \<times> 'e option) \<Rightarrow> 's list \<Rightarrow> 's list \<times> 'e option" where
  "each_socket f [] = ([], None)"
| "each_socket f (s # ss) =
     (case f s of
        (s', None) \<Rightarrow> (let (ss', e) = each_socket f ss in (s' # ss', e))
      | (s', Some e) \<Rightarrow> (s' # ss, Some e))"

definition set_options :: "'s zmq \<Rightarrow> socket_options \<Rightarrow> 's list \<Rightarrow> 's list \<times> io_error option" where
  "set_options z opts ss = each_socket (socket_options_set z opts) ss"

definition set_linger :: "'s zmq \<Rightarrow> i32 \<Rightarrow> 's list \<Rightarrow> 's list \<times> io_error option" where
  "set_linger z v ss = each_socket (\<lambda>s. z_set z s (OptLinger v)) ss"

definition set_rcvhwm :: "'s zmq \<Rightarrow> i32 \<Rightarrow> 's list \<Rightarrow> 's list \<times> io_error option" where
  "set_rcvhwm z v ss = each_socket (\<lambda>s. z_set z s (OptRcvhwm v)) ss"

definition set_sndhwm :: "'s zmq \<Rightarrow> i32 \<Rightarrow> 's list \<Rightarrow> 's list \<times> io_error option" where
  "set_sndhwm z v ss = each_socket (\<lambda>s. z_set z s (OptSndhwm v)) ss"

definition set_keepalive :: "'s zmq \<Rightarrow> keep_alive \<Rightarrow> 's list \<Rightarrow> 's list \<times> io_error option" where
  "set_keepalive z ka ss = each_socket (\<lambda>s. set_socket_keepalive z s ka) ss"

definition set_heartbeat :: "'s zmq \<Rightarrow> heartbeat \<Rightarrow> 's list \<Rightarrow> 's list \<times> io_error option" where
  "set_heartbeat z hb ss = each_socket (\<lambda>s. set_socket_heartbeat z s hb) ss"

subsection \<open>The endpoint monitor\<close>

datatype endpoint_state = Connecting | Connected | Disconnected

datatype endpoint_diag =
    DiagMessages | DiagErrors | RepeatedId | NonPositiveId | DecreasingId | OutOfRangeId
  | SocketError | ParsingError | DecompressionError | HeaderChange

definition ALL_DIAGS :: "endpoint_diag list" where
  "ALL_DIAGS = [DiagMessages, DiagErrors, RepeatedId, NonPositiveId, DecreasingId, OutOfRangeId,
     SocketError, ParsingError, DecompressionError, HeaderChange]"

datatype endpoint_event = EvState string endpoint_state | EvDiagnostic string endpoint_diag

fun event_endpoint :: "endpoint_event \<Rightarrow> string" where
  "event_endpoint (EvState ep _) = ep"
| "event_endpoint (EvDiagnostic ep _) = ep"

datatype socket_event =
    SE_CONNECTED | SE_CONNECT_DELAYED | SE_CONNECT_RETRIED | SE_LISTENING | SE_BIND_FAILED
  | SE_ACCEPTED | SE_ACCEPT_FAILED | SE_CLOSED | SE_CLOSE_FAILED | SE_DISCONNECTED
  | SE_MONITOR_STOPPED | SE_HANDSHAKE_FAILED_NO_DETAIL | SE_HANDSHAKE_SUCCEEDED
  | SE_HANDSHAKE_FAILED_PROTOCOL | SE_HANDSHAKE_FAILED_AUTH | SE_ALL

fun event_state :: "socket_event \<Rightarrow> endpoint_state option" where
  "event_state SE_CONNECTED = Some Connecting"
| "event_state SE_CONNECT_DELAYED = Some Connecting"
| "event_state SE_CONNECT_RETRIED = Some Connecting"
| "event_state SE_HANDSHAKE_SUCCEEDED = Some Connected"
| "event_state SE_DISCONNECTED = Some Disconnected"
| "event_state SE_HANDSHAKE_FAILED_NO_DETAIL = Some Disconnected"
| "event_state SE_HANDSHAKE_FAILED_PROTOCOL = Some Disconnected"
| "event_state SE_HANDSHAKE_FAILED_AUTH = Some Disconnected"
| "event_state _ = None"

text \<open>
  The two frames a monitor socket delivers; \<open>from_raw\<close> is the zmq crate's decoding of the
  event number (it panics on a number it does not know).  The last four bytes of the value
  are read, and indexed, although the value is not used.
\<close>

definition decode_monitor_event ::
  "ext \<Rightarrow> (u16 \<Rightarrow> socket_event res) \<Rightarrow> io_error + byte list \<Rightarrow> io_error + byte list
   \<Rightarrow> (socket_event \<times> endpoint_event option) res" where
  "decode_monitor_event L from_raw frame1 frame2 =
     res_bind (of_sum frame1) (\<lambda>data.
       if length data < 2 then Err (InvalidInput, ''Invalid argument'')
       else
         res_bind (from_raw (word_of_nat (bytes_to_nat (native_endian L) (take 2 data)))) (\<lambda>ev.
         if length data < 6 then Panic
         else
           res_bind (of_sum frame2) (\<lambda>ep_bytes.
             let endpoint = (if utf8_valid ep_bytes then bytes_str ep_bytes else [])
             in Ok (ev, map_option (EvState endpoint) (event_state ev)))))"

record monitor_entry =
  me_endpoint :: "string option"
  me_rec_index :: u32
  me_index :: u32

datatype monitor_command = MonAdd monitor_entry | MonRemove u32 | MonShutdown

text \<open>
  The monitor thread: its list of monitors, the shared table of states, and the events it
  has sent, each with the key of the table it was about.
\<close>

record monitor_sys =
  ms_monitors :: "monitor_entry list"
  ms_states :: "string \<Rightarrow> endpoint_state option"
  ms_sent :: "(string \<times> endpoint_event) list"
  ms_running :: bool

definition monitor_new :: monitor_sys where
  "monitor_new = \<lparr>ms_monitors = [], ms_states = Map.empty, ms_sent = [], ms_running = True\<rparr>"

text \<open>\<open>iter().position(..)\<close> followed by \<open>Vec::remove\<close>.\<close>

fun remove_first :: "('a \<Rightarrow> bool) \<Rightarrow> 'a list \<Rightarrow> ('a \<times> 'a list) option" where
  "remove_first P [] = None"
| "remove_first P (x # xs) =
     (if P x then Some (x, xs)
      else case remove_first P xs of Some (y, ys) \<Rightarrow> Some (y, x # ys) | None \<Rightarrow> None)"

fun apply_command :: "monitor_command \<Rightarrow> monitor_sys \<Rightarrow> monitor_sys" where
  "apply_command (MonAdd entry) s = s\<lparr>ms_monitors := ms_monitors s @ [entry]\<rparr>"
| "apply_command (MonRemove i) s =
     (case remove_first (\<lambda>m. me_index m = i) (ms_monitors s) of
        None \<Rightarrow> s
      | Some (entry, rest) \<Rightarrow>
          s\<lparr>ms_monitors := rest,
            ms_states := (case me_endpoint entry of
                Some ep \<Rightarrow> (ms_states s)(ep := None) | None \<Rightarrow> ms_states s)\<rparr>)"
| "apply_command MonShutdown s = s\<lparr>ms_running := False\<rparr>"

fun monitor_event :: "monitor_entry \<Rightarrow> endpoint_event \<Rightarrow> monitor_sys \<Rightarrow> monitor_sys" where
  "monitor_event m (EvState ep state) s =
     (let endpoint = (case me_endpoint m of Some e \<Rightarrow> e | None \<Rightarrow> ep)
      in if ms_states s endpoint \<noteq> Some state
         then s\<lparr>ms_states := (ms_states s)(endpoint \<mapsto> state),
                ms_sent := ms_sent s @ [(endpoint, EvState ep state)]\<rparr>
         else s)"
| "monitor_event m (EvDiagnostic ep d) s = s"

inductive monitor_step :: "monitor_sys \<Rightarrow> monitor_sys \<Rightarrow> bool" where
  command: "ms_running s \<Longrightarrow> monitor_step s (apply_command c s)"
| event: "ms_running s \<Longrightarrow> i < length (ms_monitors s) \<Longrightarrow>
    monitor_step s (monitor_event (ms_monitors s ! i) e s)"

inductive monitor_reachable :: "monitor_sys \<Rightarrow> bool" where
  init: "monitor_reachable monitor_new"
| step: "monitor_reachable s \<Longrightarrow> monitor_step s t \<Longrightarrow> monitor_reachable t"

inductive_cases monitor_stepE: "monitor_step s t"

text \<open>The states of one key in the order they were sent.\<close>

definition sent_states :: "string \<Rightarrow> (string \<times> endpoint_event) list \<Rightarrow> endpoint_state list" where
  "sent_states k log = List.map_filter (\<lambda>(k', e). case e of EvState _ st \<Rightarrow> if k' = k then Some st else None | _ \<Rightarrow> None) log"

lemma sent_states_append: "sent_states k (xs @ ys) = sent_states k xs @ sent_states k ys"
  by (simp add: sent_states_def map_filter_def)

lemma sent_states_one:
  "sent_states k [(k', EvState ep st)] = (if k' = k then [st] else [])"
  by (simp add: sent_states_def map_filter_def)

definition monitor_inv :: "monitor_sys \<Rightarrow> bool" where
  "monitor_inv s \<longleftrightarrow>
     (\<forall>k st. ms_states s k = Some st \<longrightarrow> sent_states k (ms_sent s) \<noteq> [] \<and> last (sent_states k (ms_sent s)) = st)"

lemma monitor_inv_command: "monitor_inv s \<Longrightarrow> monitor_inv (apply_command c s)"
  by (cases c) (auto simp: monitor_inv_def split: option.splits)

lemma monitor_inv_event: "monitor_inv s \<Longrightarrow> monitor_inv (monitor_event m e s)"
  by (cases e) (auto simp: monitor_inv_def Let_def sent_states_append sent_states_one split: if_splits)

lemma monitor_reachable_inv: "monitor_reachable s \<Longrightarrow> monitor_inv s"
proof (induction rule: monitor_reachable.induct)
  case init
  then show ?case by (simp add: monitor_inv_def monitor_new_def)
next
  case (step s t)
  then show ?case
    by (auto elim!: monitor_stepE intro: monitor_inv_command monitor_inv_event)
qed

text \<open>
  Safety of the endpoint monitor, over every interleaving of registrations, removals
  and socket events: the state table never shows an endpoint in a state its listener was
  not told last.
\<close>

lemma monitor_table_was_sent:
  assumes "monitor_reachable s" and "ms_states s k = Some st"
  shows "sent_states k (ms_sent s) \<noteq> [] \<and> last (sent_states k (ms_sent s)) = st"
  using monitor_reachable_inv [OF assms(1)] assms(2) by (simp add: monitor_inv_def)

subsection \<open>Tracked sockets\<close>

record 's tracked_socket =
  ts_socket :: 's
  ts_endpoints :: "string list"
  ts_rec_index :: u32
  ts_topics :: "string list"
  ts_monitoring :: bool
  ts_index :: u32

text \<open>\<open>index()\<close> counts in a global; \<open>socket\<close> is the outcome of \<open>context.socket\<close>.\<close>

definition tracked_new :: "u32 \<Rightarrow> io_error + 's \<Rightarrow> u32 \<Rightarrow> 's tracked_socket res \<times> u32" where
  "tracked_new counter socket rec_index =
     (case socket of
        Inl e \<Rightarrow> (Err e, counter)
      | Inr s \<Rightarrow>
          (Ok \<lparr>ts_socket = s, ts_endpoints = [], ts_rec_index = rec_index, ts_topics = [],
               ts_monitoring = False, ts_index = counter + 1\<rparr>, counter + 1))"

definition tracked_receive :: "'s zmq \<Rightarrow> 's tracked_socket \<Rightarrow> byte list list res \<times> 's tracked_socket" where
  "tracked_receive z ts =
     (case z_recv z (ts_socket ts) of (s, r) \<Rightarrow> (of_sum r, ts\<lparr>ts_socket := s\<rparr>))"

text \<open>
  \<open>pair\<close> and \<open>paired\<close> are the outcomes of \<open>context.socket(PAIR)\<close> and of connecting it to
  the monitor's address; the result lists the commands sent to the monitor thread.
\<close>

definition enable_monitoring ::
  "'s zmq \<Rightarrow> string \<Rightarrow> io_error option \<Rightarrow> io_error option \<Rightarrow> string option \<Rightarrow> 's tracked_socket
   \<Rightarrow> unit res \<times> 's tracked_socket \<times> monitor_command list" where
  "enable_monitoring z uuid pair paired endpoint ts =
     (if ts_monitoring ts then (Ok (), ts, [])
      else case z_monitor z (ts_socket ts) (''inproc://monitor-'' @ uuid) of
        (s, Some e) \<Rightarrow> (Err e, ts\<lparr>ts_socket := s\<rparr>, [])
      | (s, None) \<Rightarrow>
          (case pair of
             Some e \<Rightarrow> (Err e, ts\<lparr>ts_socket := s\<rparr>, [])
           | None \<Rightarrow>
               (case paired of
                  Some e \<Rightarrow> (Err e, ts\<lparr>ts_socket := s\<rparr>, [])
                | None \<Rightarrow>
                    (Ok (), ts\<lparr>ts_socket := s, ts_monitoring := True\<rparr>,
                     [MonAdd \<lparr>me_endpoint = endpoint, me_rec_index = ts_rec_index ts, me_index = ts_index ts\<rparr>]))))"

definition disable_monitoring ::
  "'s zmq \<Rightarrow> 's tracked_socket \<Rightarrow> unit res \<times> 's tracked_socket \<times> monitor_command list" where
  "disable_monitoring z ts =
     (if \<not> ts_monitoring ts then (Ok (), ts, [])
      else (Ok (), ts\<lparr>ts_socket := fst (z_monitor z (ts_socket ts) []), ts_monitoring := False\<rparr>,
            [MonRemove (ts_index ts)]))"

definition add_topic :: "'s tracked_socket \<Rightarrow> string \<Rightarrow> 's tracked_socket" where
  "add_topic ts topic = ts\<lparr>ts_topics := ts_topics ts @ [topic]\<rparr>"

definition tracked_subscribe :: "'s zmq \<Rightarrow> 's tracked_socket \<Rightarrow> string \<Rightarrow> unit res \<times> 's tracked_socket" where
  "tracked_subscribe z ts topic =
     (case z_subscribe z (ts_socket ts) (str_bytes topic) of
        (s, Some e) \<Rightarrow> (Err e, ts\<lparr>ts_socket := s\<rparr>)
      | (s, None) \<Rightarrow> (Ok (), ts\<lparr>ts_socket := s\<rparr>))"

text \<open>The subscriptions of \<open>connect\<close> are unwrapped: a refused topic is a panic.\<close>

fun subscribe_topics :: "'s zmq \<Rightarrow> 's tracked_socket \<Rightarrow> string list \<Rightarrow> unit res \<times> 's tracked_socket" where
  "subscribe_topics z ts [] = (Ok (), ts)"
| "subscribe_topics z ts (t # topics) =
     (case tracked_subscribe z ts t of
        (Ok _, ts') \<Rightarrow> subscribe_topics z ts' topics
      | (_, ts') \<Rightarrow> (Panic, ts'))"

definition has_endpoint :: "'s tracked_socket \<Rightarrow> string \<Rightarrow> bool" where
  "has_endpoint ts endpoint \<longleftrightarrow> endpoint \<in> set (ts_endpoints ts)"

definition has_any_endpoint :: "'s tracked_socket \<Rightarrow> bool" where
  "has_any_endpoint ts \<longleftrightarrow> ts_endpoints ts \<noteq> []"

definition num_endpoints :: "'s tracked_socket \<Rightarrow> nat" where
  "num_endpoints ts = length (ts_endpoints ts)"

definition tracked_connect :: "'s zmq \<Rightarrow> 's tracked_socket \<Rightarrow> string \<Rightarrow> unit res \<times> 's tracked_socket" where
  "tracked_connect z ts endpoint =
     (if has_endpoint ts endpoint then (Ok (), ts)
      else case z_socket_type z (ts_socket ts) of
        Inl e \<Rightarrow> (Err e, ts)
      | Inr typ \<Rightarrow>
          (case z_connect z (ts_socket ts) endpoint of
             (s, Some e) \<Rightarrow> (Err e, ts\<lparr>ts_socket := s\<rparr>)
           | (s, None) \<Rightarrow>
               (let ts1 = ts\<lparr>ts_socket := s\<rparr>;
                    (r, ts2) =
                      (if typ = SUB
                       then subscribe_topics z ts1 (if ts_topics ts1 = [] then [[]] else ts_topics ts1)
                       else (Ok (), ts1))
                in case r of
                     Ok _ \<Rightarrow> (Ok (), ts2\<lparr>ts_endpoints := ts_endpoints ts2 @ [endpoint]\<rparr>)
                   | _ \<Rightarrow> (r, ts2))))"

text \<open>The index is compared with the length as a \<open>u32\<close>.\<close>

definition tracked_endpoint :: "'s tracked_socket \<Rightarrow> u32 \<Rightarrow> string option" where
  "tracked_endpoint ts i =
     (if (word_of_nat (length (ts_endpoints ts)) :: u32) \<le> i then None else Some (ts_endpoints ts ! unat i))"

definition disconnect_endpoint :: "'s zmq \<Rightarrow> 's tracked_socket \<Rightarrow> string \<Rightarrow> 's tracked_socket" where
  "disconnect_endpoint z ts endpoint =
     (if has_endpoint ts endpoint
      then ts\<lparr>ts_socket := fst (z_disconnect z (ts_socket ts) endpoint),
              ts_endpoints := filter (\<lambda>e. e \<noteq> endpoint) (ts_endpoints ts)\<rparr>
      else ts)"

definition tracked_disconnect :: "'s zmq \<Rightarrow> 's tracked_socket \<Rightarrow> 's tracked_socket" where
  "tracked_disconnect z ts = fold (\<lambda>ep ts. disconnect_endpoint z ts ep) (ts_endpoints ts) ts"

definition tracked_drop :: "'s zmq \<Rightarrow> 's tracked_socket \<Rightarrow> 's tracked_socket" where
  "tracked_drop z ts = (if has_any_endpoint ts then tracked_disconnect z ts else ts)"

definition tracked_transport :: "'s tracked_socket \<Rightarrow> transport option res" where
  "tracked_transport ts =
     (case tracked_endpoint ts 0 of
        Some endpoint \<Rightarrow> (case from_endpoint endpoint of Inr t \<Rightarrow> Ok (Some t) | Inl e \<Rightarrow> Panic)
      | None \<Rightarrow> Ok None)"

subsection \<open>Lemmas on tracked sockets\<close>

lemma subscribe_topics_endpoints:
  "ts_endpoints (snd (subscribe_topics z ts topics)) = ts_endpoints ts"
  by (induction z ts topics rule: subscribe_topics.induct)
    (auto simp: tracked_subscribe_def split: prod.splits res.splits option.splits)

lemma subscribe_topics_not_Err: "fst (subscribe_topics z ts topics) \<noteq> Err e"
  by (induction z ts topics rule: subscribe_topics.induct) (auto split: prod.splits res.splits)

lemma tracked_subscribe_endpoints:
  "tracked_subscribe z (ts\<lparr>ts_socket := s\<rparr>) topic = (r, ts') \<Longrightarrow> ts_endpoints ts' = ts_endpoints ts"
  by (auto simp: tracked_subscribe_def split: prod.splits option.splits)

lemma tracked_connect_endpoints:
  assumes "tracked_connect z ts ep = (r, ts')"
  shows "ts_endpoints ts' = (if r = Ok () \<and> \<not> has_endpoint ts ep then ts_endpoints ts @ [ep] else ts_endpoints ts)"
proof -
  have "ts_endpoints (snd (subscribe_topics z (ts\<lparr>ts_socket := s\<rparr>) topics)) = ts_endpoints ts" for s topics
    by (simp add: subscribe_topics_endpoints)
  then have *: "subscribe_topics z (ts\<lparr>ts_socket := s\<rparr>) topics = (x, ts2) \<Longrightarrow> ts_endpoints ts2 = ts_endpoints ts"
    for s topics x ts2
    by (metis snd_conv)
  show ?thesis
    using assms
    by (auto simp: tracked_connect_def Let_def dest!: * tracked_subscribe_endpoints
        split: if_splits sum.splits prod.splits option.splits res.splits)
qed

lemma disconnect_endpoint_endpoints [simp]:
  "ts_endpoints (disconnect_endpoint z ts ep) = filter (\<lambda>e. e \<noteq> ep) (ts_endpoints ts)"
  by (auto simp: disconnect_endpoint_def has_endpoint_def intro!: filter_True [symmetric])

lemma fold_disconnect:
  "ts_endpoints (fold (\<lambda>ep ts. disconnect_endpoint z ts ep) eps ts) = filter (\<lambda>e. e \<notin> set eps) (ts_endpoints ts)"
  by (induction eps arbitrary: ts) (auto intro: filter_cong)

lemma tracked_disconnect_endpoints: "ts_endpoints (tracked_disconnect z ts) = []"
  by (simp add: tracked_disconnect_def fold_disconnect)

text \<open>
  C32. The endpoint list of a tracked socket, against any zmq: it never holds an endpoint
  twice; a connect adds its endpoint exactly when it succeeds, and does nothing when the
  endpoint is there; a disconnect removes its endpoint and no other, whatever zmq reports;
  a full disconnect leaves none.
\<close>

theorem tracked_socket_spec:
  assumes "distinct (ts_endpoints ts)"
  shows "(case tracked_connect z ts ep of (r, ts') \<Rightarrow>
        distinct (ts_endpoints ts')
        \<and> set (ts_endpoints ts') = (if r = Ok () then insert ep (set (ts_endpoints ts)) else set (ts_endpoints ts))
        \<and> (has_endpoint ts ep \<longrightarrow> r = Ok () \<and> ts' = ts))
    \<and> distinct (ts_endpoints (disconnect_endpoint z ts ep))
    \<and> set (ts_endpoints (disconnect_endpoint z ts ep)) = set (ts_endpoints ts) - {ep}
    \<and> ts_endpoints (tracked_disconnect z ts) = []"
proof -
  obtain r ts' where c: "tracked_connect z ts ep = (r, ts')" by (cases "tracked_connect z ts ep")
  have "has_endpoint ts ep \<Longrightarrow> r = Ok () \<and> ts' = ts" using c by (simp add: tracked_connect_def)
  with tracked_connect_endpoints [OF c] assms c show ?thesis
    by (auto simp: tracked_disconnect_endpoints has_endpoint_def)
qed

text \<open>A zmq whose sockets record the calls made and accept everything.\<close>

definition log_zmq :: "string list zmq" where
  "log_zmq = \<lparr>z_new = (\<lambda>t. Inr []), z_recv = (\<lambda>s. (s, Inl (WouldBlock, ''again''))),
     z_poll = (\<lambda>ss. Inr (map (\<lambda>_. False) ss)), z_send = (\<lambda>s b f. (s @ [''send''], None)), z_bind = (\<lambda>s e. (s @ [e], None)),
     z_unbind = (\<lambda>s e. (s @ [e], None)), z_connect = (\<lambda>s e. (s @ [e], None)),
     z_disconnect = (\<lambda>s e. (s @ [e], None)), z_subscribe = (\<lambda>s t. (s @ [bytes_str t], None)),
     z_set = (\<lambda>s x. (s @ [''set''], None)), z_monitor = (\<lambda>s e. (s @ [e], None)),
     z_socket_type = (\<lambda>s. Inr SUB), z_last_endpoint = (\<lambda>s. None)\<rparr>"

theorem tracked_socket_spec_witness:
  "set (ts_endpoints (disconnect_endpoint log_zmq
      \<lparr>ts_socket = [], ts_endpoints = [''a'', ''b''], ts_rec_index = 1, ts_topics = [], ts_monitoring = False,
       ts_index = 1\<rparr> ''a'')) = {''b''}"
  using tracked_socket_spec [where ts = "\<lparr>ts_socket = [], ts_endpoints = [''a'', ''b''], ts_rec_index = 1, ts_topics = [],
      ts_monitoring = False, ts_index = 1\<rparr>" and z = log_zmq and ep = "''a''"]
  by auto

end
