(* ===== verification/Bs_Monitor.thy ===== *)
theory Bs_Monitor
  imports Bs_Sockets
begin

section \<open>The monitor thread (src/src/sockets.rs)\<close>

text \<open>
  The loop of the thread that \<open>SocketMonitor::new\<close> spawns, one cycle at a time: the commands
  that wait are applied, the monitor sockets are polled, and the readable ones are handled in
  order under the lock of the table of states.  A panic ends the thread, and one inside the
  handling also poisons the lock.  What the thread reports is compared with the sequence of
  states seen for each key of the table.
\<close>

subsection \<open>One cycle\<close>

record monitor_thread =
  mt_sys :: monitor_sys
  mt_poisoned :: bool

definition monitor_thread_new :: monitor_thread where
  "monitor_thread_new = \<lparr>mt_sys = monitor_new, mt_poisoned = False\<rparr>"

definition monitor_ends :: "bool \<Rightarrow> monitor_sys \<Rightarrow> monitor_thread" where
  "monitor_ends poisoned s = \<lparr>mt_sys = s\<lparr>ms_running := False\<rparr>, mt_poisoned = poisoned\<rparr>"

text \<open>\<open>while let Ok(cmd) = cmd_rx.try_recv()\<close>; a shutdown returns at once.\<close>

fun drain_commands :: "monitor_command list \<Rightarrow> monitor_sys \<Rightarrow> monitor_sys" where
  "drain_commands [] s = s"
| "drain_commands (c # cs) s =
     (let s' = apply_command c s in if ms_running s' then drain_commands cs s' else s')"

text \<open>The two frames of a readable monitor socket, or \<open>None\<close> when it is not readable.\<close>

type_synonym monitor_item = "((io_error + byte list) \<times> (io_error + byte list)) option"

fun handle_items ::
  "ext \<Rightarrow> (u16 \<Rightarrow> socket_event res) \<Rightarrow> (monitor_entry \<times> monitor_item) list \<Rightarrow> monitor_sys \<Rightarrow> monitor_thread" where
  "handle_items L from_raw [] s = \<lparr>mt_sys = s, mt_poisoned = False\<rparr>"
| "handle_items L from_raw ((m, None) # xs) s = handle_items L from_raw xs s"
| "handle_items L from_raw ((m, Some (frame1, frame2)) # xs) s =
     (case decode_monitor_event L from_raw frame1 frame2 of
        Ok (_, Some e) \<Rightarrow> handle_items L from_raw xs (monitor_event m e s)
      | Ok (_, None) \<Rightarrow> handle_items L from_raw xs s
      | Err _ \<Rightarrow> handle_items L from_raw xs s
      | Panic \<Rightarrow> monitor_ends True s)"

text \<open>What a cycle meets: the commands that wait, and what the poll answers.\<close>

record monitor_input =
  mi_commands :: "monitor_command list"
  mi_poll :: "io_error + monitor_item list"

definition monitor_cycle ::
  "ext \<Rightarrow> (u16 \<Rightarrow> socket_event res) \<Rightarrow> monitor_input \<Rightarrow> monitor_thread \<Rightarrow> monitor_thread" where
  "monitor_cycle L from_raw i t =
     (if \<not> ms_running (mt_sys t) then t
      else let s = drain_commands (mi_commands i) (mt_sys t) in
        if \<not> ms_running s \<or> ms_monitors s = [] then \<lparr>mt_sys = s, mt_poisoned = False\<rparr>
        else case mi_poll i of
          Inl e \<Rightarrow> monitor_ends False s
        | Inr items \<Rightarrow> handle_items L from_raw (zip (ms_monitors s) items) s)"

definition monitor_run :: "ext \<Rightarrow> (u16 \<Rightarrow> socket_event res) \<Rightarrow> monitor_input list \<Rightarrow> monitor_thread" where
  "monitor_run L from_raw is = fold (monitor_cycle L from_raw) is monitor_thread_new"

text \<open>
  \<open>_monitor_loop\<close>, one turn for one socket: the thread the shared monitor replaced.  It
  does what the shared thread does for an entry with its endpoint (\<open>monitor_loop_same\<close>).
\<close>

definition monitor_loop_turn ::
  "ext \<Rightarrow> (u16 \<Rightarrow> socket_event res) \<Rightarrow> string option \<Rightarrow> io_error + byte list \<Rightarrow> io_error + byte list
   \<Rightarrow> monitor_sys \<Rightarrow> monitor_sys res" where
  "monitor_loop_turn L from_raw endpoint frame1 frame2 s =
     (case decode_monitor_event L from_raw frame1 frame2 of
        Ok (_, Some e) \<Rightarrow>
          (let key = (case endpoint of Some k \<Rightarrow> k | None \<Rightarrow> event_endpoint e) in
           case e of
             EvState ep new_state \<Rightarrow>
               (let should_send = (case ms_states s key of Some old \<Rightarrow> old \<noteq> new_state | None \<Rightarrow> True)
                in Ok (if should_send
                       then s\<lparr>ms_states := (ms_states s)(key \<mapsto> new_state), ms_sent := ms_sent s @ [(key, e)]\<rparr>
                       else s))
           | EvDiagnostic _ _ \<Rightarrow> Ok s)
      | Ok (_, None) \<Rightarrow> Ok s
      | Err _ \<Rightarrow> Ok s
      | Panic \<Rightarrow> Panic)"

text \<open>
  The handle: commands are sent over a channel whose receiving end the thread drops when it
  ends (\<open>send(..).unwrap()\<close>), and the table is read under its lock.
\<close>

definition monitor_send :: "monitor_thread \<Rightarrow> unit res" where
  "monitor_send t = (if ms_running (mt_sys t) then Ok () else Panic)"

definition monitor_endpoint_state :: "monitor_thread \<Rightarrow> string \<Rightarrow> endpoint_state option res" where
  "monitor_endpoint_state t ep = (if mt_poisoned t then Panic else Ok (ms_states (mt_sys t) ep))"

definition monitor_endpoint_states :: "monitor_thread \<Rightarrow> (string \<Rightarrow> endpoint_state option) res" where
  "monitor_endpoint_states t = (if mt_poisoned t then Panic else Ok (ms_states (mt_sys t)))"

subsection \<open>What is seen\<close>

text \<open>
  The history of a run: for each key of the table the states its sockets went through, and
  \<open>None\<close> where its entry was removed.
\<close>

type_synonym history = "(string \<times> endpoint_state option) list"

fun forgotten :: "monitor_command \<Rightarrow> monitor_sys \<Rightarrow> history" where
  "forgotten (MonRemove i) s =
     (case remove_first (\<lambda>m. me_index m = i) (ms_monitors s) of
        Some (entry, _) \<Rightarrow> (case me_endpoint entry of Some ep \<Rightarrow> [(ep, None)] | None \<Rightarrow> [])
      | None \<Rightarrow> [])"
| "forgotten _ s = []"

fun observed :: "monitor_entry \<Rightarrow> endpoint_event \<Rightarrow> history" where
  "observed m (EvState ep st) = [(case me_endpoint m of Some e \<Rightarrow> e | None \<Rightarrow> ep, Some st)]"
| "observed m (EvDiagnostic ep d) = []"

text \<open>
  The history that a run is to account for: the removals among its commands, up to a
  shutdown, and every event a readable monitor socket delivers, up to a panic.
\<close>

fun command_log :: "monitor_command list \<Rightarrow> monitor_sys \<Rightarrow> history" where
  "command_log [] s = []"
| "command_log (c # cs) s =
     forgotten c s @ (if c = MonShutdown then [] else command_log cs (apply_command c s))"

fun item_log :: "ext \<Rightarrow> (u16 \<Rightarrow> socket_event res) \<Rightarrow> (monitor_entry \<times> monitor_item) list \<Rightarrow> history" where
  "item_log L from_raw [] = []"
| "item_log L from_raw ((m, None) # xs) = item_log L from_raw xs"
| "item_log L from_raw ((m, Some (frame1, frame2)) # xs) =
     (case decode_monitor_event L from_raw frame1 frame2 of
        Ok (_, e) \<Rightarrow> (case e of Some e \<Rightarrow> observed m e | None \<Rightarrow> []) @ item_log L from_raw xs
      | Err _ \<Rightarrow> item_log L from_raw xs
      | Panic \<Rightarrow> [])"

definition cycle_log :: "ext \<Rightarrow> (u16 \<Rightarrow> socket_event res) \<Rightarrow> monitor_input \<Rightarrow> monitor_thread \<Rightarrow> history" where
  "cycle_log L from_raw i t =
     (if \<not> ms_running (mt_sys t) then []
      else command_log (mi_commands i) (mt_sys t)
        @ (if MonShutdown \<in> set (mi_commands i) then []
           else case mi_poll i of
             Inl e \<Rightarrow> []
           | Inr items \<Rightarrow> item_log L from_raw (zip (ms_monitors (drain_commands (mi_commands i) (mt_sys t))) items)))"

fun run_log :: "ext \<Rightarrow> (u16 \<Rightarrow> socket_event res) \<Rightarrow> monitor_input list \<Rightarrow> monitor_thread \<Rightarrow> history" where
  "run_log L from_raw [] t = []"
| "run_log L from_raw (i # is) t =
     cycle_log L from_raw i t @ run_log L from_raw is (monitor_cycle L from_raw i t)"

definition seen :: "string \<Rightarrow> history \<Rightarrow> endpoint_state option list" where
  "seen k h = None # map snd (filter (\<lambda>x. fst x = k) h)"

lemma seen_append: "seen k (h @ h') = seen k h @ map snd (filter (\<lambda>x. fst x = k) h')"
  by (simp add: seen_def)

lemma seen_nonempty [simp]: "seen k h \<noteq> []"
  by (simp add: seen_def)

lemma remdups_adj_snoc:
  "remdups_adj (xs @ [x]) = (if xs \<noteq> [] \<and> last xs = x then remdups_adj xs else remdups_adj xs @ [x])"
  by (induction xs rule: remdups_adj.induct) auto

text \<open>The changes among the states seen: what is to be reported.\<close>

definition changes :: "string \<Rightarrow> history \<Rightarrow> endpoint_state list" where
  "changes k h = List.map_filter id (remdups_adj (seen k h))"

lemma changes_snoc:
  "changes k (h @ [(k', x)]) =
     (if k' \<noteq> k \<or> last (seen k h) = x \<or> x = None then changes k h else changes k h @ [the x])"
  by (auto simp: changes_def seen_append remdups_adj_snoc map_filter_def)

subsection \<open>The table and the reports over a history\<close>

definition history_inv :: "monitor_sys \<Rightarrow> history \<Rightarrow> bool" where
  "history_inv s h \<longleftrightarrow>
     (\<forall>k. ms_states s k = last (seen k h) \<and> sent_states k (ms_sent s) = changes k h)"

lemma history_inv_command:
  assumes "history_inv s h"
  shows "history_inv (apply_command c s) (h @ forgotten c s)"
proof (cases c)
  case (MonRemove i)
  show ?thesis
  proof (cases "remove_first (\<lambda>m. me_index m = i) (ms_monitors s)")
    case None
    with assms MonRemove show ?thesis by simp
  next
    case (Some er)
    obtain entry rest where er: "er = (entry, rest)" by (cases er)
    with assms MonRemove Some show ?thesis
      by (cases "me_endpoint entry") (auto simp: history_inv_def changes_snoc seen_append)
  qed
qed (use assms in \<open>simp_all add: history_inv_def\<close>)

lemma history_inv_event:
  assumes "history_inv s h"
  shows "history_inv (monitor_event m e s) (h @ observed m e)"
proof (cases e)
  case (EvState ep st)
  with assms show ?thesis
    by (auto simp: history_inv_def Let_def changes_snoc seen_append sent_states_append sent_states_one)
qed (use assms in simp)

lemma history_inv_ends: "history_inv s h \<Longrightarrow> history_inv (s\<lparr>ms_running := b\<rparr>) h"
  by (simp add: history_inv_def)

subsection \<open>The cycles\<close>

lemma command_running: "ms_running s \<Longrightarrow> ms_running (apply_command c s) \<longleftrightarrow> c \<noteq> MonShutdown"
  by (cases c) (simp_all split: option.split)

lemma drain_running: "ms_running s \<Longrightarrow> ms_running (drain_commands cs s) \<longleftrightarrow> MonShutdown \<notin> set cs"
  by (induction cs s rule: drain_commands.induct) (auto simp: Let_def command_running)

lemma history_drain:
  "history_inv s h \<Longrightarrow> ms_running s \<Longrightarrow> history_inv (drain_commands cs s) (h @ command_log cs s)"
proof (induction cs s arbitrary: h rule: drain_commands.induct)
  case (2 c cs s)
  then show ?case
    using history_inv_command [of s h c] by (auto simp: Let_def command_running simp flip: append_assoc)
qed simp

lemma history_items:
  "history_inv s h \<Longrightarrow> history_inv (mt_sys (handle_items L from_raw xs s)) (h @ item_log L from_raw xs)"
proof (induction L from_raw xs s arbitrary: h rule: handle_items.induct)
  case (3 L from_raw m frame1 frame2 xs s)
  show ?case
  proof (cases "decode_monitor_event L from_raw frame1 frame2")
    case (Ok r)
    obtain ev oe where r: "r = (ev, oe)" by (cases r)
    show ?thesis
    proof (cases oe)
      case None
      with 3 Ok r show ?thesis by simp
    next
      case (Some e)
      from "3.IH"(2) [OF Ok r [symmetric] Some history_inv_event [OF "3.prems"]] show ?thesis
        by (simp add: Ok r Some)
    qed
  qed (use 3 in \<open>simp_all add: monitor_ends_def history_inv_ends\<close>)
qed simp_all

lemma history_cycle:
  assumes "history_inv (mt_sys t) h"
  shows "history_inv (mt_sys (monitor_cycle L from_raw i t)) (h @ cycle_log L from_raw i t)"
proof (cases "ms_running (mt_sys t)")
  case True
  let ?s = "drain_commands (mi_commands i) (mt_sys t)"
  have d: "history_inv ?s (h @ command_log (mi_commands i) (mt_sys t))" using history_drain [OF assms True] .
  show ?thesis
  proof (cases "mi_poll i")
    case (Inl e)
    with True d show ?thesis
      by (simp add: monitor_cycle_def cycle_log_def Let_def monitor_ends_def history_inv_ends)
  next
    case (Inr items)
    with True d history_items [OF d] drain_running [OF True] show ?thesis
      by (auto simp: monitor_cycle_def cycle_log_def Let_def)
  qed
qed (use assms in \<open>simp add: monitor_cycle_def cycle_log_def\<close>)

lemma history_run:
  "history_inv (mt_sys t) h \<Longrightarrow> history_inv (mt_sys (fold (monitor_cycle L from_raw) is t)) (h @ run_log L from_raw is t)"
proof (induction "is" arbitrary: t h)
  case (Cons i "is")
  from Cons.IH [OF history_cycle [OF Cons.prems]] show ?case by simp
qed simp

lemma history_inv_new: "history_inv monitor_new []"
  by (simp add: history_inv_def monitor_new_def seen_def changes_def map_filter_def sent_states_def)

text \<open>
  C28. The monitor thread, over every sequence of cycles, whatever commands, poll results and
  frames they meet: for each key, its table shows the last state seen since the key's entry
  was removed last, and the events sent to the listener are exactly the changes of state, that
  is the states seen with adjacent repetitions dropped, a removal standing between two of them.
\<close>

theorem monitor_reports_changes:
  "ms_states (mt_sys (monitor_run L from_raw is)) k = last (seen k (run_log L from_raw is monitor_thread_new))
   \<and> sent_states k (ms_sent (mt_sys (monitor_run L from_raw is)))
     = List.map_filter id (remdups_adj (seen k (run_log L from_raw is monitor_thread_new)))"
proof -
  have "history_inv (mt_sys monitor_thread_new) []" by (simp add: monitor_thread_new_def history_inv_new)
  from history_run [OF this, of L from_raw "is"] show ?thesis
    by (simp add: history_inv_def changes_def monitor_run_def)
qed

text \<open>A failed poll, as one interrupted by a signal, ends the thread; then every command panics.\<close>

lemma failed_poll_ends_monitor:
  assumes "ms_running (mt_sys t)" and "mi_commands i = []" and "ms_monitors (mt_sys t) \<noteq> []" and "mi_poll i = Inl e"
  shows "monitor_send (fold (monitor_cycle L from_raw) is (monitor_cycle L from_raw i t)) = Panic"
proof -
  have "\<not> ms_running (mt_sys t') \<Longrightarrow> fold (monitor_cycle L from_raw) is t' = t'" for t'
    by (induction "is") (simp_all add: monitor_cycle_def)
  moreover have "\<not> ms_running (mt_sys (monitor_cycle L from_raw i t))"
    using assms by (simp add: monitor_cycle_def Let_def monitor_ends_def)
  ultimately show ?thesis by (simp add: monitor_send_def)
qed

text \<open>An event frame of two to five bytes ends the thread and poisons the table.\<close>

lemma short_event_poisons:
  assumes "2 \<le> length data" and "length data < 6" and "\<forall>x e. from_raw x \<noteq> Err e"
  shows "monitor_endpoint_state (handle_items L from_raw ((m, Some (Inr data, frame2)) # xs) s) ep = Panic"
  using assms by (cases "from_raw (word_of_nat (bytes_to_nat (native_endian L) (take 2 data)))")
    (auto simp: decode_monitor_event_def monitor_ends_def monitor_endpoint_state_def)

lemma monitor_loop_same:
  "monitor_loop_turn L from_raw (me_endpoint m) frame1 frame2 s =
     (let t = handle_items L from_raw [(m, Some (frame1, frame2))] s
      in if mt_poisoned t then Panic else Ok (mt_sys t))"
  by (auto simp: monitor_loop_turn_def monitor_ends_def Let_def split: res.split option.split endpoint_event.split)

end
