(* ===== verification/Bs_Sender.thy ===== *)
theory Bs_Sender
  imports Bs_Message Bs_Sockets
begin

section \<open>The sender (src/src/sender.rs)\<close>

text \<open>
  The sender's state, its operations on the headers and on the socket, and what they put
  on the wire.  The clock is an argument (\<open>now\<close>, \<open>utils::current_timestamp\<close>).
\<close>

record 's sender =
  sd_socket :: 's
  sd_socket_type :: socket_type
  sd_main_header :: header
  sd_data_header :: header
  sd_buffer :: "byte list"
  sd_transport :: transport
  sd_block :: bool
  sd_pulse_id :: u64
  sd_compression :: compression
  sd_started :: bool

definition opt_or :: "'a \<Rightarrow> 'a option \<Rightarrow> 'a" where
  "opt_or d x = (case x of Some v \<Rightarrow> v | None \<Rightarrow> d)"

text \<open>\<open>socket\<close> is the outcome of \<open>context.socket\<close>; the result of \<open>set_sndhwm\<close> is dropped.\<close>

definition sender_new ::
  "'s zmq \<Rightarrow> io_error + 's \<Rightarrow> socket_type \<Rightarrow> transport \<Rightarrow> bool option \<Rightarrow> u64 option \<Rightarrow> compression option
   \<Rightarrow> 's sender res" where
  "sender_new z socket st tr block start_id header_compression =
     res_bind (of_sum socket) (\<lambda>s.
       let hc = opt_or CompNone header_compression;
           main1 = [''htype'' \<mapsto> JString HTYPE];
           main2 = (if hc \<noteq> CompNone
                    then main1(''dh_compression'' \<mapsto> JString (compression_to_string hc)) else main1)
       in Ok \<lparr>sd_socket = fst (z_set z s (OptSndhwm 10)), sd_socket_type = st, sd_main_header = main2,
              sd_data_header = Map.empty, sd_buffer = [], sd_transport = tr, sd_block = opt_or False block,
              sd_pulse_id = opt_or 1 start_id, sd_compression = hc, sd_started = False\<rparr>)"

definition sender_create_data_header :: "ext \<Rightarrow> 's sender \<Rightarrow> channel list \<Rightarrow> unit res \<times> 's sender" where
  "sender_create_data_header L s channels =
     (let s1 = s\<lparr>sd_data_header := create_data_header L channels\<rparr>;
          r = res_bind (of_sum (json_print_btree L (sd_data_header s1))) (\<lambda>text.
                compress_data L (sd_compression s1) 1 False (str_bytes text))
      in case r of
           Ok blob \<Rightarrow>
             (Ok (), s1\<lparr>sd_main_header := (sd_main_header s1)(''hash'' \<mapsto> JString (hash_md5 L blob)),
                        sd_buffer := blob\<rparr>)
         | Err e \<Rightarrow> (Err e, s1)
         | Panic \<Rightarrow> (Panic, s1))"

definition sender_endpoint :: "string option \<Rightarrow> 's sender \<Rightarrow> string" where
  "sender_endpoint app s = transport_endpoint app (sd_transport s)"

definition sender_start :: "'s zmq \<Rightarrow> string option \<Rightarrow> 's sender \<Rightarrow> unit res \<times> 's sender" where
  "sender_start z app s =
     (let endpoint = sender_endpoint app s;
          (k, e1) = (case sd_transport s of
              Ipc _ \<Rightarrow> z_set z (sd_socket s) (OptTcpKeepalive (- 1))
            | Tcp _ _ \<Rightarrow> (sd_socket s, None))
      in case e1 of
           Some e \<Rightarrow> (Err e, s\<lparr>sd_socket := k\<rparr>)
         | None \<Rightarrow>
             (case z_bind z k endpoint of
                (k', Some e) \<Rightarrow> (Err e, s\<lparr>sd_socket := k'\<rparr>)
              | (k', None) \<Rightarrow> (Ok (), s\<lparr>sd_socket := k', sd_started := True\<rparr>)))"

definition sender_stop :: "'s zmq \<Rightarrow> string option \<Rightarrow> 's sender \<Rightarrow> 's sender" where
  "sender_stop z app s =
     (if sd_started s
      then s\<lparr>sd_started := False, sd_socket := fst (z_unbind z (sd_socket s) (sender_endpoint app s))\<rparr>
      else s)"

text \<open>The increment of the simulated pulse id wraps.\<close>

definition update_main_header :: "ext \<Rightarrow> timestamp \<Rightarrow> 's sender \<Rightarrow> u64 \<Rightarrow> timestamp \<Rightarrow> u64 \<times> 's sender" where
  "update_main_header L now s pid ts =
     (let (sent, next) = (if pid = ID_SIMULATED then (sd_pulse_id s, sd_pulse_id s + 1) else (pid, pid));
          tm = (if ts = TIMESTAMP_NOW then now else ts)
      in (sent, s\<lparr>sd_pulse_id := next,
                  sd_main_header := (sd_main_header s)
                    (''pulse_id'' \<mapsto> json_of_u64 L sent, ''global_timestamp'' \<mapsto> timestamp_json L tm)\<rparr>))"

definition flags_last :: "'s sender \<Rightarrow> i32" where
  "flags_last s = (if sd_block s then 0 else DONTWAIT)"

definition flags_more :: "'s sender \<Rightarrow> i32" where
  "flags_more s = or (flags_last s) SNDMORE"

text \<open>
  The loop over the channels.  \<open>valid\<close> is the number of present values, \<open>index\<close> the number
  sent so far; absent values are skipped.
\<close>

fun send_channels ::
  "ext \<Rightarrow> 's zmq \<Rightarrow> i32 \<Rightarrow> i32 \<Rightarrow> nat \<Rightarrow> nat \<Rightarrow> 's \<Rightarrow> channel list \<Rightarrow> channel_data option list \<Rightarrow> unit res \<times> 's" where
  "send_channels L z fl fm valid index k (ch # chs) (Some cd # cds) =
     (let last = (valid - 1 \<le> index) in
      case serialize_channel L ch cd of
        Ok (data, tm) \<Rightarrow>
          (case z_send z k data fm of
             (k1, Some e) \<Rightarrow> (Err e, k1)
           | (k1, None) \<Rightarrow>
               (case z_send z k1 tm (if last then fl else fm) of
                  (k2, Some e) \<Rightarrow> (Err e, k2)
                | (k2, None) \<Rightarrow> send_channels L z fl fm valid (index + 1) k2 chs cds))
      | Err e \<Rightarrow> (Err e, k)
      | Panic \<Rightarrow> (Panic, k))"
| "send_channels L z fl fm valid index k (ch # chs) (None # cds) = send_channels L z fl fm valid index k chs cds"
| "send_channels L z fl fm valid index k _ _ = (Ok (), k)"

definition sender_send ::
  "ext \<Rightarrow> 's zmq \<Rightarrow> timestamp \<Rightarrow> 's sender \<Rightarrow> u64 \<Rightarrow> timestamp \<Rightarrow> channel list \<Rightarrow> channel_data option list
   \<Rightarrow> u64 res \<times> 's sender" where
  "sender_send L z now s pid ts channels cds =
     (if length cds = 0 then (Err (InvalidInput, ''Empty channel data list''), s)
      else if length cds \<noteq> length channels then (Err (InvalidInput, ''Invalid size of channel data list''), s)
      else
        let (sent, s1) = update_main_header L now s pid ts;
            fl = flags_last s1; fm = flags_more s1;
            valid = length (filter (\<lambda>x. x \<noteq> None) cds)
        in case json_print_map L (sd_main_header s1) of
             Inl e \<Rightarrow> (Err e, s1)
           | Inr text \<Rightarrow>
               (case z_send z (sd_socket s1) (str_bytes text) fm of
                  (k1, Some e) \<Rightarrow> (Err e, s1\<lparr>sd_socket := k1\<rparr>)
                | (k1, None) \<Rightarrow>
                    (case z_send z k1 (sd_buffer s1) (if 0 < valid then fm else fl) of
                       (k2, Some e) \<Rightarrow> (Err e, s1\<lparr>sd_socket := k2\<rparr>)
                     | (k2, None) \<Rightarrow>
                         (case send_channels L z fl fm valid 0 k2 channels cds of
                            (r, k3) \<Rightarrow> (res_map (\<lambda>_. sent) r, s1\<lparr>sd_socket := k3\<rparr>)))))"

text \<open>\<open>forward\<close> sends the parts of a received message.\<close>

fun forward_parts :: "'s zmq \<Rightarrow> i32 \<Rightarrow> i32 \<Rightarrow> 's \<Rightarrow> byte list list \<Rightarrow> unit res \<times> 's" where
  "forward_parts z fl fm k [] = (Ok (), k)"
| "forward_parts z fl fm k (p # ps) =
     (case z_send z k p (if ps = [] then fl else fm) of
        (k', Some e) \<Rightarrow> (Err e, k')
      | (k', None) \<Rightarrow> forward_parts z fl fm k' ps)"

definition sender_forward :: "'s zmq \<Rightarrow> 's sender \<Rightarrow> byte list list \<Rightarrow> unit res \<times> 's sender" where
  "sender_forward z s parts =
     (case forward_parts z (flags_last s) (flags_more s) (sd_socket s) parts of
        (r, k) \<Rightarrow> (r, s\<lparr>sd_socket := k\<rparr>))"

definition send_message ::
  "ext \<Rightarrow> 's zmq \<Rightarrow> timestamp \<Rightarrow> 's sender \<Rightarrow> message \<Rightarrow> bool \<Rightarrow> u64 res \<times> 's sender" where
  "send_message L z now s m create =
     (let (r, s1) = (if create \<or> sd_buffer s = [] then sender_create_data_header L s (m_channels m) else (Ok (), s))
      in case r of
           Ok _ \<Rightarrow> sender_send L z now s1 (m_id m) (m_timestamp m) (m_channels m) (im_values (m_data m))
         | Err e \<Rightarrow> (Err e, s1)
         | Panic \<Rightarrow> (Panic, s1))"

subsection \<open>What a send puts on the wire\<close>

text \<open>
  The abstract sender: the frames of a message with their flags, and how serialization
  ends (an error or a panic cuts the list).
\<close>

fun channel_frames ::
  "ext \<Rightarrow> i32 \<Rightarrow> i32 \<Rightarrow> nat \<Rightarrow> nat \<Rightarrow> channel list \<Rightarrow> channel_data option list \<Rightarrow> (byte list \<times> i32) list \<times> unit res" where
  "channel_frames L fl fm valid index (ch # chs) (Some cd # cds) =
     (case serialize_channel L ch cd of
        Ok (data, tm) \<Rightarrow>
          (case channel_frames L fl fm valid (index + 1) chs cds of
             (fs, r) \<Rightarrow> ((data, fm) # (tm, if valid - 1 \<le> index then fl else fm) # fs, r))
      | Err e \<Rightarrow> ([], Err e)
      | Panic \<Rightarrow> ([], Panic))"
| "channel_frames L fl fm valid index (ch # chs) (None # cds) = channel_frames L fl fm valid index chs cds"
| "channel_frames L fl fm valid index _ _ = ([], Ok ())"

definition send_frames :: "'s zmq \<Rightarrow> 's \<Rightarrow> (byte list \<times> i32) list \<Rightarrow> 's \<times> io_error option" where
  "send_frames z k fs = run_all (\<lambda>k (b, f). z_send z k b f) k fs"

definition then_res :: "'s \<times> io_error option \<Rightarrow> 'a res \<Rightarrow> 'a res \<times> 's" where
  "then_res ke r = (case ke of (k, None) \<Rightarrow> (r, k) | (k, Some e) \<Rightarrow> (Err e, k))"

lemma send_channels_frames:
  "send_channels L z fl fm valid index k chs cds =
     (case channel_frames L fl fm valid index chs cds of (fs, r) \<Rightarrow> then_res (send_frames z k fs) r)"
  by (induction L z fl fm valid index k chs cds rule: send_channels.induct)
    (auto simp: then_res_def send_frames_def Let_def split: res.splits prod.splits option.splits)

definition message_frames ::
  "ext \<Rightarrow> 's sender \<Rightarrow> string \<Rightarrow> channel list \<Rightarrow> channel_data option list \<Rightarrow> (byte list \<times> i32) list \<times> unit res" where
  "message_frames L s text channels cds =
     (let fl = flags_last s; fm = flags_more s; valid = length (filter (\<lambda>x. x \<noteq> None) cds);
          (fs, r) = channel_frames L fl fm valid 0 channels cds
      in ((str_bytes text, fm) # (sd_buffer s, if 0 < valid then fm else fl) # fs, r))"

lemma channel_frames_flags:
  assumes "valid = index + length (filter (\<lambda>x. x \<noteq> None) cds)" and "length cds = length chs"
    and "channel_frames L fl fm valid index chs cds = (fs, r)"
  shows "if r = Ok ()
    then map snd fs = (if index < valid then replicate (2 * (valid - index) - 1) fm @ [fl] else [])
    else \<exists>n. map snd fs = replicate n fm"
  using assms
proof (induction L fl fm valid index chs cds arbitrary: fs r rule: channel_frames.induct)
  case (1 L fl fm valid index ch chs cd cds)
  show ?case
  proof (cases "serialize_channel L ch cd")
    case (Ok dt)
    obtain d t where dt: "dt = (d, t)" by (cases dt)
    obtain fs' r' where f: "channel_frames L fl fm valid (index + 1) chs cds = (fs', r')"
      by (cases "channel_frames L fl fm valid (index + 1) chs cds")
    have r: "r = r'" and fs: "fs = (d, fm) # (t, if valid - 1 \<le> index then fl else fm) # fs'"
      using "1.prems" Ok dt f by auto
    have v: "valid = (index + 1) + length (filter (\<lambda>x. x \<noteq> None) cds)" and l: "length cds = length chs"
      using "1.prems"(1,2) by simp_all
    note IH = "1.IH" [OF Ok [unfolded dt] refl v l f]
    show ?thesis
    proof (cases "r = res.Ok ()")
      case True
      show ?thesis
      proof (cases "Suc index < valid")
        case True
        then obtain n where n: "valid = Suc (Suc (index + n))" by (metis less_iff_Suc_add add_Suc)
        have "map snd fs' = replicate (Suc (2 * n)) fm @ [fl]"
          using IH \<open>r = res.Ok ()\<close> r unfolding n by simp
        with \<open>r = res.Ok ()\<close> show ?thesis unfolding n fs by (simp add: replicate_append_same)
      next
        case False
        with IH v \<open>r = res.Ok ()\<close> r fs show ?thesis by simp
      qed
    next
      case False
      with IH r obtain n where n: "map snd fs' = replicate n fm" by auto
      have "\<not> valid - 1 \<le> index"
      proof
        assume "valid - 1 \<le> index"
        with "1.prems"(1) have "filter (\<lambda>x. x \<noteq> None) cds = []" by simp
        then have "set cds \<subseteq> {None}" by (auto simp: filter_empty_conv)
        then have "channel_frames L fl fm v i chs cds = ([], res.Ok ())" for v i
          by (induction L fl fm v i chs cds rule: channel_frames.induct) auto
        with f r False show False by simp
      qed
      with n fs have "map snd fs = replicate (Suc (Suc n)) fm" by simp
      with False show ?thesis by (simp only: if_False) blast
    qed
  qed (use "1.prems" in \<open>auto intro: exI [of _ 0]\<close>)
next
  case (2 L fl fm valid index ch chs cds)
  then show ?case by simp
qed auto

lemma all_snd:
  assumes "map snd fs = replicate n c" and "f \<in> set fs"
  shows "snd f = c"
proof -
  from assms(2) have "snd f \<in> set (map snd fs)" by simp
  then show ?thesis unfolding assms(1) by simp
qed

lemma sender_send_calls:
  assumes "cds \<noteq> []" and "length cds = length chs" and "update_main_header L now s pid ts = (sent, s1)"
    and "json_print_map L (sd_main_header s1) = Inr text"
  shows "sender_send L z now s pid ts chs cds =
    (case message_frames L s1 text chs cds of (fs, r) \<Rightarrow>
      (case then_res (send_frames z (sd_socket s1) fs) r of (r', k) \<Rightarrow>
        (res_map (\<lambda>_. sent) r', s1\<lparr>sd_socket := k\<rparr>)))"
proof -
  let ?fl = "flags_last s1" and ?fm = "flags_more s1" and ?valid = "length (filter (\<lambda>x. x \<noteq> None) cds)"
  let ?f2 = "if 0 < ?valid then ?fm else ?fl"
  obtain fs r where f: "channel_frames L ?fl ?fm ?valid 0 chs cds = (fs, r)"
    by (cases "channel_frames L ?fl ?fm ?valid 0 chs cds")
  obtain k1 e1 where k1: "z_send z (sd_socket s1) (str_bytes text) ?fm = (k1, e1)"
    by (cases "z_send z (sd_socket s1) (str_bytes text) ?fm")
  obtain k2 e2 where k2: "z_send z k1 (sd_buffer s1) ?f2 = (k2, e2)"
    by (cases "z_send z k1 (sd_buffer s1) ?f2")
  have m: "message_frames L s1 text chs cds = ((str_bytes text, ?fm) # (sd_buffer s1, ?f2) # fs, r)"
    unfolding message_frames_def Let_def f by simp
  have sc: "send_channels L z ?fl ?fm ?valid 0 k2 chs cds = then_res (send_frames z k2 fs) r"
    unfolding send_channels_frames f by simp
  have g: "\<not> length cds = 0" "\<not> length cds \<noteq> length chs" using assms(1) by (simp, simp add: assms(2))
  show ?thesis
    unfolding sender_send_def if_not_P [OF g(1)] if_not_P [OF g(2)] assms(3,4) m prod.case Let_def sum.case k1
    by (cases e1; cases e2) (simp_all only: prod.case option.case k1 k2 sc send_frames_def run_all.simps
        then_res_def res_map.simps)
qed

text \<open>
  C8. Refinement of \<open>send\<close>: against any zmq, it makes exactly the calls of the abstract
  sender, in order, and stops at the first error; its result is that error, or how
  serialization ended, or the pulse id; only the socket, the main header and the pulse id
  change.
\<close>

theorem sender_send_refines:
  assumes "cds \<noteq> []" and "length cds = length chs" and "update_main_header L now s pid ts = (sent, s1)"
    and "json_print_map L (sd_main_header s1) = Inr text"
  shows "sender_send L z now s pid ts chs cds =
    (case message_frames L s1 text chs cds of (fs, r) \<Rightarrow>
      (case then_res (send_frames z (sd_socket s1) fs) r of (r', k) \<Rightarrow>
        (res_map (\<lambda>_. sent) r', s1\<lparr>sd_socket := k\<rparr>)))"
  using sender_send_calls [OF assms] .

text \<open>A zmq whose sockets are the frames sent so far.\<close>

definition wire_zmq :: "(byte list \<times> i32) list zmq" where
  "wire_zmq = \<lparr>z_new = (\<lambda>t. Inr []), z_recv = (\<lambda>s. (s, Inr [])), z_poll = (\<lambda>ss. Inr []),
     z_send = (\<lambda>s b f. (s @ [(b, f)], None)), z_bind = (\<lambda>s e. (s, None)),
     z_unbind = (\<lambda>s e. (s, None)), z_connect = (\<lambda>s e. (s, None)), z_disconnect = (\<lambda>s e. (s, None)),
     z_subscribe = (\<lambda>s t. (s, None)), z_set = (\<lambda>s x. (s, None)), z_monitor = (\<lambda>s e. (s, None)),
     z_socket_type = (\<lambda>s. Inr PUB), z_last_endpoint = (\<lambda>s. None)\<rparr>"

lemma send_frames_wire: "send_frames wire_zmq k fs = (k @ fs, None)"
  by (induction fs arbitrary: k) (auto simp: send_frames_def wire_zmq_def)

lemma snoc_flags:
  assumes "map snd fs = replicate n fm @ [fl]"
  shows "length fs = Suc n" "f \<in> set (butlast fs) \<Longrightarrow> snd f = fm" "snd (last fs) = fl"
proof -
  from assms obtain gs g where fs: "fs = gs @ [g]" by (cases fs rule: rev_cases) auto
  with assms have "map snd gs = replicate n fm" and "snd g = fl" by auto
  moreover from this(1) have "length gs = n" by (metis length_map length_replicate)
  ultimately show "length fs = Suc n" "snd (last fs) = fl" by (simp_all add: fs)
  show "f \<in> set (butlast fs) \<Longrightarrow> snd f = fm"
    using \<open>map snd gs = replicate n fm\<close> by (simp add: fs all_snd)
qed

lemma channel_frames_none:
  assumes "filter (\<lambda>x. x \<noteq> None) cds = []"
  shows "channel_frames L fl fm v i chs cds = ([], Ok ())"
  using assms by (induction L fl fm v i chs cds rule: channel_frames.induct) auto

lemma message_frames_flags:
  assumes "length cds = length chs" and "message_frames L s text chs cds = (fs, r)"
  shows "if r = Ok ()
    then map snd fs = replicate (2 * length (filter (\<lambda>x. x \<noteq> None) cds) + 1) (flags_more s) @ [flags_last s]
    else \<exists>n. map snd fs = replicate n (flags_more s)"
proof -
  let ?valid = "length (filter (\<lambda>x. x \<noteq> None) cds)"
  let ?fl = "flags_last s" and ?fm = "flags_more s"
  obtain fs' where f: "channel_frames L ?fl ?fm ?valid 0 chs cds = (fs', r)"
      and fs: "fs = (str_bytes text, ?fm) # (sd_buffer s, if 0 < ?valid then ?fm else ?fl) # fs'"
    using assms(2) by (auto simp: message_frames_def Let_def split: prod.splits)
  note fl = channel_frames_flags [OF _ assms(1) f]
  show ?thesis
  proof (cases "?valid = 0")
    case True
    then have "filter (\<lambda>x. x \<noteq> None) cds = []" by simp
    with f fs show ?thesis by (simp add: channel_frames_none)
  next
    case False
    then obtain k where k: "?valid = Suc k" by (cases ?valid) auto
    from fs False have fs2: "fs = (str_bytes text, ?fm) # (sd_buffer s, ?fm) # fs'" by simp
    show ?thesis
    proof (cases "r = Ok ()")
      case True
      then have "map snd fs' = replicate (Suc (2 * k)) ?fm @ [?fl]" using fl unfolding k by simp
      with True k show ?thesis unfolding fs2 k by (simp add: replicate_append_same)
    next
      case r: False
      with fl obtain n where "map snd fs' = replicate n ?fm" by auto
      then have "map snd fs = replicate (Suc (Suc n)) ?fm" by (simp add: fs2)
      with r show ?thesis by (simp only: if_False) blast
    qed
  qed
qed

lemma flags_bits: "and (flags_more s) SNDMORE = SNDMORE" "and (flags_last s) SNDMORE = 0"
  by (simp_all add: flags_more_def flags_last_def SNDMORE_def DONTWAIT_def)

text \<open>Two frames per present value behind the two headers, flagged as one message.\<close>

lemma message_frames_multipart:
  assumes "length cds = length chs" and "message_frames L s text chs cds = (fs, r)"
  shows "if r = Ok ()
    then length fs = 2 + 2 * length (filter (\<lambda>x. x \<noteq> None) cds)
      \<and> (\<forall>f \<in> set (butlast fs). and (snd f) SNDMORE = SNDMORE) \<and> and (snd (last fs)) SNDMORE = 0
    else \<forall>f \<in> set fs. and (snd f) SNDMORE = SNDMORE"
proof (cases "r = Ok ()")
  case True
  with message_frames_flags [OF assms] have m: "map snd fs
      = replicate (2 * length (filter (\<lambda>x. x \<noteq> None) cds) + 1) (flags_more s) @ [flags_last s]" by simp
  from True show ?thesis
    using snoc_flags [OF m] by (simp add: flags_bits)
next
  case False
  with message_frames_flags [OF assms] obtain n where "map snd fs = replicate n (flags_more s)" by auto
  then have "\<forall>f \<in> set fs. snd f = flags_more s" by (blast intro: all_snd)
  with False show ?thesis by (simp add: flags_bits)
qed

text \<open>
  The wire of a socket: \<open>sent\<close> is what zmq has accepted on it.  A call that succeeds adds
  its frame, one that fails adds nothing.
\<close>

definition wire_log :: "'s zmq \<Rightarrow> ('s \<Rightarrow> (byte list \<times> i32) list) \<Rightarrow> bool" where
  "wire_log z sent \<longleftrightarrow>
     (\<forall>k b f. sent (fst (z_send z k b f))
        = sent k @ (case snd (z_send z k b f) of None \<Rightarrow> [(b, f)] | Some e \<Rightarrow> []))"

lemma send_frames_log:
  assumes "wire_log z sent" and "send_frames z k fs = (k', e)"
  shows "\<exists>n. sent k' = sent k @ take n fs \<and> (if e = None then n = length fs else n < length fs)"
  using assms(2)
proof (induction fs arbitrary: k)
  case Nil
  then show ?case by (simp add: send_frames_def)
next
  case (Cons x fs)
  obtain b f where x: "x = (b, f)" by (cases x)
  obtain k1 e1 where k1: "z_send z k b f = (k1, e1)" by (cases "z_send z k b f")
  have st: "sent k1 = sent k @ (case e1 of None \<Rightarrow> [(b, f)] | Some e \<Rightarrow> [])"
    using assms(1) k1 unfolding wire_log_def by (metis fst_conv snd_conv)
  show ?case
  proof (cases e1)
    case None
    with Cons.prems k1 have "send_frames z k1 fs = (k', e)" by (simp add: send_frames_def x)
    from Cons.IH [OF this] obtain n where "sent k' = sent k1 @ take n fs" "if e = None then n = length fs else n < length fs"
      by blast
    with st None show ?thesis by (intro exI [of _ "Suc n"]) (auto simp: x)
  next
    case (Some err)
    with Cons.prems k1 st show ?thesis by (cases err, intro exI [of _ 0]) (auto simp: send_frames_def x)
  qed
qed

lemma proper_prefix_butlast:
  assumes "n < length fs" and "f \<in> set (take n fs)"
  shows "f \<in> set (butlast fs)"
proof -
  have "take n fs = take n (butlast fs)" using assms(1) by (simp add: take_butlast)
  with assms(2) show ?thesis by (metis in_set_takeD)
qed

text \<open>
  C19. The multipart structure of a message.  Whatever calls of zmq fail, a \<open>send\<close> that
  succeeds has put one complete message on the wire: the main header (of the sender after
  it), the data header and two frames for each present value, with \<open>SNDMORE\<close> on every frame
  but the last and not on the last.  A \<open>send\<close> that does not succeed has put none on it: what
  it sent, if anything, carries \<open>SNDMORE\<close> on every frame, and the message is left open.
\<close>

theorem send_multipart:
  assumes "wire_log z sent" and "sender_send L z now s pid ts chs cds = (r, s')"
  shows "\<exists>fs. sent (sd_socket s') = sent (sd_socket s) @ fs
    \<and> (case r of
         Ok pid' \<Rightarrow> length fs = 2 + 2 * length (filter (\<lambda>x. x \<noteq> None) cds)
           \<and> (\<forall>f \<in> set (butlast fs). and (snd f) SNDMORE = SNDMORE) \<and> and (snd (last fs)) SNDMORE = 0
           \<and> (\<exists>text rest. json_print_map L (sd_main_header s') = Inr text
               \<and> map fst fs = str_bytes text # sd_buffer s' # rest)
       | _ \<Rightarrow> \<forall>f \<in> set fs. and (snd f) SNDMORE = SNDMORE)"
proof -
  obtain pid' s1 where u: "update_main_header L now s pid ts = (pid', s1)"
    by (cases "update_main_header L now s pid ts")
  have sock: "sd_socket s1 = sd_socket s" using u by (auto simp: update_main_header_def Let_def split: if_splits)
  consider "cds = [] \<or> length cds \<noteq> length chs" | e where "json_print_map L (sd_main_header s1) = Inl e"
    | mtext where "cds \<noteq> []" "length cds = length chs" "json_print_map L (sd_main_header s1) = Inr mtext"
    by (cases "json_print_map L (sd_main_header s1)") auto
  then show ?thesis
  proof cases
    case 1
    with assms(2) show ?thesis by (auto simp: sender_send_def split: if_splits)
  next
    case 2
    with assms(2) u sock show ?thesis by (auto simp: sender_send_def split: if_splits)
  next
    case (3 mtext)
    obtain fs x where m: "message_frames L s1 mtext chs cds = (fs, x)" by (cases "message_frames L s1 mtext chs cds")
    obtain k e where k: "send_frames z (sd_socket s1) fs = (k, e)" by (cases "send_frames z (sd_socket s1) fs")
    have out: "sd_socket s' = k" "sd_main_header s' = sd_main_header s1" "sd_buffer s' = sd_buffer s1"
        "r = (case e of None \<Rightarrow> res_map (\<lambda>_. pid') x | Some err \<Rightarrow> Err err)"
      using assms(2) sender_send_calls [OF 3(1,2) u 3(3), of z] m k by (auto simp: then_res_def split: option.splits)
    obtain n where n: "sent k = sent (sd_socket s) @ take n fs" "if e = None then n = length fs else n < length fs"
      using send_frames_log [OF assms(1) k] sock by auto
    note fl = message_frames_multipart [OF 3(2) m]
    obtain rest where hd: "map fst fs = str_bytes mtext # sd_buffer s1 # rest"
      using m by (auto simp: message_frames_def Let_def split: prod.splits)
    show ?thesis
    proof (cases "e = None \<and> x = Ok ()")
      case True
      with out n fl hd 3(3) show ?thesis by (intro exI [of _ fs]) auto
    next
      case False
      then have "\<forall>f \<in> set (take n fs). and (snd f) SNDMORE = SNDMORE"
        using n(2) fl proper_prefix_butlast [of n fs] by (cases "x = Ok ()") (auto dest: in_set_takeD)
      moreover have "\<forall>p. r \<noteq> Ok p" using out(4) False by (cases x) (auto split: option.splits)
      ultimately show ?thesis using out(1) n(1) by (intro exI [of _ "take n fs"]) (auto split: res.split)
    qed
  qed
qed

subsection \<open>The sender's headers\<close>

text \<open>What the receiver needs of the main header, kept by every operation of the sender.\<close>

definition sender_ok :: "'s sender \<Rightarrow> bool" where
  "sender_ok s \<longleftrightarrow>
     sd_main_header s ''htype'' = Some (JString HTYPE)
     \<and> dh_compression (sd_main_header s) = Ok (sd_compression s)"

lemma sender_ok_update:
  assumes "sender_ok s" and "k \<noteq> ''htype''" and "k \<noteq> ''dh_compression''"
  shows "sender_ok (s\<lparr>sd_main_header := (sd_main_header s)(k \<mapsto> v)\<rparr>)"
  using assms by (simp add: sender_ok_def dh_compression_def)

lemma sender_ok_other:
  "sd_main_header s' = sd_main_header s \<Longrightarrow> sd_compression s' = sd_compression s \<Longrightarrow> sender_ok s \<Longrightarrow> sender_ok s'"
  by (simp add: sender_ok_def)

lemma sender_ok_new:
  "sender_new z socket st tr block start_id hc = Ok s \<Longrightarrow> sender_ok s"
  by (cases "opt_or CompNone hc")
    (auto simp: sender_new_def Let_def res_simps sender_ok_def dh_compression_def compression_from_str_def)

lemma sender_ok_create:
  assumes "sender_ok s"
  shows "sender_ok (snd (sender_create_data_header L s chs))"
  using assms
  by (auto simp: sender_create_data_header_def Let_def sender_ok_def dh_compression_def split: res.splits)

lemma update_main_header_fields:
  assumes "update_main_header L now s pid ts = (sent, s1)"
  shows "sd_main_header s1 = (sd_main_header s)(''pulse_id'' \<mapsto> json_of_u64 L sent,
      ''global_timestamp'' \<mapsto> timestamp_json L (if ts = TIMESTAMP_NOW then now else ts))"
    and "sd_compression s1 = sd_compression s" and "sd_buffer s1 = sd_buffer s"
    and "sd_socket s1 = sd_socket s" and "sd_block s1 = sd_block s"
    and "sent = (if pid = ID_SIMULATED then sd_pulse_id s else pid)"
    and "sd_pulse_id s1 = (if pid = ID_SIMULATED then sd_pulse_id s + 1 else pid)"
  using assms by (auto simp: update_main_header_def Let_def split: if_splits)

lemma sender_ok_update_main:
  assumes "sender_ok s" and "update_main_header L now s pid ts = (sent, s1)"
  shows "sender_ok s1"
  using assms update_main_header_fields [OF assms(2)] by (simp add: sender_ok_def dh_compression_def)

lemma sender_ok_socket [simp]: "sender_ok (s\<lparr>sd_socket := k\<rparr>) = sender_ok s"
  by (simp add: sender_ok_def)

lemma sender_ok_send:
  assumes "sender_ok s"
  shows "sender_ok (snd (sender_send L z now s pid ts chs cds))"
proof -
  obtain sent s1 where u: "update_main_header L now s pid ts = (sent, s1)"
    by (cases "update_main_header L now s pid ts")
  note ok = assms sender_ok_update_main [OF assms u]
  show ?thesis
    unfolding sender_send_def Let_def u prod.case
    by (simp add: ok split: sum.split prod.split option.split)
qed

lemma sender_ok_start: "sender_ok s \<Longrightarrow> sender_ok (snd (sender_start z app s))"
  by (auto simp: sender_start_def Let_def sender_ok_def split: transport.split prod.split option.split)

lemma sender_ok_stop: "sender_ok s \<Longrightarrow> sender_ok (sender_stop z app s)"
  by (auto simp: sender_stop_def sender_ok_def)

lemma sender_ok_forward: "sender_ok s \<Longrightarrow> sender_ok (snd (sender_forward z s parts))"
  by (auto simp: sender_forward_def sender_ok_def split: prod.split)

text \<open>
  Every sender the interface can produce: made by \<open>new\<close> with the header compression \<open>c\<close>, then
  any operations in any order.  What socket options and zmq itself do to the socket is any
  change of it.
\<close>

inductive sender_reached :: "ext \<Rightarrow> 's zmq \<Rightarrow> compression \<Rightarrow> 's sender \<Rightarrow> bool" for L z c where
  made: "sender_new z socket st tr block start_id hc = Ok s \<Longrightarrow> c = opt_or CompNone hc \<Longrightarrow> sender_reached L z c s"
| headed: "sender_reached L z c s \<Longrightarrow> sender_reached L z c (snd (sender_create_data_header L s chs))"
| bound: "sender_reached L z c s \<Longrightarrow> sender_reached L z c (snd (sender_start z app s))"
| unbound: "sender_reached L z c s \<Longrightarrow> sender_reached L z c (sender_stop z app s)"
| updated: "sender_reached L z c s \<Longrightarrow> sender_reached L z c (snd (update_main_header L now s pid ts))"
| sent: "sender_reached L z c s \<Longrightarrow> sender_reached L z c (snd (sender_send L z now s pid ts chs cds))"
| forwarded: "sender_reached L z c s \<Longrightarrow> sender_reached L z c (snd (sender_forward z s parts))"
| message_sent: "sender_reached L z c s \<Longrightarrow> sender_reached L z c (snd (send_message L z now s m create))"
| socket_changed: "sender_reached L z c s \<Longrightarrow> sender_reached L z c (s\<lparr>sd_socket := k\<rparr>)"

text \<open>The main header names the data header that the sender holds, if it holds one.\<close>

definition hash_ok :: "ext \<Rightarrow> 's sender \<Rightarrow> bool" where
  "hash_ok L s \<longleftrightarrow>
     sd_main_header s ''hash'' = Some (JString (hash_md5 L (sd_buffer s)))
     \<or> sd_main_header s ''hash'' = None \<and> sd_buffer s = []"

definition header_inv :: "ext \<Rightarrow> compression \<Rightarrow> 's sender \<Rightarrow> bool" where
  "header_inv L c s \<longleftrightarrow> sender_ok s \<and> sd_compression s = c \<and> hash_ok L s"

lemma header_inv_create: "header_inv L c s \<Longrightarrow> header_inv L c (snd (sender_create_data_header L s chs))"
  using sender_ok_create [of s L chs]
  by (auto simp: header_inv_def hash_ok_def sender_create_data_header_def Let_def split: res.splits)

lemma header_inv_update: "header_inv L c s \<Longrightarrow> update_main_header L now s pid ts = (sent, s1) \<Longrightarrow> header_inv L c s1"
  using sender_ok_update_main [of s L now pid ts sent s1] update_main_header_fields [of L now s pid ts sent s1]
  by (auto simp: header_inv_def hash_ok_def)

lemma header_inv_socket [simp]: "header_inv L c (s\<lparr>sd_socket := k\<rparr>) = header_inv L c s"
  by (simp add: header_inv_def hash_ok_def)

lemma header_inv_send: "header_inv L c s \<Longrightarrow> header_inv L c (snd (sender_send L z now s pid ts chs cds))"
proof -
  assume a: "header_inv L c s"
  obtain sent s1 where u: "update_main_header L now s pid ts = (sent, s1)"
    by (cases "update_main_header L now s pid ts")
  note ok = a header_inv_update [OF a u]
  show ?thesis
    unfolding sender_send_def Let_def u prod.case
    by (simp add: ok split: sum.split prod.split option.split)
qed

lemma header_inv_message: "header_inv L c s \<Longrightarrow> header_inv L c (snd (send_message L z now s m create))"
proof -
  assume a: "header_inv L c s"
  obtain r s1 where s1: "(if create \<or> sd_buffer s = [] then sender_create_data_header L s (m_channels m) else (Ok (), s)) = (r, s1)"
    by (cases "if create \<or> sd_buffer s = [] then sender_create_data_header L s (m_channels m) else (Ok (), s)")
  have "header_inv L c s1" using s1 a header_inv_create [OF a, of "m_channels m"] by (auto split: if_splits)
  then show ?thesis
    unfolding send_message_def s1 by (auto simp: Let_def header_inv_send split: res.split)
qed

lemma sender_reached_inv: "sender_reached L z c s \<Longrightarrow> header_inv L c s"
proof (induction rule: sender_reached.induct)
  case (made socket st tr block start_id hc s)
  then show ?case
    using sender_ok_new [OF made(1)] by (auto simp: header_inv_def hash_ok_def sender_new_def Let_def res_simps)
next
  case (bound s app)
  then have "sender_ok (snd (sender_start z app s))" by (simp add: header_inv_def sender_ok_start)
  with bound show ?case
    by (auto simp: header_inv_def hash_ok_def sender_start_def Let_def split: transport.split prod.split option.split)
next
  case (unbound s app)
  with sender_ok_stop [of s z app] show ?case by (auto simp: header_inv_def hash_ok_def sender_stop_def)
next
  case (updated s now pid ts)
  then show ?case using header_inv_update [of L c s now pid ts] by (metis prod.collapse)
next
  case (forwarded s parts)
  then show ?case by (simp add: sender_forward_def split: prod.split)
qed (simp_all add: header_inv_create header_inv_send header_inv_message)

text \<open>
  C35. Invariant of the main header: on every sender the interface can produce, from \<open>new\<close>
  by any operations, whatever zmq and the JSON printer answer, the main header names the
  message type, names the header compression that \<open>new\<close> was given, so that a parser reads it
  back, and holds the hash of exactly the data header that the next send will put on the
  wire (no hash while there is none).
\<close>

theorem sender_header_invariant:
  assumes "sender_reached L z c s"
  shows "sd_main_header s ''htype'' = Some (JString HTYPE)
    \<and> dh_compression (sd_main_header s) = Ok c \<and> sd_compression s = c
    \<and> (sd_main_header s ''hash'' = Some (JString (hash_md5 L (sd_buffer s)))
       \<or> sd_main_header s ''hash'' = None \<and> sd_buffer s = [])"
  using sender_reached_inv [OF assms] by (auto simp: header_inv_def sender_ok_def hash_ok_def)

theorem sender_header_invariant_witness:
  "\<exists>s. sender_new wire_zmq (Inr []) PUB (Tcp 9999 None) None (Some 5) (Some Lz4) = Ok s
    \<and> dh_compression (sd_main_header (snd (sender_send ref_ext wire_zmq (1, 2) s 0 (0, 0) [] []))) = Ok Lz4"
proof -
  obtain s where s: "sender_new wire_zmq (Inr []) PUB (Tcp 9999 None) None (Some 5) (Some Lz4) = Ok s"
    by (simp add: sender_new_def Let_def)
  have "sender_reached ref_ext wire_zmq Lz4 s" using s by (rule sender_reached.made) (simp add: opt_or_def)
  then have "sender_reached ref_ext wire_zmq Lz4 (snd (sender_send ref_ext wire_zmq (1, 2) s 0 (0, 0) [] []))"
    by (rule sender_reached.sent)
  from sender_header_invariant [OF this] s show ?thesis by blast
qed

text \<open>The ids of \<open>n\<close> simulated sends in a row.\<close>

fun simulated_ids :: "ext \<Rightarrow> timestamp \<Rightarrow> 's sender \<Rightarrow> nat \<Rightarrow> u64 list" where
  "simulated_ids L now s 0 = []"
| "simulated_ids L now s (Suc n) =
     (let (sent, s') = update_main_header L now s ID_SIMULATED TIMESTAMP_NOW in sent # simulated_ids L now s' n)"

text \<open>
  Pulse ids: consecutive simulated sends use consecutive ids from the start id on,
  modulo $2^{64}$; an explicit id is used as it is, and the next simulated send repeats it.
\<close>

lemma pulse_ids_spec:
  "simulated_ids L now s n = map (\<lambda>i. sd_pulse_id s + word_of_nat i) [0..<n]
   \<and> (pid \<noteq> ID_SIMULATED \<longrightarrow>
        fst (update_main_header L now s pid ts) = pid
        \<and> simulated_ids L now (snd (update_main_header L now s pid ts)) 1 = [pid])"
proof
  show "simulated_ids L now s n = map (\<lambda>i. sd_pulse_id s + word_of_nat i) [0..<n]"
  proof (induction n arbitrary: s)
    case 0
    then show ?case by simp
  next
    case (Suc n)
    have "map (\<lambda>i. sd_pulse_id s + word_of_nat i) [0..<Suc n]
        = sd_pulse_id s # map (\<lambda>i. sd_pulse_id s + 1 + word_of_nat i) [0..<n]"
      unfolding upt_conv_Cons [OF zero_less_Suc] map_Suc_upt [symmetric] by (simp add: comp_def ac_simps)
    with Suc.IH show ?case by (simp add: update_main_header_def Let_def)
  qed
  show "pid \<noteq> ID_SIMULATED \<longrightarrow> fst (update_main_header L now s pid ts) = pid
      \<and> simulated_ids L now (snd (update_main_header L now s pid ts)) 1 = [pid]"
    by (simp add: update_main_header_def Let_def)
qed

subsection \<open>From the sender to the parser\<close>

text \<open>A value its channel can carry, and what arrives of it.\<close>

definition sendable :: "ext \<Rightarrow> channel \<Rightarrow> channel_data \<Rightarrow> bool" where
  "sendable L ch cd \<longleftrightarrow>
     built L ch \<and> accepts (cfg_kind (ch_config ch)) (cfg_shape (ch_config ch)) (cd_value cd)
     \<and> compressible L (cfg_compression (ch_config ch)) (cfg_element_size (ch_config ch)) (written_buffer ch (cd_value cd))"

definition received :: "channel \<Rightarrow> channel_data \<Rightarrow> channel_data" where
  "received ch cd = cd\<lparr>cd_value := stored (cfg_elements (ch_config ch)) (cd_value cd)\<rparr>"

definition ch_name :: "channel \<Rightarrow> string" where
  "ch_name ch = cfg_name (ch_config ch)"

fun store_all ::
  "ext \<Rightarrow> channel list \<Rightarrow> channel_data list \<Rightarrow> channel_data option index_map \<Rightarrow> channel_data option index_map" where
  "store_all L (ch # chs) (d # ds) m = store_all L chs ds (im_insert L m (ch_name ch) (Some (received ch d)))"
| "store_all L _ _ m = m"

lemma frames_parse:
  assumes "byteorder_ok L"
  shows "list_all2 (sendable L) chs ds \<Longrightarrow>
    \<exists>fs. channel_frames L fl fm valid i chs (map Some ds) = (fs, Ok ()) \<and> length fs = 2 * length chs
      \<and> (\<forall>gts m. parse_frames L gts False (map norm_channel chs) (map fst fs) m = Ok (store_all L chs ds m))"
proof (induction chs ds arbitrary: i rule: list_all2_induct)
  case Nil
  then show ?case by simp
next
  case (Cons ch chs d ds)
  from Cons(1) have "built L ch" "accepts (cfg_kind (ch_config ch)) (cfg_shape (ch_config ch)) (cd_value d)"
      "compressible L (cfg_compression (ch_config ch)) (cfg_element_size (ch_config ch)) (written_buffer ch (cd_value d))"
    by (simp_all add: sendable_def)
  from serialize_frames [OF assms this, of "cd_timestamp d"] obtain b where
    b: "serialize_channel L ch d = Ok (b, enc_word LittleEndian (fst (cd_timestamp d)) @ enc_word LittleEndian (snd (cd_timestamp d)))"
      "parse_channel_data L (cd_timestamp d) ch b [] False = Ok (received ch d)"
    by (cases d) (auto simp: received_def)
  from Cons.IH [of "i + 1"] obtain fs where
    fs: "channel_frames L fl fm valid (i + 1) chs (map Some ds) = (fs, Ok ())" "length fs = 2 * length chs"
      "\<And>gts m. parse_frames L gts False (map norm_channel chs) (map fst fs) m = Ok (store_all L chs ds m)"
    by blast
  show ?case
    using b fs by (simp add: parse_timestamped [OF assms] ch_name_def)
qed

lemma store_all_other:
  "name \<notin> ch_name ` set chs \<Longrightarrow> im_map (store_all L chs ds m) name = im_map m name"
  by (induction L chs ds m rule: store_all.induct) (auto simp: im_insert_def)

lemma store_all_lookup:
  assumes "list_all2 P chs ds" and "distinct (map ch_name chs)" and "i < length chs"
  shows "im_map (store_all L chs ds m) (ch_name (chs ! i)) = Some (Some (received (chs ! i) (ds ! i)))"
  using assms
proof (induction chs ds arbitrary: i m rule: list_all2_induct)
  case Nil
  then show ?case by simp
next
  case (Cons ch chs d ds)
  show ?case
  proof (cases i)
    case 0
    with Cons.prems store_all_other [of "ch_name ch" chs] show ?thesis by (simp add: im_insert_def)
  next
    case (Suc j)
    with Cons show ?thesis by simp
  qed
qed

lemma timestamp_through_json:
  assumes "json_num_ok L" and "h ''global_timestamp'' = Some (timestamp_json L ts)"
  shows "msg_timestamp L h = Ok ts"
  using assms by (simp add: msg_timestamp_def timestamp_json_def json_u64_of_u64)

text \<open>A sender that has created the data header of its channels, with the JSON text \<open>htext\<close>.\<close>

definition header_ready :: "ext \<Rightarrow> channel list \<Rightarrow> string \<Rightarrow> 's sender \<Rightarrow> bool" where
  "header_ready L chs htext s \<longleftrightarrow>
     sender_ok s \<and> sd_main_header s ''hash'' = Some (JString (hash_md5 L (sd_buffer s)))
     \<and> decompress_data L (sd_compression s) 1 False (sd_buffer s) = Ok (str_bytes htext)
     \<and> json_from_slice L (str_bytes htext) = Inr (create_data_header L chs)"

lemma create_header_ready:
  assumes "sender_ok s0" and "sender_create_data_header L s0 chs = (Ok (), s)"
    and "json_btree_ok L (create_data_header L chs) htext"
    and "compressible L (sd_compression s0) 1 (str_bytes htext)"
  shows "header_ready L chs htext s"
proof -
  from assms(3) have j: "json_print_btree L (create_data_header L chs) = Inr htext"
      "json_from_slice L (str_bytes htext) = Inr (create_data_header L chs)"
    by (simp_all add: json_btree_ok_def)
  from data.restores [OF assms(4), of False] obtain c where
    c: "compress_data L (sd_compression s0) 1 False (str_bytes htext) = Ok c"
      "decompress_data L (sd_compression s0) 1 False c = Ok (str_bytes htext)" by blast
  have "sender_ok s" using sender_ok_create [OF assms(1), of L chs] assms(2) by simp
  with assms(2) j c show ?thesis
    by (auto simp: sender_create_data_header_def Let_def header_ready_def)
qed

lemma header_ready_socket [simp]: "header_ready L chs htext (s\<lparr>sd_socket := k\<rparr>) = header_ready L chs htext s"
  by (simp add: header_ready_def)

lemma header_ready_update:
  assumes "header_ready L chs htext s" and "update_main_header L now s pid ts = (sent, s1)"
  shows "header_ready L chs htext s1"
  using assms update_main_header_fields [OF assms(2)] sender_ok_update_main [OF _ assms(2)]
  by (auto simp: header_ready_def)

text \<open>What the receiver reads from the two header frames.\<close>

lemma sent_header_facts:
  assumes "json_num_ok L" and "\<forall>ch \<in> set chs. built L ch" and "header_ready L chs htext s"
    and "update_main_header L now s pid ts = (sent, s1)" and "json_map_ok L (sd_main_header s1) mtext"
  shows "decode_json L (str_bytes mtext) = Ok (sd_main_header s1)"
    and "msg_hash (sd_main_header s1) = Ok (hash_md5 L (sd_buffer s1))"
    and "msg_timestamp L (sd_main_header s1) = Ok (if ts = TIMESTAMP_NOW then now else ts)"
    and "decode_data_header L (sd_main_header s1) (sd_buffer s1) False
      = Ok (create_data_header L chs, map norm_channel chs)"
proof -
  note u = update_main_header_fields [OF assms(4)]
  have r: "sender_ok s1" "sd_main_header s1 ''hash'' = Some (JString (hash_md5 L (sd_buffer s1)))"
      "decompress_data L (sd_compression s1) 1 False (sd_buffer s1) = Ok (str_bytes htext)"
      "json_from_slice L (str_bytes htext) = Inr (create_data_header L chs)"
    using header_ready_update [OF assms(3,4)] by (simp_all add: header_ready_def)
  show "decode_json L (str_bytes mtext) = Ok (sd_main_header s1)"
    using assms(5) by (simp add: decode_json_def json_map_ok_def)
  show "msg_hash (sd_main_header s1) = Ok (hash_md5 L (sd_buffer s1))"
    by (simp add: msg_hash_def get_str_def r(2))
  show "msg_timestamp L (sd_main_header s1) = Ok (if ts = TIMESTAMP_NOW then now else ts)"
    using u(1) by (intro timestamp_through_json [OF assms(1)]) simp
  have dhc: "dh_compression (sd_main_header s1) = Ok (sd_compression s1)"
    using r(1) by (simp add: sender_ok_def)
  show "decode_data_header L (sd_main_header s1) (sd_buffer s1) False
      = Ok (create_data_header L chs, map norm_channel chs)"
    unfolding decode_data_header_def dhc res_bind.simps r(3) decode_json_def r(4) of_sum.simps
      data_header_reparse [OF assms(1,2)] by simp
qed

lemma parse_sent_headers:
  assumes "json_num_ok L" and "\<forall>ch \<in> set chs. built L ch" and "header_ready L chs htext s"
    and "update_main_header L now s pid ts = (sent, s1)"
    and "json_map_ok L (sd_main_header s1) mtext" and "uint sent < 2 ^ 63"
  shows "parse_body L (str_bytes mtext # sd_buffer s1 # rest) ep lhm_void False
    = parse_data L (str_bytes mtext # sd_buffer s1 # rest) (sd_main_header s1) (hash_md5 L (sd_buffer s1))
        (if ts = TIMESTAMP_NOW then now else ts) False (create_data_header L chs) (map norm_channel chs) True"
    and "message_new L (sd_main_header s1) dh chs' data hc raw
      = Ok \<lparr>m_main_header = sd_main_header s1, m_data_header = dh, m_channels = chs', m_data = data,
          m_id = sent, m_hash = hash_md5 L (sd_buffer s1), m_htype = HTYPE, m_dh_compression = sd_compression s1,
          m_timestamp = (if ts = TIMESTAMP_NOW then now else ts), m_header_changed = hc, m_raw = raw\<rparr>"
proof -
  let ?mh = "sd_main_header s1"
  note u = update_main_header_fields [OF assms(4)]
  note f = sent_header_facts [OF assms(1-5)]
  have ok1: "sender_ok s1" using header_ready_update [OF assms(3,4)] by (simp add: header_ready_def)
  show "parse_body L (str_bytes mtext # sd_buffer s1 # rest) ep lhm_void False
    = parse_data L (str_bytes mtext # sd_buffer s1 # rest) ?mh (hash_md5 L (sd_buffer s1))
        (if ts = TIMESTAMP_NOW then now else ts) False (create_data_header L chs) (map norm_channel chs) True"
    using f by (simp add: parse_body_def message_headers_def cached_header_void)
  have "- (2 ^ 63) \<le> uint sent" by (rule order.trans [OF _ uint_ge_0]) simp
  then have "signed_take_bit 63 (uint sent) = uint sent"
    using assms(6) by (intro signed_take_bit_int_eq_self)
  then have "sint sent = uint sent" by (simp add: sint_uint)
  then have "0 \<le> sint sent" by simp
  then have "msg_id L ?mh = Ok sent"
    using u(1) json_i64_of_u64 [OF assms(1,6)] by (simp add: msg_id_def)
  moreover have "msg_htype ?mh = Ok HTYPE" and "dh_compression ?mh = Ok (sd_compression s1)"
    using ok1 by (simp_all add: sender_ok_def msg_htype_def get_str_def)
  ultimately show "message_new L ?mh dh chs' data hc raw
      = Ok \<lparr>m_main_header = ?mh, m_data_header = dh, m_channels = chs', m_data = data,
          m_id = sent, m_hash = hash_md5 L (sd_buffer s1), m_htype = HTYPE, m_dh_compression = sd_compression s1,
          m_timestamp = (if ts = TIMESTAMP_NOW then now else ts), m_header_changed = hc, m_raw = raw\<rparr>"
    using f(2,3) by (simp add: message_new_def)
qed

lemma parse_sent_data:
  assumes "parse_frames L gts False (map norm_channel chs) (map fst fs) im_new = Ok data"
    and "length fs = 2 * length chs" and "parse_channels L dh False = Ok (map norm_channel chs)"
    and "message_new L mh dh (map norm_channel chs) data (Some True) False = Ok m"
  shows "\<exists>l. parse_data L (a # b # map fst fs) mh h gts False dh (map norm_channel chs) True = Ok (m, Some l)"
  using assms message_new_fields [OF assms(4)]
  by (simp add: parse_data_def clone_data_header_info_def)

lemma no_None_filter: "length (filter (\<lambda>x. x \<noteq> None) (map Some ds)) = length ds"
  by (induction ds) auto

lemma sender_send_wire:
  assumes "cds \<noteq> []" and "length cds = length chs" and "update_main_header L now s pid ts = (sent, s1)"
    and "json_print_map L (sd_main_header s1) = Inr text"
    and "message_frames L s1 text chs cds = (fs, Ok ())"
  shows "sender_send L wire_zmq now s pid ts chs cds = (Ok sent, s1\<lparr>sd_socket := sd_socket s @ fs\<rparr>)"
proof -
  have "sd_socket s1 = sd_socket s" using assms(3) by (rule update_main_header_fields(4))
  with sender_send_calls [OF assms(1-4), of wire_zmq] show ?thesis
    by (simp add: assms(5) send_frames_wire then_res_def)
qed

lemma send_parse_message:
  assumes "byteorder_ok L" and "json_num_ok L" and "list_all2 (sendable L) chs ds" and "chs \<noteq> []"
    and "distinct (map ch_name chs)" and "header_ready L chs htext s"
    and "update_main_header L now s pid ts = (sent, s1)"
    and "json_map_ok L (sd_main_header s1) mtext" and "uint sent < 2 ^ 63"
  shows "\<exists>fs m c.
      message_frames L s1 mtext chs (map Some ds) = ((str_bytes mtext, flags_more s1) # (sd_buffer s1, flags_more s1) # fs, Ok ())
      \<and> sender_send L wire_zmq now s pid ts chs (map Some ds)
          = (Ok sent, s1\<lparr>sd_socket := sd_socket s @ (str_bytes mtext, flags_more s1) # (sd_buffer s1, flags_more s1) # fs\<rparr>)
      \<and> parse_message L (str_bytes mtext # sd_buffer s1 # map fst fs) ep lhm_void False = (Ok m, c)
      \<and> m_id m = sent \<and> m_timestamp m = (if ts = TIMESTAMP_NOW then now else ts)
      \<and> m_channels m = map norm_channel chs \<and> \<not> m_raw m
      \<and> (\<forall>i < length chs. message_channel_data m (ch_name (chs ! i)) = Some (received (chs ! i) (ds ! i)))"
proof -
  let ?gts = "if ts = TIMESTAMP_NOW then now else ts"
  let ?fl = "flags_last s1" and ?fm = "flags_more s1"
  have len: "length ds = length chs" using assms(3) by (simp add: list_all2_lengthD)
  have built: "\<forall>ch \<in> set chs. built L ch"
    using assms(3) by (auto simp: list_all2_conv_all_nth in_set_conv_nth sendable_def)
  obtain fs where fs: "channel_frames L ?fl ?fm (length ds) 0 chs (map Some ds) = (fs, Ok ())"
      "length fs = 2 * length chs"
      "parse_frames L ?gts False (map norm_channel chs) (map fst fs) im_new = Ok (store_all L chs ds im_new)"
    using frames_parse [OF assms(1,3)] by blast
  let ?fs = "(str_bytes mtext, ?fm) # (sd_buffer s1, ?fm) # fs"
  have "0 < length ds" using len assms(4) by simp
  then have mf: "message_frames L s1 mtext chs (map Some ds) = (?fs, Ok ())"
    unfolding message_frames_def Let_def no_None_filter fs(1) by simp
  have ne: "map Some ds \<noteq> []" and len': "length (map Some ds) = length chs"
    using len assms(4) by auto
  have mt: "json_print_map L (sd_main_header s1) = Inr mtext"
    using assms(8) by (simp add: json_map_ok_def)
  note send = sender_send_wire [OF ne len' assms(7) mt mf]
  note hd = parse_sent_headers [OF assms(2) built assms(6-9)]
  obtain m where new: "message_new L (sd_main_header s1) (create_data_header L chs) (map norm_channel chs)
        (store_all L chs ds im_new) (Some True) False = Ok m"
      and fields: "m_id m = sent" "m_timestamp m = ?gts" "m_channels m = map norm_channel chs" "\<not> m_raw m"
        "m_data m = store_all L chs ds im_new"
    unfolding hd(2) by simp
  obtain l where "parse_data L (str_bytes mtext # sd_buffer s1 # map fst fs) (sd_main_header s1)
      (hash_md5 L (sd_buffer s1)) ?gts False (create_data_header L chs) (map norm_channel chs) True = Ok (m, Some l)"
    using parse_sent_data [OF fs(3,2) data_header_reparse [OF assms(2) built] new] by blast
  then have m: "parse_body L (str_bytes mtext # sd_buffer s1 # map fst fs) ep lhm_void False = Ok (m, Some l)"
    unfolding hd(1) .
  have "message_channel_data m (ch_name (chs ! i)) = Some (received (chs ! i) (ds ! i))" if "i < length chs" for i
    using store_all_lookup [OF assms(3,5) that] fields(5) by (simp add: message_channel_data_def)
  moreover have "parse_message L (str_bytes mtext # sd_buffer s1 # map fst fs) ep lhm_void False
      = (Ok m, lhm_insert lhm_void (case ep of Some e \<Rightarrow> e | None \<Rightarrow> dhi_hash l) l)"
    using m by (simp add: parse_message_def)
  ultimately show ?thesis using mf send fields by blast
qed

lemma sent_message_parses:
  assumes "byteorder_ok L" and "json_num_ok L" and "list_all2 (sendable L) chs ds" and "chs \<noteq> []"
    and "distinct (map ch_name chs)" and "header_ready L chs htext s"
    and "update_main_header L now s pid ts = (sent, s1)"
    and "json_map_ok L (sd_main_header s1) mtext" and "uint sent < 2 ^ 63"
  shows "\<exists>fs m c.
      sender_send L wire_zmq now s pid ts chs (map Some ds) = (Ok sent, s1\<lparr>sd_socket := sd_socket s @ fs\<rparr>)
      \<and> parse_message L (map fst fs) ep lhm_void False = (Ok m, c)
      \<and> m_id m = sent \<and> m_timestamp m = (if ts = TIMESTAMP_NOW then now else ts)
      \<and> m_channels m = map norm_channel chs \<and> \<not> m_raw m
      \<and> (\<forall>i < length chs. message_channel_data m (ch_name (chs ! i)) = Some (received (chs ! i) (ds ! i)))"
proof -
  obtain fs m c where
    f: "sender_send L wire_zmq now s pid ts chs (map Some ds)
          = (Ok sent, s1\<lparr>sd_socket := sd_socket s @ (str_bytes mtext, flags_more s1) # (sd_buffer s1, flags_more s1) # fs\<rparr>)"
      "parse_message L (str_bytes mtext # sd_buffer s1 # map fst fs) ep lhm_void False = (Ok m, c)"
      "m_id m = sent" "m_timestamp m = (if ts = TIMESTAMP_NOW then now else ts)"
      "m_channels m = map norm_channel chs" "\<not> m_raw m"
      "\<forall>i < length chs. message_channel_data m (ch_name (chs ! i)) = Some (received (chs ! i) (ds ! i))"
    using send_parse_message [OF assms, of ep] by blast
  then show ?thesis
    by (intro exI [of _ "(str_bytes mtext, flags_more s1) # (sd_buffer s1, flags_more s1) # fs"] exI [of _ m] exI [of _ c])
      simp
qed

text \<open>
  C5. A message sent is the message received.  A sender that has created the data header
  of its channels sends one value per channel; whatever the channels' types, shapes, byte
  orders and compressions and the header compression, a receiver without a cached header
  parses the frames on the wire into a message with the sent pulse id and timestamp, the
  same channels, and for each channel the value and timestamp sent (arrays fitted to the
  shape, strings cut at NUL).
\<close>

theorem send_then_parse:
  assumes "byteorder_ok L" and "json_num_ok L" and "list_all2 (sendable L) chs ds" and "chs \<noteq> []"
    and "distinct (map ch_name chs)" and "sender_ok s0"
    and "sender_create_data_header L s0 chs = (Ok (), s)"
    and "json_btree_ok L (create_data_header L chs) htext"
    and "compressible L (sd_compression s0) 1 (str_bytes htext)"
    and "update_main_header L now s pid ts = (sent, s1)"
    and "json_map_ok L (sd_main_header s1) mtext" and "uint sent < 2 ^ 63"
  shows "\<exists>fs m c.
      sender_send L wire_zmq now s pid ts chs (map Some ds) = (Ok sent, s1\<lparr>sd_socket := sd_socket s @ fs\<rparr>)
      \<and> parse_message L (map fst fs) ep lhm_void False = (Ok m, c)
      \<and> m_id m = sent \<and> m_timestamp m = (if ts = TIMESTAMP_NOW then now else ts)
      \<and> m_channels m = map norm_channel chs
      \<and> (\<forall>i < length chs. message_channel_data m (ch_name (chs ! i)) = Some (received (chs ! i) (ds ! i)))"
  using sent_message_parses [OF assms(1-5) create_header_ready [OF assms(6-9)] assms(10-12), of ep] by blast

text \<open>
  C36. A message with an absent value does not get through: \<open>send\<close> accepts it and puts a
  complete multipart message on the wire, whose frames the parser refuses as
  \<open>Invalid number of messages\<close>.
\<close>

theorem absent_value_is_refused:
  assumes "json_num_ok L" and "\<forall>ch \<in> set chs. built L ch" and "sender_ok s0"
    and "sender_create_data_header L s0 chs = (Ok (), s)"
    and "json_btree_ok L (create_data_header L chs) htext"
    and "compressible L (sd_compression s0) 1 (str_bytes htext)"
    and "update_main_header L now s pid ts = (sent, s1)"
    and "json_map_ok L (sd_main_header s1) mtext" and "uint sent < 2 ^ 63"
    and "length cds = length chs" and "None \<in> set cds"
    and "message_frames L s1 mtext chs cds = (fs, Ok ())"
  shows "sender_send L wire_zmq now s pid ts chs cds = (Ok sent, s1\<lparr>sd_socket := sd_socket s @ fs\<rparr>)
    \<and> parse_message L (map fst fs) ep lhm_void False = (Err (InvalidData, ''Invalid number of messages''), lhm_void)"
proof
  have ne: "cds \<noteq> []" using assms(11) by auto
  have mt: "json_print_map L (sd_main_header s1) = Inr mtext"
    using assms(8) by (simp add: json_map_ok_def)
  show "sender_send L wire_zmq now s pid ts chs cds = (Ok sent, s1\<lparr>sd_socket := sd_socket s @ fs\<rparr>)"
    by (rule sender_send_wire [OF ne assms(10,7) mt assms(12)])
  obtain f g fs' where fs: "fs = (str_bytes mtext, f) # (sd_buffer s1, g) # fs'"
    using assms(12) by (auto simp: message_frames_def Let_def split: prod.splits)
  have flags: "map snd fs = replicate (2 * length (filter (\<lambda>x. x \<noteq> None) cds) + 1) (flags_more s1) @ [flags_last s1]"
    using message_frames_flags [OF assms(10,12)] by simp
  have "length (filter (\<lambda>x. x \<noteq> None) cds) < length cds"
    using assms(11) by (intro length_filter_less) auto
  moreover have "length fs' = 2 * length (filter (\<lambda>x. x \<noteq> None) cds)"
    using snoc_flags(1) [OF flags] by (simp add: fs)
  ultimately have "length (map fst fs) - 2 \<noteq> length (map norm_channel chs) * 2"
    using assms(10) by (simp add: fs)
  then show "parse_message L (map fst fs) ep lhm_void False = (Err (InvalidData, ''Invalid number of messages''), lhm_void)"
    using parse_sent_headers(1) [OF assms(1,2) create_header_ready [OF assms(3-6)] assms(7-9), of "map fst fs'" ep]
    by (simp add: fs parse_message_def parse_data_def)
qed

subsection \<open>A sender, its channel and its wire, evaluated\<close>

text \<open>The instance of the witnesses: one channel, and JSON texts for its two headers.\<close>

definition wit_ch :: channel where
  "wit_ch = channel_array (mk_config ''a'' ''uint8'' (Some [2]) True Lz4 False) AU8 as_au8 READER_AU8 WRITER_AU8"

definition wit_sender :: "(byte list \<times> i32) list sender" where
  "wit_sender = \<lparr>sd_socket = [], sd_socket_type = PUB, sd_main_header = [''htype'' \<mapsto> JString HTYPE],
     sd_data_header = Map.empty, sd_buffer = [], sd_transport = Tcp 9999 None, sd_block = False,
     sd_pulse_id = 1, sd_compression = CompNone, sd_started = False\<rparr>"

definition wit_main :: header where
  "wit_main = [''htype'' \<mapsto> JString HTYPE, ''hash'' \<mapsto> JString (hash_md5 ref_ext (str_bytes ''d'')),
     ''pulse_id'' \<mapsto> json_of_u64 ref_ext 7, ''global_timestamp'' \<mapsto> timestamp_json ref_ext (3, 4)]"

definition wit_ext :: ext where
  "wit_ext = ref_ext\<lparr>json_print_btree := (\<lambda>h. Inr ''d''), json_print_map := (\<lambda>h. Inr ''m''),
     json_from_slice := (\<lambda>bs. if bs = str_bytes ''d'' then Inr (create_data_header ref_ext [wit_ch])
                             else if bs = str_bytes ''m'' then Inr wit_main
                             else Inl (InvalidData, ''expected value''))\<rparr>"

definition wit_ready :: "(byte list \<times> i32) list sender" where
  "wit_ready = wit_sender\<lparr>sd_data_header := create_data_header ref_ext [wit_ch],
     sd_main_header := [''htype'' \<mapsto> JString HTYPE, ''hash'' \<mapsto> JString (hash_md5 ref_ext (str_bytes ''d''))],
     sd_buffer := str_bytes ''d''\<rparr>"

definition wit_sent :: "(byte list \<times> i32) list sender" where
  "wit_sent = wit_ready\<lparr>sd_pulse_id := 7, sd_main_header := wit_main\<rparr>"

lemma wit_laws: "byteorder_ok wit_ext" "json_num_ok wit_ext"
  using ref_byteorder_ok ref_json_num_ok by (simp_all add: byteorder_ok_def json_num_ok_def wit_ext_def)

lemma wit_header: "create_data_header wit_ext chs = create_data_header ref_ext chs"
  by (simp add: create_data_header_def metadata_def json_of_u64_def wit_ext_def)

lemma wit_built: "built wit_ext wit_ch"
proof (rule new_built)
  show "channel_new wit_ext ''a'' ''uint8'' (Some [2]) True Lz4 False = Ok wit_ch"
    by (simp add: channel_new_def shape_is_array_def channel_new_array_def Let_def mk_config_def wit_ch_def)
qed

lemma wit_config: "ch_config wit_ch = mk_config ''a'' ''uint8'' (Some [2]) True Lz4 False"
  by (simp add: wit_ch_def channel_array_def)

lemma wit_sendable: "list_all2 (sendable wit_ext) [wit_ch] [\<lparr>cd_value = AU8 [5, 6], cd_timestamp = (8, 9)\<rparr>]"
  using wit_built
  by (simp add: sendable_def wit_config mk_config_def accepts_def shape_is_array_def compressible_def lz4_ok_def)
    (simp add: wit_ext_def ref_ext_def)

lemma wit_create: "sender_create_data_header wit_ext wit_sender [wit_ch] = (Ok (), wit_ready)"
  by (simp add: sender_create_data_header_def Let_def wit_header wit_sender_def compress_data_def wit_ready_def)
    (simp add: hash_md5_def wit_ext_def ref_ext_def fun_eq_iff)

lemma wit_update: "update_main_header wit_ext (1, 2) wit_ready 7 (3, 4) = (7, wit_sent)"
  by (simp add: update_main_header_def Let_def ID_SIMULATED_def TIMESTAMP_NOW_def wit_sent_def wit_ready_def
      wit_main_def timestamp_json_def json_of_u64_def) (simp add: wit_ext_def)

lemma wit_json:
  "json_btree_ok wit_ext (create_data_header wit_ext [wit_ch]) ''d''"
  "json_map_ok wit_ext (sd_main_header wit_sent) ''m''"
  unfolding wit_header
  by (simp_all add: json_btree_ok_def json_map_ok_def wit_sent_def) (simp_all add: wit_ext_def str_bytes_def byte_of_char_def)

lemma wit_sender_ok: "sender_ok wit_sender"
  by (simp add: sender_ok_def wit_sender_def dh_compression_def)

lemma wit_compressible: "compressible wit_ext (sd_compression wit_sender) 1 bs"
  by (simp add: wit_sender_def compressible_def)

theorem send_then_parse_witness:
  "\<exists>fs m c.
      sender_send wit_ext wire_zmq (1, 2) wit_ready 7 (3, 4) [wit_ch] [Some \<lparr>cd_value = AU8 [5, 6], cd_timestamp = (8, 9)\<rparr>]
        = (Ok 7, wit_sent\<lparr>sd_socket := fs\<rparr>)
      \<and> parse_message wit_ext (map fst fs) None lhm_void False = (Ok m, c)
      \<and> m_id m = 7 \<and> m_timestamp m = (3, 4)
      \<and> message_channel_data m ''a'' = Some \<lparr>cd_value = AU8 [5, 6], cd_timestamp = (8, 9)\<rparr>"
proof -
  have "cfg_elements (ch_config wit_ch) = 2" by (simp add: wit_config mk_config_def elements_def)
  then have r: "received wit_ch \<lparr>cd_value = AU8 [5, 6], cd_timestamp = (8, 9)\<rparr> = \<lparr>cd_value = AU8 [5, 6], cd_timestamp = (8, 9)\<rparr>"
    by (simp add: received_def)
  have n: "ch_name wit_ch = ''a''" by (simp add: ch_name_def wit_config mk_config_def)
  have s: "sd_socket wit_ready = []" by (simp add: wit_ready_def wit_sender_def)
  show ?thesis
    using send_then_parse [OF wit_laws wit_sendable _ _ wit_sender_ok wit_create wit_json(1) wit_compressible
        wit_update wit_json(2), of None]
    by (auto simp add: r n s TIMESTAMP_NOW_def)
qed

theorem absent_value_is_refused_witness:
  "\<exists>fs. sender_send wit_ext wire_zmq (1, 2) wit_ready 7 (3, 4) [wit_ch] [None] = (Ok 7, wit_sent\<lparr>sd_socket := fs\<rparr>)
    \<and> parse_message wit_ext (map fst fs) None lhm_void False
        = (Err (InvalidData, ''Invalid number of messages''), lhm_void)"
proof -
  have b: "\<forall>ch \<in> set [wit_ch]. built wit_ext ch" using wit_built by simp
  have f: "message_frames wit_ext wit_sent ''m'' [wit_ch] [None]
      = ([(str_bytes ''m'', flags_more wit_sent), (sd_buffer wit_sent, flags_last wit_sent)], Ok ())"
    by (simp add: message_frames_def)
  have s: "sd_socket wit_ready = []" by (simp add: wit_ready_def wit_sender_def)
  show ?thesis
    using absent_value_is_refused [OF wit_laws(2) b wit_sender_ok wit_create wit_json(1) wit_compressible
        wit_update wit_json(2) _ _ _ f, of None]
    by (intro exI [of _ "[(str_bytes ''m'', flags_more wit_sent), (sd_buffer wit_sent, flags_last wit_sent)]"])
      (simp add: s)
qed

theorem sender_send_refines_witness:
  "sender_send wit_ext wire_zmq (1, 2) wit_ready 7 (3, 4) [wit_ch] [None]
    = (Ok 7, wit_sent\<lparr>sd_socket := [(str_bytes ''m'', 3), (str_bytes ''d'', 1)]\<rparr>)"
proof -
  have t: "json_print_map wit_ext (sd_main_header wit_sent) = Inr ''m''" by (simp add: wit_ext_def)
  show ?thesis
    using sender_send_refines [OF _ _ wit_update t, of "[None]" "[wit_ch]" wire_zmq]
    by (simp add: message_frames_def send_frames_wire then_res_def flags_more_def flags_last_def SNDMORE_def
        DONTWAIT_def wit_sent_def wit_ready_def wit_sender_def)
qed

lemma wire_zmq_log: "wire_log wire_zmq (\<lambda>k. k)"
  by (simp add: wire_log_def wire_zmq_def)

text \<open>The message of the witness has no values: its data header ends it.\<close>

theorem send_multipart_witness:
  "\<exists>fs. sender_send wit_ext wire_zmq (1, 2) wit_ready 7 (3, 4) [wit_ch] [None]
      = (Ok 7, wit_sent\<lparr>sd_socket := fs\<rparr>)
    \<and> length fs = 2 \<and> and (snd (hd fs)) SNDMORE = SNDMORE \<and> and (snd (last fs)) SNDMORE = 0"
proof -
  obtain r s' where o: "sender_send wit_ext wire_zmq (1, 2) wit_ready 7 (3, 4) [wit_ch] [None] = (r, s')"
    by (cases "sender_send wit_ext wire_zmq (1, 2) wit_ready 7 (3, 4) [wit_ch] [None]")
  have t: "json_print_map wit_ext (sd_main_header wit_sent) = Inr ''m''" by (simp add: wit_ext_def)
  have s': "r = Ok 7" "s' = wit_sent\<lparr>sd_socket := sd_socket s'\<rparr>" "sd_socket wit_ready = []"
    using o sender_send_calls [OF _ _ wit_update t, of "[None]" "[wit_ch]" wire_zmq]
    by (auto simp: message_frames_def send_frames_wire then_res_def wit_ready_def wit_sender_def)
  from send_multipart [OF wire_zmq_log o] s'(1,3) have "length (sd_socket s') = 2"
      "\<forall>f \<in> set (butlast (sd_socket s')). and (snd f) SNDMORE = SNDMORE" "and (snd (last (sd_socket s'))) SNDMORE = 0"
    by auto
  moreover from this(1) obtain f g where "sd_socket s' = [f, g]" by (auto simp: length_Suc_conv numeral_2_eq_2)
  ultimately show ?thesis using o s'(1,2) by (intro exI [of _ "sd_socket s'"]) simp
qed

end
