(* ===== verification/Bs_Receiver.thy ===== *)
theory Bs_Receiver
  imports Bs_Sender
begin

section \<open>The receiver (src/src/receiver.rs)\<close>

text \<open>
  The receiver's state, its endpoint and socket management, the reception of one message
  with its checks and counters, the listening loop, and the buffered mode.

  \<^item> The atomics, locks and channels around the shared fields are left out: every operation
    here is one that a single thread performs.  \<open>rv_diag_out\<close> and \<open>rv_commands\<close> list what
    was sent on \<open>tx_diag\<close> and to the monitor thread.
  \<^item> The order of the \<open>HashMap\<close> of sockets is that of an association list.
  \<^item> \<open>rv_counter\<close> is the process-wide socket counter.
  \<^item> An operation whose result is an \<open>option\<close> contains the loop of
    \<open>LimitedHashMap::set_max_size\<close>; \<open>None\<close> is that loop never ending.
\<close>

subsection \<open>State\<close>

datatype delivery_mode = Inline | Threaded | Buffered | Async

definition is_threaded :: "delivery_mode \<Rightarrow> bool" where
  "is_threaded m \<longleftrightarrow> m \<noteq> Inline"

datatype connection_mode = SharedMode | IndividualMode

text \<open>The sockets by endpoint, the endpoints to poll, and those found readable.\<close>

datatype 's connection_sockets =
    Shared "'s tracked_socket"
  | Individual "(string \<times> 's tracked_socket) list" "string list" "string list"

fun update_poll_items :: "'s connection_sockets \<Rightarrow> 's connection_sockets" where
  "update_poll_items (Shared s) = Shared s"
| "update_poll_items (Individual ss polls ready) = Individual ss (map fst ss) ready"

fun sockets_clear :: "'s connection_sockets \<Rightarrow> 's connection_sockets" where
  "sockets_clear (Shared s) = Shared s"
| "sockets_clear (Individual ss polls ready) = Individual [] [] ready"

record stats =
  st_messages :: u32
  st_errors :: u32
  st_diagnostics :: "string \<Rightarrow> (endpoint_diag \<Rightarrow> u32 option) option"

definition stats_new :: stats where
  "stats_new = \<lparr>st_messages = 0, st_errors = 0, st_diagnostics = Map.empty\<rparr>"

definition increase_messages :: "stats \<Rightarrow> stats" where
  "increase_messages s = s\<lparr>st_messages := st_messages s + 1\<rparr>"

definition increase_errors :: "stats \<Rightarrow> stats" where
  "increase_errors s = s\<lparr>st_errors := st_errors s + 1\<rparr>"

definition stats_reset :: "stats \<Rightarrow> stats" where
  "stats_reset s = s\<lparr>st_messages := 0, st_errors := 0, st_diagnostics := Map.empty\<rparr>"

record received_message =
  rm_endpoint :: "string option"
  rm_message :: message

record forwarder_config =
  fc_socket_type :: socket_type
  fc_transport :: transport
  fc_sndhwm :: "i32 option"

definition VALID_ID_RANGE :: u64 where
  "VALID_ID_RANGE = 3600 * 24 * 100"

definition CHECK_ID_POSITIVE :: u64 where
  "CHECK_ID_POSITIVE = 1"

definition CHECK_ID_MONOTONIC :: u64 where
  "CHECK_ID_MONOTONIC = 2"

definition CHECK_ID_RANGE :: u64 where
  "CHECK_ID_RANGE = 3"

definition CHECK_ID_PAST_RANGE :: u64 where
  "CHECK_ID_PAST_RANGE = 4"

definition CHECK_ALL :: u64 where
  "CHECK_ALL = not 0"

datatype receiver_command = CmdConnect | CmdDisconnect | CmdAddEndpoint string | CmdRemoveEndpoint string

record 's receiver =
  rv_sockets :: "'s connection_sockets"
  rv_endpoints :: "string list"
  rv_connected :: bool
  rv_socket_type :: socket_type
  rv_header_buffer :: header_cache
  rv_id_buffer :: "string \<Rightarrow> u64 option"
  rv_check_mask :: u64
  rv_fifo :: "received_message fifo option"
  rv_stats :: stats
  rv_index :: u32
  rv_forwarder_config :: "forwarder_config option"
  rv_forwarder :: "'s sender option"
  rv_delivery_mode :: delivery_mode
  rv_raw :: bool
  rv_connection_mode :: connection_mode
  rv_monitored :: bool
  rv_forked :: bool
  rv_options :: socket_options
  rv_diag_out :: "endpoint_event list"
  rv_commands :: "monitor_command list"
  rv_counter :: u32

text \<open>\<open>index\<close> is the receiver's number, \<open>counter\<close> the socket counter.\<close>

definition receiver_new ::
  "'s zmq \<Rightarrow> u32 \<Rightarrow> u32 \<Rightarrow> string list option \<Rightarrow> socket_type \<Rightarrow> connection_mode \<Rightarrow> 's receiver res" where
  "receiver_new z index counter endpoints st cm =
     (let (ss, counter') =
        (case cm of
           SharedMode \<Rightarrow> (case tracked_new counter (z_new z st) index of (r, c) \<Rightarrow> (res_map Shared r, c))
         | IndividualMode \<Rightarrow> (Ok (Individual [] [] []), counter))
      in res_map (\<lambda>sockets.
           \<lparr>rv_sockets = sockets, rv_endpoints = (case endpoints of Some eps \<Rightarrow> eps | None \<Rightarrow> []),
            rv_connected = False, rv_socket_type = st, rv_header_buffer = lhm_void, rv_id_buffer = Map.empty,
            rv_check_mask = CHECK_ALL, rv_fifo = None, rv_stats = stats_new, rv_index = index,
            rv_forwarder_config = None, rv_forwarder = None, rv_delivery_mode = Inline, rv_raw = False,
            rv_connection_mode = cm, rv_monitored = False, rv_forked = False, rv_options = socket_options_new,
            rv_diag_out = [], rv_commands = [], rv_counter = counter'\<rparr>) ss)"

definition connections :: "'s receiver \<Rightarrow> nat" where
  "connections r = length (rv_endpoints r)"

definition rv_has_endpoint :: "'s receiver \<Rightarrow> string \<Rightarrow> bool" where
  "rv_has_endpoint r ep \<longleftrightarrow> ep \<in> set (rv_endpoints r)"

subsection \<open>Counters and diagnostics\<close>

definition diag_count :: "stats \<Rightarrow> string \<Rightarrow> endpoint_diag \<Rightarrow> u32" where
  "diag_count s ep d = (case st_diagnostics s ep of Some m \<Rightarrow> (case m d of Some n \<Rightarrow> n | None \<Rightarrow> 0) | None \<Rightarrow> 0)"

definition stats_increase :: "stats \<Rightarrow> string option \<Rightarrow> endpoint_diag \<Rightarrow> stats" where
  "stats_increase s endpoint d =
     (let ep = (case endpoint of Some e \<Rightarrow> e | None \<Rightarrow> []);
          m = (case st_diagnostics s ep of Some m \<Rightarrow> m | None \<Rightarrow> Map.empty);
          n = (case m d of Some n \<Rightarrow> n | None \<Rightarrow> 0)
      in s\<lparr>st_diagnostics := (st_diagnostics s)(ep \<mapsto> m(d \<mapsto> n + 1))\<rparr>)"

definition increse_stats :: "'s receiver \<Rightarrow> string option \<Rightarrow> endpoint_diag \<Rightarrow> 's receiver" where
  "increse_stats r endpoint d = r\<lparr>rv_stats := stats_increase (rv_stats r) endpoint d\<rparr>"

definition send_diag :: "'s receiver \<Rightarrow> string option \<Rightarrow> endpoint_diag \<Rightarrow> 's receiver" where
  "send_diag r endpoint d =
     (let r1 = increse_stats r endpoint d
      in if rv_monitored r1
         then (case endpoint of
                 Some ep \<Rightarrow> r1\<lparr>rv_diag_out := rv_diag_out r1 @ [EvDiagnostic ep d]\<rparr>
               | None \<Rightarrow> r1)
         else r1)"

definition remove_stats :: "'s receiver \<Rightarrow> string \<Rightarrow> 's receiver" where
  "remove_stats r ep =
     r\<lparr>rv_stats := (rv_stats r)\<lparr>st_diagnostics := (st_diagnostics (rv_stats r))(ep := None)\<rparr>\<rparr>"

definition reset_counters :: "'s receiver \<Rightarrow> 's receiver" where
  "reset_counters r = r\<lparr>rv_stats := stats_reset (rv_stats r)\<rparr>"

definition endpoint_diagnostic :: "'s receiver \<Rightarrow> string \<Rightarrow> endpoint_diag \<Rightarrow> u32 option" where
  "endpoint_diagnostic r ep d = Option.bind (st_diagnostics (rv_stats r) ep) (\<lambda>m. m d)"

definition header_changes :: "'s receiver \<Rightarrow> string \<Rightarrow> u32" where
  "header_changes r ep =
     (case endpoint_diagnostic r ep HeaderChange of
        Some n \<Rightarrow> n
      | None \<Rightarrow> if endpoint_diagnostic r ep DiagMessages \<noteq> None then 1 else 0)"

definition message_count :: "'s receiver \<Rightarrow> u32" where
  "message_count r = st_messages (rv_stats r)"

definition error_count :: "'s receiver \<Rightarrow> u32" where
  "error_count r = st_errors (rv_stats r)"

definition enable_check :: "'s receiver \<Rightarrow> u64 \<Rightarrow> 's receiver" where
  "enable_check r check = r\<lparr>rv_check_mask := or (rv_check_mask r) check\<rparr>"

definition disable_check :: "'s receiver \<Rightarrow> u64 \<Rightarrow> 's receiver" where
  "disable_check r check = r\<lparr>rv_check_mask := and (rv_check_mask r) (not check)\<rparr>"

subsection \<open>Checking and receiving one message\<close>

text \<open>\<open>sim\<close> is the outcome of \<open>current_id\<close>.\<close>

definition out_of_range :: "u64 \<Rightarrow> u64 \<Rightarrow> u64 \<Rightarrow> bool" where
  "out_of_range chk pid sim =
     (if and chk CHECK_ID_PAST_RANGE \<noteq> 0
      then VALID_ID_RANGE < (if sim \<le> pid then pid - sim else sim - pid)
      else sim < pid \<and> VALID_ID_RANGE < pid - sim)"

definition check_message ::
  "u64 res \<Rightarrow> 's receiver \<Rightarrow> message \<Rightarrow> string option \<Rightarrow> message res \<times> 's receiver" where
  "check_message sim r m endpoint =
     (let pid = m_id m; chk = rv_check_mask r in
      if and chk CHECK_ID_POSITIVE \<noteq> 0 \<and> pid \<le> 0
      then (Err (InvalidData, ''Non positive ID''), send_diag r endpoint NonPositiveId)
      else if and chk CHECK_ID_RANGE \<noteq> 0 \<and> (case sim of Ok s \<Rightarrow> out_of_range chk pid s | _ \<Rightarrow> False)
      then (Err (InvalidData, ''Out of range ID''), send_diag r endpoint OutOfRangeId)
      else
        let last = (if and chk CHECK_ID_MONOTONIC \<noteq> 0 then Option.bind endpoint (rv_id_buffer r) else None) in
        if last \<noteq> None \<and> pid < the last
        then (Err (InvalidData, ''Decreasing ID''), send_diag r endpoint DecreasingId)
        else if last \<noteq> None \<and> the last = pid
        then (Err (InvalidData, ''Repeated ID''), send_diag r endpoint RepeatedId)
        else
          let r1 = (case endpoint of
                Some ep \<Rightarrow> if and chk CHECK_ID_MONOTONIC \<noteq> 0
                           then r\<lparr>rv_id_buffer := (rv_id_buffer r)(ep \<mapsto> pid)\<rparr> else r
              | None \<Rightarrow> r);
              r2 = (if message_header_changed m then send_diag r1 endpoint HeaderChange else r1)
          in (Ok m, r2))"

text \<open>A message is forwarded before it is parsed; a forwarding error is only logged.\<close>

definition forward_message :: "'s zmq \<Rightarrow> 's receiver \<Rightarrow> byte list list \<Rightarrow> 's receiver" where
  "forward_message z r parts =
     r\<lparr>rv_forwarder := map_option (\<lambda>s. snd (sender_forward z s parts)) (rv_forwarder r)\<rparr>"

definition process_message ::
  "ext \<Rightarrow> 's zmq \<Rightarrow> u64 res \<Rightarrow> 's receiver \<Rightarrow> string option \<Rightarrow> byte list list \<Rightarrow> message res \<times> 's receiver" where
  "process_message L z sim r endpoint parts =
     (let r1 = forward_message z r parts;
          (msg, cache) = parse_message L parts endpoint (rv_header_buffer r1) (rv_raw r1);
          r2 = r1\<lparr>rv_header_buffer := cache\<rparr>
      in case msg of
           Ok m \<Rightarrow> check_message sim r2 m endpoint
         | Err e \<Rightarrow>
             (Err e, send_diag r2 endpoint (if fst e = DECOMPRESSION_ERROR then DecompressionError else ParsingError))
         | Panic \<Rightarrow> (Panic, r2))"

text \<open>\<open>AList.map_entry\<close> style update of one socket in place.\<close>

fun update_socket :: "string \<Rightarrow> 'b \<Rightarrow> (string \<times> 'b) list \<Rightarrow> (string \<times> 'b) list" where
  "update_socket ep x [] = []"
| "update_socket ep x ((k, v) # ss) = (if k = ep then (k, x) # ss else (k, v) # update_socket ep x ss)"

text \<open>The endpoints whose poll item is readable, in order.\<close>

definition readable :: "string list \<Rightarrow> bool list \<Rightarrow> string list" where
  "readable eps flags = map fst (filter snd (zip eps flags))"

definition receive_ready ::
  "'s zmq \<Rightarrow> 's receiver \<Rightarrow> (string \<times> 's tracked_socket) list \<Rightarrow> string list \<Rightarrow> string list
   \<Rightarrow> (string option \<times> byte list list res) \<times> 's receiver" where
  "receive_ready z r ss polls ready =
     (case ready of
        [] \<Rightarrow> ((None, Err (TimedOut, ''No socket was readable'')), r\<lparr>rv_sockets := Individual ss polls []\<rparr>)
      | ep # rest \<Rightarrow>
          (case map_of ss ep of
             None \<Rightarrow> ((None, Err (TimedOut, ''No socket was readable'')), r\<lparr>rv_sockets := Individual ss polls rest\<rparr>)
           | Some ts \<Rightarrow>
               (case tracked_receive z ts of
                  (res, ts') \<Rightarrow>
                    ((Some ep, res), r\<lparr>rv_sockets := Individual (update_socket ep ts' ss) polls rest\<rparr>))))"

definition raw_receive :: "'s zmq \<Rightarrow> 's receiver \<Rightarrow> (string option \<times> byte list list res) \<times> 's receiver" where
  "raw_receive z r =
     (case rv_sockets r of
        Shared ts \<Rightarrow>
          (case tracked_receive z ts of (res, ts') \<Rightarrow> ((None, res), r\<lparr>rv_sockets := Shared ts'\<rparr>))
      | Individual ss polls ready \<Rightarrow>
          if ready = [] then
            (if \<exists>ep \<in> set polls. map_of ss ep = None
             then ((None, Err (OtherError, ''Poll endpoint not found'')),
                   r\<lparr>rv_sockets := update_poll_items (rv_sockets r)\<rparr>)
             else
               (case z_poll z (map (\<lambda>ep. ts_socket (the (map_of ss ep))) polls) of
                  Inl e \<Rightarrow> ((None, Err e), r)
                | Inr flags \<Rightarrow> receive_ready z r ss polls (readable polls flags)))
          else receive_ready z r ss polls ready)"

definition receive ::
  "ext \<Rightarrow> 's zmq \<Rightarrow> u64 res \<Rightarrow> 's receiver \<Rightarrow> received_message res \<times> 's receiver" where
  "receive L z sim r =
     (if connections r = 0 then (Err (NotConnected, ''No connected endpoint''), r)
      else
        let ((endpoint, parts), r1) = raw_receive z r in
        case parts of
          Err e \<Rightarrow> (Err e, if fst e \<noteq> TimedOut then send_diag r1 endpoint SocketError else r1)
        | Panic \<Rightarrow> (Panic, r1)
        | Ok ps \<Rightarrow>
            (case process_message L z sim r1 endpoint ps of
               (Ok m, r2) \<Rightarrow>
                 (Ok \<lparr>rm_endpoint = endpoint, rm_message = m\<rparr>,
                  increse_stats (r2\<lparr>rv_stats := increase_messages (rv_stats r2)\<rparr>) endpoint DiagMessages)
             | (Err e, r2) \<Rightarrow>
                 (Err e, increse_stats (r2\<lparr>rv_stats := increase_errors (rv_stats r2)\<rparr>) endpoint DiagErrors)
             | (Panic, r2) \<Rightarrow> (Panic, r2)))"

subsection \<open>Endpoints and connections\<close>

definition set_header_buffer_size :: "'s receiver \<Rightarrow> nat \<Rightarrow> 's receiver option" where
  "set_header_buffer_size r n =
     (if lhm_is_void (rv_header_buffer r) then Some (r\<lparr>rv_header_buffer := lhm_new n\<rparr>)
      else map_option (\<lambda>b. r\<lparr>rv_header_buffer := b\<rparr>) (lhm_set_max_size (rv_header_buffer r) n))"

text \<open>The environment of \<open>enable_monitoring\<close>: the fresh uuid and the pair socket's outcomes.\<close>

record mon_env =
  mn_uuid :: string
  mn_pair :: "io_error option"
  mn_paired :: "io_error option"

text \<open>A new tracked socket of the individual mode: connect, monitor, set options.\<close>

definition open_endpoint ::
  "'s zmq \<Rightarrow> mon_env \<Rightarrow> 's receiver \<Rightarrow> string \<Rightarrow> 's tracked_socket res \<times> 's receiver" where
  "open_endpoint z env r ep =
     (case tracked_new (rv_counter r) (z_new z (rv_socket_type r)) (rv_index r) of
        (Err e, c) \<Rightarrow> (Err e, r\<lparr>rv_counter := c\<rparr>)
      | (Panic, c) \<Rightarrow> (Panic, r\<lparr>rv_counter := c\<rparr>)
      | (Ok ts, c) \<Rightarrow>
          (case tracked_connect z ts ep of
             (Err e, _) \<Rightarrow> (Err e, r\<lparr>rv_counter := c\<rparr>)
           | (Panic, _) \<Rightarrow> (Panic, r\<lparr>rv_counter := c\<rparr>)
           | (Ok _, ts1) \<Rightarrow>
               (case (if rv_monitored r
                      then enable_monitoring z (mn_uuid env) (mn_pair env) (mn_paired env) (Some ep) ts1
                      else (Ok (), ts1, [])) of
                  (Err e, _, cmds) \<Rightarrow> (Err e, r\<lparr>rv_counter := c, rv_commands := rv_commands r @ cmds\<rparr>)
                | (Panic, _, cmds) \<Rightarrow> (Panic, r\<lparr>rv_counter := c, rv_commands := rv_commands r @ cmds\<rparr>)
                | (Ok _, ts2, cmds) \<Rightarrow>
                    (case socket_options_set z (rv_options r) (ts_socket ts2) of
                       (_, Some e) \<Rightarrow> (Err e, r\<lparr>rv_counter := c, rv_commands := rv_commands r @ cmds\<rparr>)
                     | (s, None) \<Rightarrow>
                         (Ok (ts2\<lparr>ts_socket := s\<rparr>), r\<lparr>rv_counter := c, rv_commands := rv_commands r @ cmds\<rparr>)))))"

text \<open>The match of \<open>connect_endpoint\<close> on the kind of sockets.\<close>

definition connect_socket ::
  "'s zmq \<Rightarrow> mon_env \<Rightarrow> 's receiver \<Rightarrow> string \<Rightarrow> unit res \<times> 's receiver" where
  "connect_socket z env r ep =
     (case rv_sockets r of
        Shared ts \<Rightarrow> (case tracked_connect z ts ep of (x, ts') \<Rightarrow> (x, r\<lparr>rv_sockets := Shared ts'\<rparr>))
      | Individual ss polls ready \<Rightarrow>
          (case map_of ss ep of
             Some _ \<Rightarrow> (Ok (), r)
           | None \<Rightarrow>
               (case open_endpoint z env r ep of
                  (Ok ts, r') \<Rightarrow>
                    (Ok (), r'\<lparr>rv_sockets := update_poll_items (Individual (AList.update ep ts ss) polls ready)\<rparr>)
                | (Err e, r') \<Rightarrow> (Err e, r')
                | (Panic, r') \<Rightarrow> (Panic, r'))))"

definition connect_endpoint ::
  "'s zmq \<Rightarrow> mon_env \<Rightarrow> 's receiver \<Rightarrow> string \<Rightarrow> (unit res \<times> 's receiver) option" where
  "connect_endpoint z env r ep =
     (case connect_socket z env r ep of
        (Ok _, r1) \<Rightarrow> map_option (\<lambda>r2. (Ok (), r2)) (set_header_buffer_size r1 (connections r1))
      | (Err e, r1) \<Rightarrow> Some (Err e, r1)
      | (Panic, r1) \<Rightarrow> Some (Panic, r1))"

definition rv_disconnect_endpoint :: "'s zmq \<Rightarrow> 's receiver \<Rightarrow> string \<Rightarrow> 's receiver" where
  "rv_disconnect_endpoint z r ep =
     (case rv_sockets r of
        Shared ts \<Rightarrow> r\<lparr>rv_sockets := Shared (disconnect_endpoint z ts ep)\<rparr>
      | Individual ss polls ready \<Rightarrow>
          (case map_of ss ep of
             None \<Rightarrow> r
           | Some ts \<Rightarrow>
               (let ts1 = tracked_disconnect z ts;
                    cmds = (if rv_monitored r then snd (snd (disable_monitoring z ts1)) else [])
                in r\<lparr>rv_sockets := update_poll_items (Individual (AList.delete ep ss) polls ready),
                     rv_commands := rv_commands r @ cmds\<rparr>)))"

fun connect_all ::
  "'s zmq \<Rightarrow> mon_env \<Rightarrow> 's receiver \<Rightarrow> string list \<Rightarrow> (unit res \<times> 's receiver) option" where
  "connect_all z env r [] = Some (Ok (), r)"
| "connect_all z env r (ep # eps) =
     (case connect_endpoint z env r ep of
        None \<Rightarrow> None
      | Some (Ok _, r') \<Rightarrow> connect_all z env r' eps
      | Some (Err e, r') \<Rightarrow> Some (Err e, r')
      | Some (Panic, r') \<Rightarrow> Some (Panic, r'))"

text \<open>
  The operations of the public interface.  On a receiver whose thread runs elsewhere they
  are sent to it as commands; \<open>remote\<close> is what comes back.
\<close>

definition acts_locally :: "'s receiver \<Rightarrow> bool" where
  "acts_locally r \<longleftrightarrow> \<not> is_threaded (rv_delivery_mode r) \<or> rv_forked r"

definition rv_connect ::
  "'s zmq \<Rightarrow> mon_env \<Rightarrow> (receiver_command \<Rightarrow> unit res) \<Rightarrow> 's receiver \<Rightarrow> (unit res \<times> 's receiver) option" where
  "rv_connect z env remote r =
     (if acts_locally r then
        (if rv_connected r then Some (Ok (), r)
         else case connect_all z env r (rv_endpoints r) of
                None \<Rightarrow> None
              | Some (Ok _, r') \<Rightarrow> Some (Ok (), r'\<lparr>rv_connected := True\<rparr>)
              | Some (Err e, r') \<Rightarrow> Some (Err e, r')
              | Some (Panic, r') \<Rightarrow> Some (Panic, r'))
      else Some (remote CmdConnect, r))"

definition rv_disconnect :: "'s zmq \<Rightarrow> 's receiver \<Rightarrow> 's receiver" where
  "rv_disconnect z r =
     (if acts_locally r \<and> rv_connected r
      then fold (\<lambda>ep r. rv_disconnect_endpoint z r ep) (rv_endpoints r) (r\<lparr>rv_connected := False\<rparr>)
      else r)"

definition add_endpoint ::
  "'s zmq \<Rightarrow> mon_env \<Rightarrow> (receiver_command \<Rightarrow> unit res) \<Rightarrow> 's receiver \<Rightarrow> string \<Rightarrow> (unit res \<times> 's receiver) option" where
  "add_endpoint z env remote r ep =
     (if acts_locally r then
        (let r1 = (if ep \<in> set (rv_endpoints r) then r else r\<lparr>rv_endpoints := rv_endpoints r @ [ep]\<rparr>)
         in if rv_connected r1 then connect_endpoint z env r1 ep else Some (Ok (), r1))
      else Some (remote (CmdAddEndpoint ep), r))"

definition remove_endpoint :: "'s zmq \<Rightarrow> 's receiver \<Rightarrow> string \<Rightarrow> 's receiver" where
  "remove_endpoint z r ep =
     (if acts_locally r then
        (let r1 = (if rv_connected r then rv_disconnect_endpoint z r ep else r)
         in remove_stats (r1\<lparr>rv_endpoints := filter (\<lambda>e. e \<noteq> ep) (rv_endpoints r1)\<rparr>) ep)
      else r)"

subsection \<open>Buffered mode\<close>

text \<open>\<open>start\<close> also forks the listening thread; \<open>interrupt\<close>, \<open>join\<close> are the thread's.\<close>

definition rv_start :: "'s receiver \<Rightarrow> nat \<Rightarrow> unit res \<times> 's receiver" where
  "rv_start r buffer_size =
     (if rv_fifo r \<noteq> None then (Err (AlreadyExists, ''Receiver already started''), r)
      else (Ok (), (reset_counters (r\<lparr>rv_fifo := Some (fifo_new buffer_size)\<rparr>))
                     \<lparr>rv_monitored := False, rv_delivery_mode := Buffered\<rparr>))"

definition rv_get :: "'s receiver \<Rightarrow> received_message option \<times> 's receiver" where
  "rv_get r =
     (case rv_fifo r of
        None \<Rightarrow> (None, r)
      | Some q \<Rightarrow> (case fifo_get q of (m, q') \<Rightarrow> (m, r\<lparr>rv_fifo := Some q'\<rparr>)))"

definition rv_available :: "'s receiver \<Rightarrow> u32" where
  "rv_available r = (case rv_fifo r of Some q \<Rightarrow> word_of_nat (fifo_available_count q) | None \<Rightarrow> 0)"

definition rv_dropped :: "'s receiver \<Rightarrow> u32" where
  "rv_dropped r = (case rv_fifo r of Some q \<Rightarrow> fifo_dropped_count q | None \<Rightarrow> 0)"

text \<open>\<open>env\<close> is what other threads do to the queue during the wait, \<open>timed_out\<close> its result.\<close>

definition rv_wait ::
  "'s receiver \<Rightarrow> (received_message fifo \<Rightarrow> received_message fifo) \<Rightarrow> bool \<Rightarrow> received_message res \<times> 's receiver" where
  "rv_wait r env timed_out =
     (case rv_fifo r of
        None \<Rightarrow> (Err (Unsupported, ''Operation only valid for buffered delivery mode''), r)
      | Some q \<Rightarrow>
          (case fifo_wait q env timed_out of
             (None, q') \<Rightarrow> (Err (TimedOut, ''Timeout waiting for message''), r\<lparr>rv_fifo := Some q'\<rparr>)
           | (Some m, q') \<Rightarrow> (Ok m, r\<lparr>rv_fifo := Some q'\<rparr>)))"

text \<open>One environment per wait.\<close>

fun wait_messages ::
  "'s receiver \<Rightarrow> ((received_message fifo \<Rightarrow> received_message fifo) \<times> bool) list
   \<Rightarrow> received_message list res \<times> 's receiver" where
  "wait_messages r [] = (Ok [], r)"
| "wait_messages r ((env, timed_out) # es) =
     (case rv_wait r env timed_out of
        (Ok m, r') \<Rightarrow> (case wait_messages r' es of (res, r'') \<Rightarrow> (res_map ((#) m) res, r''))
      | (Err e, r') \<Rightarrow> (Err e, r')
      | (Panic, r') \<Rightarrow> (Panic, r'))"

subsection \<open>The listening loop\<close>

text \<open>What one command does in the listening thread; the loop of \<open>try_recv\<close> runs them in turn.\<close>

definition run_command ::
  "'s zmq \<Rightarrow> mon_env \<Rightarrow> 's receiver \<Rightarrow> receiver_command \<Rightarrow> (unit res \<times> 's receiver) option" where
  "run_command z env r c =
     (case c of
        CmdConnect \<Rightarrow> rv_connect z env (\<lambda>_. Ok ()) r
      | CmdDisconnect \<Rightarrow> Some (Ok (), rv_disconnect z r)
      | CmdAddEndpoint ep \<Rightarrow> add_endpoint z env (\<lambda>_. Ok ()) r ep
      | CmdRemoveEndpoint ep \<Rightarrow> Some (Ok (), remove_endpoint z r ep))"

fun run_commands ::
  "'s zmq \<Rightarrow> mon_env \<Rightarrow> 's receiver \<Rightarrow> receiver_command list \<Rightarrow> (unit res \<times> 's receiver) option" where
  "run_commands z env r [] = Some (Ok (), r)"
| "run_commands z env r (c # cs) =
     (case run_command z env r c of
        None \<Rightarrow> None
      | Some (Panic, r') \<Rightarrow> Some (Panic, r')
      | Some (_, r') \<Rightarrow> run_commands z env r' cs)"

text \<open>Delivery: to the callback (the list of the result), or to the queue in buffered mode.\<close>

definition deliver :: "'s receiver \<Rightarrow> received_message res \<Rightarrow> received_message list \<times> 's receiver" where
  "deliver r res =
     (case res of
        Ok m \<Rightarrow> (case rv_fifo r of None \<Rightarrow> ([m], r) | Some q \<Rightarrow> ([], r\<lparr>rv_fifo := Some (fifo_add q m)\<rparr>))
      | _ \<Rightarrow> ([], r))"

text \<open>What an iteration meets: the clock, the interruption flag and the pending commands.\<close>

record listen_input =
  li_sim :: "u64 res"
  li_interrupted :: bool
  li_commands :: "receiver_command list"
  li_env :: mon_env

datatype listen_outcome = Continue | Stopped | Panicked

text \<open>One iteration: the messages called back, whether the loop goes on, and the receiver.\<close>

definition listen_step ::
  "ext \<Rightarrow> 's zmq \<Rightarrow> u32 option \<Rightarrow> 's receiver \<Rightarrow> listen_input
   \<Rightarrow> (received_message list \<times> listen_outcome \<times> 's receiver) option" where
  "listen_step L z num_messages r i =
     (case receive L z (li_sim i) r of
        (Panic, r1) \<Rightarrow> Some ([], Panicked, r1)
      | (res, r1) \<Rightarrow>
          (let (out, r2) = deliver r1 res in
           if (case num_messages of Some m \<Rightarrow> m \<le> message_count r2 | None \<Rightarrow> False) then Some (out, Stopped, r2)
           else if li_interrupted i then Some (out, Stopped, r2)
           else
             (case run_commands z (li_env i) r2 (li_commands i) of
                None \<Rightarrow> None
              | Some (Panic, r3) \<Rightarrow> Some (out, Panicked, r3)
              | Some (_, r3) \<Rightarrow> Some (out, Continue, r3))))"

text \<open>
  The loop, over the inputs of the iterations it has made so far.  It is left only by an
  iteration that says so; \<open>Continue\<close> after all of them means that it is still running.
\<close>

fun listen_loop ::
  "ext \<Rightarrow> 's zmq \<Rightarrow> u32 option \<Rightarrow> 's receiver \<Rightarrow> listen_input list
   \<Rightarrow> (received_message list \<times> listen_outcome \<times> 's receiver) option" where
  "listen_loop L z n r [] = Some ([], Continue, r)"
| "listen_loop L z n r (i # is) =
     (case listen_step L z n r i of
        None \<Rightarrow> None
      | Some (out, Continue, r') \<Rightarrow>
          (case listen_loop L z n r' is of
             None \<Rightarrow> None | Some (out', o', r'') \<Rightarrow> Some (out @ out', o', r''))
      | Some (out, o', r') \<Rightarrow> Some (out, o', r'))"

text \<open>\<open>stop_forwarder\<close>: only a forwarder made from a configuration is stopped.\<close>

definition stop_forwarder :: "'s zmq \<Rightarrow> string option \<Rightarrow> 's receiver \<Rightarrow> 's receiver" where
  "stop_forwarder z app r =
     (if rv_forwarder_config r \<noteq> None
      then r\<lparr>rv_forwarder := map_option (sender_stop z app) (rv_forwarder r)\<rparr> else r)"

text \<open>The part of \<open>listen\<close> before its loop; a forwarder that cannot be made or bound is dropped.\<close>

definition start_forwarder :: "'s zmq \<Rightarrow> string option \<Rightarrow> 's receiver \<Rightarrow> 's receiver" where
  "start_forwarder z app r =
     (case rv_forwarder_config r of
        None \<Rightarrow> r
      | Some cfg \<Rightarrow>
          (case sender_new z (z_new z (fc_socket_type cfg)) (fc_socket_type cfg) (fc_transport cfg) None None None of
             Ok s \<Rightarrow>
               (case sender_start z app s of
                  (Ok _, s1) \<Rightarrow>
                    (let s2 = (case fc_sndhwm cfg of
                          Some hwm \<Rightarrow> s1\<lparr>sd_socket := fst (z_set z (sd_socket s1) (OptSndhwm hwm))\<rparr>
                        | None \<Rightarrow> s1)
                     in r\<lparr>rv_forwarder := Some s2\<rparr>)
                | (_, _) \<Rightarrow> r)
           | _ \<Rightarrow> r))"

definition listen_begin ::
  "'s zmq \<Rightarrow> string option \<Rightarrow> mon_env \<Rightarrow> 's receiver \<Rightarrow> (unit res \<times> 's receiver) option" where
  "listen_begin z app env r =
     (let r1 = (if rv_forked r then r else r\<lparr>rv_delivery_mode := Inline\<rparr>)
      in rv_connect z env (\<lambda>_. Ok ()) (start_forwarder z app (reset_counters r1)))"

text \<open>
  \<open>listen\<close> over the iterations made so far: its result, which is \<open>None\<close> as long as the loop is
  running, the messages called back, and the receiver.  (The outer \<open>None\<close> is a header cache
  whose shrinking does not end.)
\<close>

definition listen ::
  "ext \<Rightarrow> 's zmq \<Rightarrow> string option \<Rightarrow> u32 option \<Rightarrow> 's receiver \<Rightarrow> mon_env \<Rightarrow> listen_input list
   \<Rightarrow> (unit res option \<times> received_message list \<times> 's receiver) option" where
  "listen L z app num_messages r env inputs =
     (case listen_begin z app env r of
        None \<Rightarrow> None
      | Some (Err e, r1) \<Rightarrow> Some (Some (Err e), [], r1)
      | Some (Panic, r1) \<Rightarrow> Some (Some Panic, [], r1)
      | Some (Ok _, r1) \<Rightarrow>
          (case listen_loop L z num_messages r1 inputs of
             None \<Rightarrow> None
           | Some (out, Continue, r2) \<Rightarrow> Some (None, out, r2)
           | Some (out, Panicked, r2) \<Rightarrow> Some (Some Panic, out, r2)
           | Some (out, Stopped, r2) \<Rightarrow> Some (Some (Ok ()), out, stop_forwarder z app r2)))"

text \<open>
  \<open>fork\<close> and \<open>listen_task\<close>: the receiver the listening thread makes, from a new one and
  the fields handed over.
\<close>

definition forked_receiver :: "'s receiver \<Rightarrow> 's receiver \<Rightarrow> 's receiver" where
  "forked_receiver outer new =
     new\<lparr>rv_fifo := rv_fifo outer, rv_stats := rv_stats outer,
         rv_forwarder_config := rv_forwarder_config outer, rv_raw := rv_raw outer,
         rv_monitored := rv_monitored outer, rv_diag_out := rv_diag_out outer, rv_forked := True,
         rv_endpoints := rv_endpoints outer\<rparr>"

definition listen_task_receiver :: "'s zmq \<Rightarrow> u32 \<Rightarrow> u32 \<Rightarrow> 's receiver \<Rightarrow> 's receiver res" where
  "listen_task_receiver z index counter outer =
     res_map (forked_receiver outer)
       (receiver_new z index counter None (rv_socket_type outer) (rv_connection_mode outer))"

text \<open>
  \<open>fork\<close> takes the monitor out of the receiver: it goes to the thread, with the other fields
  as they are then (\<open>after\<close> is the receiver when \<open>start\<close> returns).
\<close>

definition handed_over :: "'s receiver \<Rightarrow> 's receiver \<Rightarrow> 's receiver" where
  "handed_over before after = after\<lparr>rv_monitored := rv_monitored before\<rparr>"

lemma handed_over_fields [simp]:
  "rv_fifo (handed_over r r') = rv_fifo r'" "rv_connection_mode (handed_over r r') = rv_connection_mode r'"
  "rv_endpoints (handed_over r r') = rv_endpoints r'" "rv_raw (handed_over r r') = rv_raw r'"
  "rv_monitored (handed_over r r') = rv_monitored r" "rv_socket_type (handed_over r r') = rv_socket_type r'"
  "rv_forwarder_config (handed_over r r') = rv_forwarder_config r'" "rv_stats (handed_over r r') = rv_stats r'"
  by (simp_all add: handed_over_def)

subsection \<open>Errors of the listening thread\<close>

text \<open>\<open>Display\<close> of \<open>std::io::ErrorKind\<close>.\<close>

fun show_kind :: "error_kind \<Rightarrow> string" where
  "show_kind NotFound = ''entity not found''"
| "show_kind PermissionDenied = ''permission denied''"
| "show_kind ConnectionRefused = ''connection refused''"
| "show_kind ConnectionReset = ''connection reset''"
| "show_kind ConnectionAborted = ''connection aborted''"
| "show_kind NotConnected = ''not connected''"
| "show_kind AddrInUse = ''address in use''"
| "show_kind AddrNotAvailable = ''address not available''"
| "show_kind BrokenPipe = ''broken pipe''"
| "show_kind AlreadyExists = ''entity already exists''"
| "show_kind WouldBlock = ''operation would block''"
| "show_kind InvalidInput = ''invalid input parameter''"
| "show_kind InvalidData = ''invalid data''"
| "show_kind TimedOut = ''timed out''"
| "show_kind Interrupted = ''operation interrupted''"
| "show_kind Unsupported = ''unsupported''"
| "show_kind UnexpectedEof = ''unexpected end of file''"
| "show_kind OutOfMemory = ''out of memory''"
| "show_kind NotSeekable = ''seek on unseekable file''"
| "show_kind OtherError = ''other error''"

definition error_kind_from_str :: "string \<Rightarrow> error_kind" where
  "error_kind_from_str s =
     (let str = to_lowercase (filter (\<lambda>c. c \<noteq> CHR '' '') s) in
      if str = ''notfound'' then NotFound
      else if str = ''permissiondenied'' then PermissionDenied
      else if str = ''connectionrefused'' then ConnectionRefused
      else if str = ''connectionreset'' then ConnectionReset
      else if str = ''connectionaborted'' then ConnectionAborted
      else if str = ''notconnected'' then NotConnected
      else if str = ''addrinuse'' then AddrInUse
      else if str = ''addrnotavailable'' then AddrNotAvailable
      else if str = ''brokenpipe'' then BrokenPipe
      else if str = ''alreadyexists'' then AlreadyExists
      else if str = ''wouldblock'' then WouldBlock
      else if str = ''invalidinput'' then InvalidInput
      else if str = ''invaliddata'' then InvalidData
      else if str = ''timedout'' then TimedOut
      else if str = ''interrupted'' then Interrupted
      else if str = ''unsupported'' then Unsupported
      else if str = ''unexpectedeof'' then UnexpectedEof
      else if str = ''outofmemory'' then OutOfMemory
      else OtherError)"

text \<open>\<open>str::split\<close> at a character.\<close>

fun split_at :: "char \<Rightarrow> string \<Rightarrow> string list" where
  "split_at c [] = [[]]"
| "split_at c (x # xs) =
     (if x = c then [] # split_at c xs
      else case split_at c xs of [] \<Rightarrow> [[x]] | p # ps \<Rightarrow> (x # p) # ps)"

text \<open>The error text the thread ends with, and what \<open>join\<close> makes of it.\<close>

definition task_error :: "io_error \<Rightarrow> string" where
  "task_error e = show_kind (fst e) @ ''|'' @ snd e"

definition join_error :: "string \<Rightarrow> io_error res" where
  "join_error desc =
     (case split_at (CHR ''|'') desc of
        k # msg # _ \<Rightarrow> Ok (error_kind_from_str k, msg)
      | _ \<Rightarrow> Panic)"

subsection \<open>Lemmas on one message\<close>

lemma send_diag_fields [simp]:
  "rv_id_buffer (send_diag r ep d) = rv_id_buffer r" "rv_check_mask (send_diag r ep d) = rv_check_mask r"
  "rv_header_buffer (send_diag r ep d) = rv_header_buffer r" "rv_endpoints (send_diag r ep d) = rv_endpoints r"
  "rv_stats (send_diag r ep d) = stats_increase (rv_stats r) ep d" "rv_raw (send_diag r ep d) = rv_raw r"
  "rv_sockets (send_diag r ep d) = rv_sockets r" "rv_connected (send_diag r ep d) = rv_connected r"
  by (simp_all add: send_diag_def increse_stats_def Let_def split: option.split)

lemma increse_stats_fields [simp]:
  "rv_id_buffer (increse_stats r ep d) = rv_id_buffer r" "rv_check_mask (increse_stats r ep d) = rv_check_mask r"
  "rv_header_buffer (increse_stats r ep d) = rv_header_buffer r" "rv_endpoints (increse_stats r ep d) = rv_endpoints r"
  "rv_stats (increse_stats r ep d) = stats_increase (rv_stats r) ep d"
  "rv_sockets (increse_stats r ep d) = rv_sockets r" "rv_connected (increse_stats r ep d) = rv_connected r"
  by (simp_all add: increse_stats_def)

lemma forward_message_fields [simp]:
  "rv_id_buffer (forward_message z r ps) = rv_id_buffer r" "rv_check_mask (forward_message z r ps) = rv_check_mask r"
  "rv_header_buffer (forward_message z r ps) = rv_header_buffer r" "rv_endpoints (forward_message z r ps) = rv_endpoints r"
  "rv_stats (forward_message z r ps) = rv_stats r" "rv_raw (forward_message z r ps) = rv_raw r"
  "rv_sockets (forward_message z r ps) = rv_sockets r" "rv_connected (forward_message z r ps) = rv_connected r"
  by (simp_all add: forward_message_def)

lemma receive_ready_frame:
  "\<exists>s. snd (receive_ready z r ss polls ready) = r\<lparr>rv_sockets := s\<rparr>"
  by (auto simp: receive_ready_def split: list.split option.split prod.split)

lemma raw_receive_frame: "\<exists>s. snd (raw_receive z r) = r\<lparr>rv_sockets := s\<rparr>"
proof (cases "rv_sockets r")
  case (Shared ts)
  then show ?thesis by (auto simp: raw_receive_def split: prod.split)
next
  case (Individual ss polls ready)
  moreover have "\<exists>s. r = r\<lparr>rv_sockets := s\<rparr>" by (rule exI [of _ "rv_sockets r"]) simp
  ultimately show ?thesis
    using receive_ready_frame [of z r ss polls] by (auto simp: raw_receive_def split: sum.split)
qed

lemma raw_receive_fields:
  assumes "raw_receive z r = (x, r1)"
  shows "rv_id_buffer r1 = rv_id_buffer r" "rv_check_mask r1 = rv_check_mask r" "rv_stats r1 = rv_stats r"
    "rv_header_buffer r1 = rv_header_buffer r" "rv_endpoints r1 = rv_endpoints r" "rv_raw r1 = rv_raw r"
  using raw_receive_frame [of z r] assms by auto

definition id_limits :: "u64 \<Rightarrow> u64 res \<Rightarrow> u64 option \<Rightarrow> u64 \<Rightarrow> bool" where
  "id_limits chk sim prev pid \<longleftrightarrow>
     (and chk CHECK_ID_POSITIVE \<noteq> 0 \<longrightarrow> 0 < pid)
     \<and> (and chk CHECK_ID_RANGE \<noteq> 0 \<longrightarrow> (\<forall>s. sim = Ok s \<longrightarrow> \<not> out_of_range chk pid s))
     \<and> (and chk CHECK_ID_MONOTONIC \<noteq> 0 \<longrightarrow> (\<forall>l. prev = Some l \<longrightarrow> l < pid))"

text \<open>The checks accept a message exactly when its id is within the limits.\<close>

lemma check_message_cases:
  assumes "check_message sim r m ep = (res, r')"
  shows "rv_check_mask r' = rv_check_mask r \<and> rv_header_buffer r' = rv_header_buffer r
    \<and> rv_endpoints r' = rv_endpoints r \<and>
    (if id_limits (rv_check_mask r) sim (Option.bind ep (rv_id_buffer r)) (m_id m)
     then res = Ok m \<and> rv_id_buffer r' = (case ep of
            Some e \<Rightarrow> if and (rv_check_mask r) CHECK_ID_MONOTONIC \<noteq> 0 then (rv_id_buffer r)(e \<mapsto> m_id m) else rv_id_buffer r
          | None \<Rightarrow> rv_id_buffer r)
     else rv_id_buffer r' = rv_id_buffer r \<and> (\<exists>e. res = Err e))"
proof -
  let ?m = "rv_check_mask r" and ?p = "m_id m" and ?l = "Option.bind ep (rv_id_buffer r)"
  consider (pos) "and ?m CHECK_ID_POSITIVE \<noteq> 0" "?p \<le> 0"
    | (range) s where "\<not> (and ?m CHECK_ID_POSITIVE \<noteq> 0 \<and> ?p \<le> 0)" "and ?m CHECK_ID_RANGE \<noteq> 0" "sim = Ok s" "out_of_range ?m ?p s"
    | (mono) l where "\<not> (and ?m CHECK_ID_POSITIVE \<noteq> 0 \<and> ?p \<le> 0)"
        "\<not> (and ?m CHECK_ID_RANGE \<noteq> 0 \<and> (case sim of Ok s \<Rightarrow> out_of_range ?m ?p s | _ \<Rightarrow> False))"
        "and ?m CHECK_ID_MONOTONIC \<noteq> 0" "?l = Some l" "?p \<le> l"
    | (fine) "\<not> (and ?m CHECK_ID_POSITIVE \<noteq> 0 \<and> ?p \<le> 0)"
        "\<not> (and ?m CHECK_ID_RANGE \<noteq> 0 \<and> (case sim of Ok s \<Rightarrow> out_of_range ?m ?p s | _ \<Rightarrow> False))"
        "\<not> (and ?m CHECK_ID_MONOTONIC \<noteq> 0 \<and> (\<exists>l. ?l = Some l \<and> ?p \<le> l))"
    by (cases sim) (fastforce split: res.splits)+
  then show ?thesis
  proof cases
    case pos
    then have "\<not> id_limits ?m sim ?l ?p" by (auto simp: id_limits_def)
    with pos assms show ?thesis by (auto simp: check_message_def Let_def)
  next
    case (range s)
    then have "\<not> id_limits ?m sim ?l ?p" by (auto simp: id_limits_def)
    with range assms show ?thesis by (auto simp: check_message_def Let_def)
  next
    case (mono l)
    then have "\<not> id_limits ?m sim ?l ?p" by (auto simp: id_limits_def)
    moreover have "?p < l \<or> l = ?p" using mono(5) by auto
    ultimately show ?thesis using mono assms
      by (auto simp: check_message_def Let_def)
  next
    case fine
    then have lim: "id_limits ?m sim ?l ?p"
      by (auto simp: id_limits_def not_le word_gt_0 split: res.splits)
    let ?last = "if and ?m CHECK_ID_MONOTONIC \<noteq> 0 then ?l else None"
    from fine(3) have "\<not> (?last \<noteq> None \<and> ?p < the ?last)" "\<not> (?last \<noteq> None \<and> the ?last = ?p)"
      by (auto split: if_splits)
    note g = this
    from assms have "(res, r') = (Ok m, let r1 = (case ep of
                Some e \<Rightarrow> if and ?m CHECK_ID_MONOTONIC \<noteq> 0 then r\<lparr>rv_id_buffer := (rv_id_buffer r)(e \<mapsto> ?p)\<rparr> else r
              | None \<Rightarrow> r) in if message_header_changed m then send_diag r1 ep HeaderChange else r1)"
      unfolding check_message_def Let_def if_not_P [OF fine(1)] if_not_P [OF fine(2)] if_not_P [OF g(1)] if_not_P [OF g(2)]
      by simp
    with lim show ?thesis by (auto simp: Let_def split: option.split)
  qed
qed

text \<open>One reception, seen from the id buffer.\<close>

lemma receive_ids:
  assumes "receive L z sim r = (res, r')"
  shows "rv_check_mask r' = rv_check_mask r \<and>
    (case res of
       Ok rm \<Rightarrow>
         id_limits (rv_check_mask r) sim (Option.bind (rm_endpoint rm) (rv_id_buffer r)) (m_id (rm_message rm))
         \<and> rv_id_buffer r' = (case rm_endpoint rm of
              Some e \<Rightarrow> if and (rv_check_mask r) CHECK_ID_MONOTONIC \<noteq> 0
                         then (rv_id_buffer r)(e \<mapsto> m_id (rm_message rm)) else rv_id_buffer r
            | None \<Rightarrow> rv_id_buffer r)
     | _ \<Rightarrow> rv_id_buffer r' = rv_id_buffer r)"
proof (cases "connections r = 0")
  case True
  with assms show ?thesis by (auto simp: receive_def)
next
  case False
  obtain ep parts r1 where raw: "raw_receive z r = ((ep, parts), r1)" by (cases "raw_receive z r") auto
  note f = raw_receive_fields [OF raw]
  show ?thesis
  proof (cases parts)
    case (Ok ps)
    obtain r2 where r2: "r2 = (forward_message z r1 ps)\<lparr>rv_header_buffer :=
        snd (parse_message L ps ep (rv_header_buffer r1) (rv_raw r1))\<rparr>" by blast
    then have f2: "rv_id_buffer r2 = rv_id_buffer r" "rv_check_mask r2 = rv_check_mask r"
      by (simp_all add: f)
    obtain pm r3 where p: "process_message L z sim r1 ep ps = (pm, r3)"
      by (cases "process_message L z sim r1 ep ps")
    show ?thesis
    proof (cases "fst (parse_message L ps ep (rv_header_buffer r1) (rv_raw r1))")
      case m: (Ok m)
      then have c: "check_message sim r2 m ep = (pm, r3)"
        using p by (simp add: process_message_def Let_def r2 split: prod.splits)
      note cm = check_message_cases [OF c, unfolded f2]
      show ?thesis
      proof (cases "id_limits (rv_check_mask r) sim (Option.bind ep (rv_id_buffer r)) (m_id m)")
        case True
        with cm have "pm = res.Ok m" by simp
        with assms False raw Ok p have "res = res.Ok \<lparr>rm_endpoint = ep, rm_message = m\<rparr>"
            "rv_id_buffer r' = rv_id_buffer r3" "rv_check_mask r' = rv_check_mask r3"
          by (auto simp: receive_def)
        with True cm show ?thesis by (simp split: option.split)
      next
        case lim: False
        with cm obtain e where "pm = res.Err e" by auto
        with assms False raw Ok p have "res = res.Err e"
            "rv_id_buffer r' = rv_id_buffer r3" "rv_check_mask r' = rv_check_mask r3"
          by (auto simp: receive_def)
        with lim cm show ?thesis by simp
      qed
    next
      case (Err e)
      then have "(\<exists>e. pm = res.Err e) \<and> rv_id_buffer r3 = rv_id_buffer r \<and> rv_check_mask r3 = rv_check_mask r"
        using p f by (auto simp: process_message_def Let_def split: prod.splits)
      then show ?thesis using assms False raw Ok p by (auto simp: receive_def)
    next
      case Panic
      then have "pm = res.Panic \<and> rv_id_buffer r3 = rv_id_buffer r \<and> rv_check_mask r3 = rv_check_mask r"
        using p f by (auto simp: process_message_def Let_def split: prod.splits)
      then show ?thesis using assms False raw Ok p by (auto simp: receive_def)
    qed
  next
    case (Err e)
    with assms False raw f show ?thesis by (auto simp: receive_def)
  next
    case Panic
    with assms False raw f show ?thesis by (auto simp: receive_def)
  qed
qed

text \<open>Endpoint management leaves the ids and the checks alone.\<close>

lemma set_header_buffer_size_fields:
  "set_header_buffer_size r n = Some r' \<Longrightarrow> rv_id_buffer r' = rv_id_buffer r \<and> rv_check_mask r' = rv_check_mask r"
  by (auto simp: set_header_buffer_size_def split: if_splits)

lemma open_endpoint_fields:
  "rv_id_buffer (snd (open_endpoint z env r ep)) = rv_id_buffer r"
  "rv_check_mask (snd (open_endpoint z env r ep)) = rv_check_mask r"
  by (auto simp: open_endpoint_def split: prod.split res.split option.split)

lemma connect_socket_fields:
  "rv_id_buffer (snd (connect_socket z env r ep)) = rv_id_buffer r"
  "rv_check_mask (snd (connect_socket z env r ep)) = rv_check_mask r"
  using open_endpoint_fields [of z env r ep]
  by (auto simp: connect_socket_def split: connection_sockets.split prod.splits option.split res.split)

lemma connect_endpoint_fields:
  assumes "connect_endpoint z env r ep = Some (x, r')"
  shows "rv_id_buffer r' = rv_id_buffer r \<and> rv_check_mask r' = rv_check_mask r"
  using assms connect_socket_fields [of z env r ep]
  by (auto simp: connect_endpoint_def dest: set_header_buffer_size_fields split: prod.splits res.splits)

lemma connect_all_fields:
  "connect_all z env r eps = Some (x, r') \<Longrightarrow> rv_id_buffer r' = rv_id_buffer r \<and> rv_check_mask r' = rv_check_mask r"
proof (induction z env r eps rule: connect_all.induct)
  case (1 z env r)
  then show ?case by simp
next
  case (2 z env r ep eps)
  from "2.prems" obtain y r1 where c: "connect_endpoint z env r ep = Some (y, r1)"
    by (cases "connect_endpoint z env r ep") auto
  note f = connect_endpoint_fields [OF c]
  show ?case
  proof (cases y)
    case (Ok u)
    with "2.prems" c have "connect_all z env r1 eps = Some (x, r')" by simp
    from "2.IH" [OF c refl Ok this] f show ?thesis by simp
  qed (use "2.prems" c f in simp_all)
qed

lemma rv_connect_fields:
  "rv_connect z env remote r = Some (x, r') \<Longrightarrow> rv_id_buffer r' = rv_id_buffer r \<and> rv_check_mask r' = rv_check_mask r"
  by (auto simp: rv_connect_def split: if_splits option.splits prod.splits res.splits dest: connect_all_fields)

lemma rv_disconnect_endpoint_fields [simp]:
  "rv_id_buffer (rv_disconnect_endpoint z r ep) = rv_id_buffer r"
  "rv_check_mask (rv_disconnect_endpoint z r ep) = rv_check_mask r"
  "rv_endpoints (rv_disconnect_endpoint z r ep) = rv_endpoints r"
  "rv_connected (rv_disconnect_endpoint z r ep) = rv_connected r"
  "rv_header_buffer (rv_disconnect_endpoint z r ep) = rv_header_buffer r"
  "rv_stats (rv_disconnect_endpoint z r ep) = rv_stats r"
  by (auto simp: rv_disconnect_endpoint_def Let_def split: connection_sockets.split option.split)

lemma fold_disconnect_fields [simp]:
  "rv_id_buffer (fold (\<lambda>ep r. rv_disconnect_endpoint z r ep) eps r) = rv_id_buffer r"
  "rv_check_mask (fold (\<lambda>ep r. rv_disconnect_endpoint z r ep) eps r) = rv_check_mask r"
  by (induction eps arbitrary: r) simp_all

lemma rv_disconnect_fields [simp]:
  "rv_id_buffer (rv_disconnect z r) = rv_id_buffer r" "rv_check_mask (rv_disconnect z r) = rv_check_mask r"
  by (simp_all add: rv_disconnect_def)

lemma add_endpoint_fields:
  "add_endpoint z env remote r ep = Some (x, r') \<Longrightarrow> rv_id_buffer r' = rv_id_buffer r \<and> rv_check_mask r' = rv_check_mask r"
  by (auto simp: add_endpoint_def Let_def split: if_splits dest: connect_endpoint_fields)

lemma remove_endpoint_fields [simp]:
  "rv_id_buffer (remove_endpoint z r ep) = rv_id_buffer r" "rv_check_mask (remove_endpoint z r ep) = rv_check_mask r"
  by (simp_all add: remove_endpoint_def remove_stats_def Let_def)

subsection \<open>The ids a receiver delivers\<close>

text \<open>
  The runs of a receiver: receptions with any clock and any answer of zmq, and endpoint
  management in between; the log has the endpoint and id of every message delivered.
\<close>

inductive delivers :: "ext \<Rightarrow> 's zmq \<Rightarrow> u64 \<Rightarrow> 's receiver \<Rightarrow> (string option \<times> u64) list \<Rightarrow> bool" for L z chk where
  start: "rv_id_buffer r = Map.empty \<Longrightarrow> rv_check_mask r = chk \<Longrightarrow> delivers L z chk r []"
| message: "delivers L z chk r log \<Longrightarrow> receive L z sim r = (Ok rm, r') \<Longrightarrow>
    delivers L z chk r' (log @ [(rm_endpoint rm, m_id (rm_message rm))])"
| failure: "delivers L z chk r log \<Longrightarrow> receive L z sim r = (Err e, r') \<Longrightarrow> delivers L z chk r' log"
| connect: "delivers L z chk r log \<Longrightarrow> rv_connect z env remote r = Some (x, r') \<Longrightarrow> delivers L z chk r' log"
| disconnect: "delivers L z chk r log \<Longrightarrow> delivers L z chk (rv_disconnect z r) log"
| add: "delivers L z chk r log \<Longrightarrow> add_endpoint z env remote r ep = Some (x, r') \<Longrightarrow> delivers L z chk r' log"
| remove: "delivers L z chk r log \<Longrightarrow> delivers L z chk (remove_endpoint z r ep) log"

definition ids_of :: "string \<Rightarrow> (string option \<times> u64) list \<Rightarrow> u64 list" where
  "ids_of ep log = map snd (filter (\<lambda>p. fst p = Some ep) log)"

definition ids_inv :: "u64 \<Rightarrow> 's receiver \<Rightarrow> (string option \<times> u64) list \<Rightarrow> bool" where
  "ids_inv chk r log \<longleftrightarrow>
     rv_check_mask r = chk
     \<and> (and chk CHECK_ID_POSITIVE \<noteq> 0 \<longrightarrow> (\<forall>p \<in> set log. 0 < snd p))
     \<and> (and chk CHECK_ID_MONOTONIC \<noteq> 0 \<longrightarrow>
          (\<forall>ep. sorted_wrt (<) (ids_of ep log)
             \<and> rv_id_buffer r ep = (if ids_of ep log = [] then None else Some (last (ids_of ep log)))))"

lemma ids_of_append: "ids_of ep (log @ [(e, i)]) = (if e = Some ep then ids_of ep log @ [i] else ids_of ep log)"
  by (simp add: ids_of_def)

lemma sorted_snoc: "sorted_wrt (<) xs \<Longrightarrow> xs = [] \<or> last xs < i \<Longrightarrow> sorted_wrt (<) (xs @ [i :: u64])"
  by (cases xs rule: rev_cases) (auto simp: sorted_wrt_append intro: order.strict_trans)

lemma ids_inv_message:
  assumes "ids_inv chk r log" and "receive L z sim r = (Ok rm, r')"
  shows "ids_inv chk r' (log @ [(rm_endpoint rm, m_id (rm_message rm))])"
proof -
  let ?i = "m_id (rm_message rm)"
  have r: "rv_check_mask r' = chk" "id_limits chk sim (Option.bind (rm_endpoint rm) (rv_id_buffer r)) ?i"
      "rv_id_buffer r' = (case rm_endpoint rm of
              Some e \<Rightarrow> if and chk CHECK_ID_MONOTONIC \<noteq> 0 then (rv_id_buffer r)(e \<mapsto> ?i) else rv_id_buffer r
            | None \<Rightarrow> rv_id_buffer r)"
    using receive_ids [OF assms(2)] assms(1) by (simp_all add: ids_inv_def cong: option.case_cong)
  have pos: "and chk CHECK_ID_POSITIVE \<noteq> 0 \<longrightarrow> 0 < ?i"
    using r(2) by (simp add: id_limits_def)
  have mono: "sorted_wrt (<) (ids_of ep (log @ [(rm_endpoint rm, ?i)]))
      \<and> rv_id_buffer r' ep = (if ids_of ep (log @ [(rm_endpoint rm, ?i)]) = [] then None
          else Some (last (ids_of ep (log @ [(rm_endpoint rm, ?i)]))))"
    if m: "and chk CHECK_ID_MONOTONIC \<noteq> 0" for ep
  proof -
    have inv: "sorted_wrt (<) (ids_of ep log)"
        "rv_id_buffer r ep = (if ids_of ep log = [] then None else Some (last (ids_of ep log)))"
      using assms(1) m by (simp_all add: ids_inv_def)
    show ?thesis
    proof (cases "rm_endpoint rm = Some ep")
      case True
      have "ids_of ep log = [] \<or> last (ids_of ep log) < ?i"
        using r(2) m inv(2) True by (auto simp: id_limits_def split: if_splits)
      with sorted_snoc [OF inv(1) this] True r(3) m show ?thesis by (simp add: ids_of_append)
    next
      case False
      with inv r(3) show ?thesis by (auto simp: ids_of_append split: option.splits)
    qed
  qed
  from r(1) pos mono assms(1) show ?thesis by (auto simp: ids_inv_def)
qed

lemma ids_inv_same:
  "ids_inv chk r log \<Longrightarrow> rv_id_buffer r' = rv_id_buffer r \<Longrightarrow> rv_check_mask r' = rv_check_mask r \<Longrightarrow> ids_inv chk r' log"
  by (simp add: ids_inv_def)

lemma delivers_inv: "delivers L z chk r log \<Longrightarrow> ids_inv chk r log"
proof (induction rule: delivers.induct)
  case (start r)
  then show ?case by (simp add: ids_inv_def ids_of_def)
next
  case (message r log sim rm r')
  then show ?case by (intro ids_inv_message)
next
  case (failure r log sim e r')
  with receive_ids [OF failure(2)] show ?case by (auto intro: ids_inv_same)
next
  case (connect r log env remote x r')
  then show ?case using rv_connect_fields by (blast intro: ids_inv_same)
next
  case (disconnect r log)
  from disconnect(2) show ?case by (rule ids_inv_same) simp_all
next
  case (add r log env remote ep x r')
  then show ?case using add_endpoint_fields by (blast intro: ids_inv_same)
next
  case (remove r log ep)
  from remove(2) show ?case by (rule ids_inv_same) simp_all
qed

text \<open>
  C9. The ids a receiver delivers, over every run of receptions and endpoint management:
  with the positivity check on, every id is positive; with the monotonicity check on, the
  ids delivered from one endpoint are strictly increasing, across reconnections and
  whatever zmq and the clock do.
\<close>

theorem delivered_ids_increase:
  assumes "delivers L z chk r log"
  shows "(and chk CHECK_ID_POSITIVE \<noteq> 0 \<longrightarrow> (\<forall>p \<in> set log. 0 < snd p))
    \<and> (and chk CHECK_ID_MONOTONIC \<noteq> 0 \<longrightarrow> (\<forall>ep. sorted_wrt (<) (ids_of ep log)))"
  using delivers_inv [OF assms] by (simp add: ids_inv_def)

text \<open>A receiver of one endpoint whose socket delivers the frames of \<open>demo_ext\<close>.\<close>

definition demo_zmq :: "unit zmq" where
  "demo_zmq = \<lparr>z_new = (\<lambda>t. Inr ()), z_recv = (\<lambda>s. (s, Inr [[1], [2]])), z_poll = (\<lambda>ss. Inr (map (\<lambda>_. True) ss)),
     z_send = (\<lambda>s b f. (s, None)), z_bind = (\<lambda>s e. (s, None)), z_unbind = (\<lambda>s e. (s, None)),
     z_connect = (\<lambda>s e. (s, None)), z_disconnect = (\<lambda>s e. (s, None)), z_subscribe = (\<lambda>s t. (s, None)),
     z_set = (\<lambda>s x. (s, None)), z_monitor = (\<lambda>s e. (s, None)), z_socket_type = (\<lambda>s. Inr SUB),
     z_last_endpoint = (\<lambda>s. None)\<rparr>"

definition demo_socket :: "unit tracked_socket" where
  "demo_socket = \<lparr>ts_socket = (), ts_endpoints = [''tcp''], ts_rec_index = 1, ts_topics = [],
     ts_monitoring = False, ts_index = 1\<rparr>"

definition demo_receiver :: "unit receiver" where
  "demo_receiver = \<lparr>rv_sockets = Individual [(''tcp'', demo_socket)] [''tcp''] [], rv_endpoints = [''tcp''],
     rv_connected = True, rv_socket_type = SUB, rv_header_buffer = lhm_new 1, rv_id_buffer = Map.empty,
     rv_check_mask = CHECK_ALL, rv_fifo = None, rv_stats = stats_new, rv_index = 1, rv_forwarder_config = None,
     rv_forwarder = None, rv_delivery_mode = Inline, rv_raw = False, rv_connection_mode = IndividualMode,
     rv_monitored = False, rv_forked = False, rv_options = socket_options_new, rv_diag_out = [],
     rv_commands = [], rv_counter = 1\<rparr>"

lemma demo_receive:
  "\<exists>rm r'. receive demo_ext demo_zmq (Err (InvalidData, [])) demo_receiver = (Ok rm, r')
     \<and> rm_endpoint rm = Some ''tcp'' \<and> m_id (rm_message rm) = 7"
proof -
  obtain m c' where m: "parse_message demo_ext [[1], [2]] (Some ''tcp'') (lhm_new 1) False = (Ok m, c')" "m_id m = 7"
    using demo_parse by blast
  have raw: "raw_receive demo_zmq demo_receiver = ((Some ''tcp'', Ok [[1], [2]]),
      demo_receiver\<lparr>rv_sockets := Individual [(''tcp'', demo_socket)] [''tcp''] []\<rparr>)"
    by (simp add: raw_receive_def demo_receiver_def demo_zmq_def receive_ready_def readable_def
        tracked_receive_def demo_socket_def)
  let ?r2 = "(forward_message demo_zmq (demo_receiver\<lparr>rv_sockets := Individual [(''tcp'', demo_socket)] [''tcp''] []\<rparr>)
      [[1], [2]])\<lparr>rv_header_buffer := c'\<rparr>"
  obtain res r3 where c: "check_message (Err (InvalidData, [])) ?r2 m (Some ''tcp'') = (res, r3)"
    by (cases "check_message (Err (InvalidData, [])) ?r2 m (Some ''tcp'')")
  have "res = Ok m"
    using check_message_cases [OF c] m(2) by (simp add: id_limits_def demo_receiver_def)
  moreover have "process_message demo_ext demo_zmq (Err (InvalidData, []))
      (demo_receiver\<lparr>rv_sockets := Individual [(''tcp'', demo_socket)] [''tcp''] []\<rparr>) (Some ''tcp'') [[1], [2]] = (res, r3)"
    using m(1) c by (simp add: process_message_def demo_receiver_def)
  ultimately show ?thesis using raw m(2) by (simp add: receive_def connections_def demo_receiver_def)
qed

theorem delivered_ids_increase_witness:
  "\<exists>r log. delivers demo_ext demo_zmq CHECK_ALL r log \<and> ids_of ''tcp'' log = [7] \<and> (\<forall>p \<in> set log. 0 < snd p)"
proof -
  have "delivers demo_ext demo_zmq CHECK_ALL demo_receiver []"
    by (rule delivers.start) (simp_all add: demo_receiver_def)
  moreover obtain rm r' where r: "receive demo_ext demo_zmq (Err (InvalidData, [])) demo_receiver = (Ok rm, r')"
      "rm_endpoint rm = Some ''tcp''" "m_id (rm_message rm) = 7"
    using demo_receive by blast
  ultimately have d: "delivers demo_ext demo_zmq CHECK_ALL r' ([] @ [(Some ''tcp'', 7)])"
    using delivers.message [of demo_ext demo_zmq CHECK_ALL demo_receiver "[]" _ rm r'] by metis
  have "and CHECK_ALL CHECK_ID_POSITIVE \<noteq> 0" by (simp add: CHECK_ALL_def CHECK_ID_POSITIVE_def)
  with delivered_ids_increase [OF d] d show ?thesis
    by (intro exI [of _ r'] exI [of _ "[(Some ''tcp'', 7)]"]) (simp add: ids_of_def)
qed

end
