(* ===== verification/Bs_Accounting.thy ===== *)
theory Bs_Accounting
  imports Bs_Receiver
begin

section \<open>What a reception does to the counters and the checks (src/src/receiver.rs)\<close>

text \<open>
  Lemmas on the checks of \<open>check_message\<close>, the message and error counters and the
  per-endpoint diagnostics that \<open>receive\<close> keeps.
\<close>

subsection \<open>Counters\<close>

definition diag_key :: "string option \<Rightarrow> string" where
  "diag_key endpoint = (case endpoint of Some e \<Rightarrow> e | None \<Rightarrow> [])"

definition reasons :: "endpoint_diag list" where
  "reasons = [RepeatedId, NonPositiveId, DecreasingId, OutOfRangeId, ParsingError, DecompressionError]"

definition diag_balanced :: "stats \<Rightarrow> bool" where
  "diag_balanced s \<longleftrightarrow> (\<forall>ep. diag_count s ep DiagErrors = sum_list (map (diag_count s ep) reasons))"

lemma diag_count_increase:
  "diag_count (stats_increase s e d) ep d' = diag_count s ep d' + (if ep = diag_key e \<and> d' = d then 1 else 0)"
  by (auto simp: diag_count_def stats_increase_def Let_def diag_key_def split: option.splits)

lemma diag_balanced_new: "diag_balanced stats_new"
  by (simp add: diag_balanced_def stats_new_def diag_count_def reasons_def)

lemma diag_balanced_other:
  "diag_balanced s \<Longrightarrow> d \<notin> set reasons \<Longrightarrow> d \<noteq> DiagErrors \<Longrightarrow> diag_balanced (stats_increase s e d)"
  by (auto simp: diag_balanced_def reasons_def diag_count_increase)

lemma diag_balanced_error:
  "diag_balanced s \<Longrightarrow> d \<in> set reasons \<Longrightarrow> diag_balanced (stats_increase (stats_increase s e d) e DiagErrors)"
  by (auto simp: diag_balanced_def reasons_def diag_count_increase)

lemma diag_count_counters [simp]:
  "diag_count (s\<lparr>st_messages := x\<rparr>) = diag_count s" "diag_count (s\<lparr>st_errors := x\<rparr>) = diag_count s"
  by (simp_all add: diag_count_def fun_eq_iff)

lemma stats_increase_counters [simp]:
  "st_messages (stats_increase s e d) = st_messages s" "st_errors (stats_increase s e d) = st_errors s"
  by (simp_all add: stats_increase_def Let_def)

lemma stats_increase_commute:
  "stats_increase (s\<lparr>st_errors := x\<rparr>) e d = (stats_increase s e d)\<lparr>st_errors := x\<rparr>"
  by (simp add: stats_increase_def Let_def)

lemma diag_balanced_counters [simp]:
  "diag_balanced (s\<lparr>st_messages := x\<rparr>) = diag_balanced s" "diag_balanced (s\<lparr>st_errors := x\<rparr>) = diag_balanced s"
  by (simp_all add: diag_balanced_def)

lemma check_message_stats:
  assumes "check_message sim r m ep = (res, r')"
  shows "case res of
      Ok m' \<Rightarrow> m' = m \<and> rv_stats r' = (if message_header_changed m then stats_increase (rv_stats r) ep HeaderChange else rv_stats r)
    | Err e \<Rightarrow> fst e = InvalidData
        \<and> (\<exists>d \<in> {NonPositiveId, OutOfRangeId, DecreasingId, RepeatedId}. r' = send_diag r ep d)
    | Panic \<Rightarrow> False"
proof (cases res)
  case (Ok m')
  have "rv_stats (case ep of None \<Rightarrow> r | Some e \<Rightarrow> if P then r\<lparr>rv_id_buffer := f e\<rparr> else r) = rv_stats r" for P f
    by (simp split: option.split)
  with assms Ok show ?thesis
    by (auto simp: check_message_def Let_def split: if_splits)
qed (use assms in \<open>auto simp: check_message_def Let_def split: if_splits\<close>)

lemma process_message_stats:
  assumes "process_message L z sim r ep ps = (res, r')"
  shows "case res of
      Ok m \<Rightarrow> rv_stats r' = (if message_header_changed m then stats_increase (rv_stats r) ep HeaderChange else rv_stats r)
    | Err e \<Rightarrow> \<exists>d \<in> set reasons. rv_stats r' = stats_increase (rv_stats r) ep d
    | Panic \<Rightarrow> rv_stats r' = rv_stats r"
proof -
  obtain pm c where p: "parse_message L ps ep (rv_header_buffer r) (rv_raw r) = (pm, c)"
    by (cases "parse_message L ps ep (rv_header_buffer r) (rv_raw r)")
  let ?r2 = "(forward_message z r ps)\<lparr>rv_header_buffer := c\<rparr>"
  show ?thesis
  proof (cases pm)
    case (Ok m)
    then have "check_message sim ?r2 m ep = (res, r')"
      using assms p by (simp add: process_message_def)
    from check_message_stats [OF this] show ?thesis
      by (auto simp: reasons_def split: res.splits)
  next
    case (Err e)
    then show ?thesis using assms p by (auto simp: process_message_def reasons_def)
  next
    case Panic
    then show ?thesis using assms p by (auto simp: process_message_def)
  qed
qed

text \<open>The counters across one reception.\<close>

definition accounted :: "string option \<Rightarrow> received_message res \<Rightarrow> stats \<Rightarrow> stats \<Rightarrow> bool" where
  "accounted ep res s s' \<longleftrightarrow>
     (case res of
        Ok rm \<Rightarrow> rm_endpoint rm = ep \<and> st_messages s' = st_messages s + 1 \<and> st_errors s' = st_errors s
          \<and> diag_count s' (diag_key ep) DiagMessages = diag_count s (diag_key ep) DiagMessages + 1
      | Err e \<Rightarrow> st_messages s' = st_messages s
          \<and> st_errors s' - st_errors s = diag_count s' (diag_key ep) DiagErrors - diag_count s (diag_key ep) DiagErrors
          \<and> (st_errors s' = st_errors s \<or> st_errors s' = st_errors s + 1)
      | Panic \<Rightarrow> s' = s)"

lemma receive_accounting:
  assumes "diag_balanced (rv_stats r)" and "receive L z sim r = (res, r')"
  shows "diag_balanced (rv_stats r') \<and> (\<exists>ep. accounted ep res (rv_stats r) (rv_stats r'))"
proof (cases "connections r = 0")
  case True
  with assms show ?thesis by (auto simp: receive_def accounted_def)
next
  case False
  obtain ep parts r1 where raw: "raw_receive z r = ((ep, parts), r1)" by (cases "raw_receive z r") auto
  have s1: "rv_stats r1 = rv_stats r" by (rule raw_receive_fields [OF raw])
  show ?thesis
  proof (cases parts)
    case (Ok ps)
    obtain pm r2 where p: "process_message L z sim r1 ep ps = (pm, r2)"
      by (cases "process_message L z sim r1 ep ps")
    note st = process_message_stats [OF p, unfolded s1]
    show ?thesis
    proof (cases pm)
      case m: (Ok m)
      with assms False raw Ok p have e: "res = res.Ok \<lparr>rm_endpoint = ep, rm_message = m\<rparr>"
          "rv_stats r' = stats_increase (increase_messages (rv_stats r2)) ep DiagMessages"
        by (auto simp: receive_def)
      have b: "diag_balanced (rv_stats r2)"
        using st m assms(1) diag_balanced_other [of "rv_stats r" HeaderChange ep]
        by (simp add: reasons_def)
      have "diag_balanced (increase_messages (rv_stats r2))"
        using b by (simp add: increase_messages_def)
      then have "diag_balanced (rv_stats r')"
        unfolding e(2) by (rule diag_balanced_other) (simp_all add: reasons_def)
      moreover have "accounted ep res (rv_stats r) (rv_stats r')"
        using st m e by (auto simp: accounted_def increase_messages_def diag_count_increase)
      ultimately show ?thesis by blast
    next
      case (Err e)
      with st obtain d where d: "d \<in> set reasons" "rv_stats r2 = stats_increase (rv_stats r) ep d" by auto
      from assms False raw Ok p Err have e: "res = res.Err e"
          "rv_stats r' = stats_increase (increase_errors (rv_stats r2)) ep DiagErrors"
        by (auto simp: receive_def)
      have "diag_balanced (rv_stats r')"
        using diag_balanced_error [OF assms(1) d(1), of ep]
        by (simp add: e(2) d(2) increase_errors_def stats_increase_commute)
      moreover have "accounted ep res (rv_stats r) (rv_stats r')"
        using d by (auto simp: accounted_def e increase_errors_def diag_count_increase reasons_def)
      ultimately show ?thesis by blast
    next
      case Panic
      with assms False raw Ok p st show ?thesis by (auto simp: receive_def accounted_def)
    qed
  next
    case (Err e)
    have "diag_balanced (stats_increase (rv_stats r) ep SocketError)"
      by (rule diag_balanced_other [OF assms(1)]) (simp_all add: reasons_def)
    with assms False raw Err s1 show ?thesis
      by (auto simp: receive_def accounted_def diag_count_increase)
  next
    case Panic
    with assms False raw s1 show ?thesis by (auto simp: receive_def accounted_def)
  qed
qed

lemma mask_cleared: "and (and x (not y)) y = (0 :: u64)"
  by (simp add: bit_eq_iff bit_simps)

lemma mask_cleared_sub: "and z y = z \<Longrightarrow> and (and x (not y)) z = (0 :: u64)"
proof -
  assume "and z y = z"
  then have "and (and x (not y)) z = and (and (and x (not y)) y) z"
    by (metis and.commute and.left_commute)
  then show ?thesis by (simp add: mask_cleared)
qed

subsection \<open>Properties\<close>

text \<open>
  C21. The checks, as coded: \<open>check_message\<close> accepts a message exactly when its id is
  within the limits of the enabled checks and of the last id accepted from the endpoint,
  and then remembers the id.  A refused message gives InvalidData, is counted once under
  one of the four id diagnostics, and changes nothing else.
\<close>

theorem check_message_spec:
  "if id_limits (rv_check_mask r) sim (Option.bind ep (rv_id_buffer r)) (m_id m)
   then fst (check_message sim r m ep) = Ok m
     \<and> rv_id_buffer (snd (check_message sim r m ep)) =
         (case ep of
            Some e \<Rightarrow> if and (rv_check_mask r) CHECK_ID_MONOTONIC \<noteq> 0 then (rv_id_buffer r)(e \<mapsto> m_id m) else rv_id_buffer r
          | None \<Rightarrow> rv_id_buffer r)
   else \<exists>t. \<exists>d \<in> {NonPositiveId, OutOfRangeId, DecreasingId, RepeatedId}.
      check_message sim r m ep = (Err (InvalidData, t), send_diag r ep d)"
proof -
  obtain res r' where c: "check_message sim r m ep = (res, r')" by (cases "check_message sim r m ep")
  show ?thesis
  proof (cases "id_limits (rv_check_mask r) sim (Option.bind ep (rv_id_buffer r)) (m_id m)")
    case True
    with check_message_cases [OF c] c show ?thesis by simp
  next
    case False
    with check_message_cases [OF c] obtain e where "res = Err e" by auto
    with check_message_stats [OF c] False c show ?thesis by (cases e) auto
  qed
qed

text \<open>
  The mask bits overlap (\<open>CHECK_ID_RANGE\<close> is 3, the union of the two others):
  disabling the range check disables every check, and enabling either other check enables
  the range check.
\<close>

lemma range_check_bits:
  "fst (check_message sim (disable_check r CHECK_ID_RANGE) m ep) = Ok m
   \<and> and (rv_check_mask (enable_check r CHECK_ID_POSITIVE)) CHECK_ID_RANGE \<noteq> 0
   \<and> and (rv_check_mask (enable_check r CHECK_ID_MONOTONIC)) CHECK_ID_RANGE \<noteq> 0"
proof -
  obtain res r' where c: "check_message sim (disable_check r CHECK_ID_RANGE) m ep = (res, r')"
    by (cases "check_message sim (disable_check r CHECK_ID_RANGE) m ep")
  have "and CHECK_ID_POSITIVE CHECK_ID_RANGE = CHECK_ID_POSITIVE"
    and "and CHECK_ID_MONOTONIC CHECK_ID_RANGE = CHECK_ID_MONOTONIC"
    by (simp_all add: CHECK_ID_POSITIVE_def CHECK_ID_MONOTONIC_def CHECK_ID_RANGE_def)
  note off = this [THEN mask_cleared_sub]
  have "id_limits (rv_check_mask (disable_check r CHECK_ID_RANGE)) sim p (m_id m)" for p
    by (simp add: id_limits_def disable_check_def off mask_cleared)
  with check_message_cases [OF c] have "res = Ok m" by simp
  moreover have "and (or x y) CHECK_ID_RANGE \<noteq> 0" if "and y CHECK_ID_RANGE \<noteq> 0" for x y :: u64
    using that by (simp add: bit.conj_disj_distrib2 or_eq_0_iff)
  ultimately show ?thesis
    using c by (simp add: enable_check_def CHECK_ID_POSITIVE_def CHECK_ID_MONOTONIC_def CHECK_ID_RANGE_def)
qed

text \<open>
  C20. Accounting: every reception keeps, for each endpoint, the error counter equal to the
  sum of the six reasons for which messages are refused.  A message delivered adds one to
  the message counter and to its endpoint's messages, an error adds at most one to the
  error counter and as much to its endpoint's errors, a panic counts nothing.
\<close>

theorem error_accounting:
  assumes "diag_balanced (rv_stats r)" and "receive L z sim r = (res, r')"
  shows "diag_balanced (rv_stats r') \<and> (\<exists>ep. accounted ep res (rv_stats r) (rv_stats r'))"
  using assms by (rule receive_accounting)

theorem error_accounting_witness:
  "\<exists>r'. snd (receive demo_ext demo_zmq (Err (InvalidData, [])) demo_receiver) = r'
     \<and> message_count r' = 1 \<and> error_count r' = 0 \<and> diag_balanced (rv_stats r')"
proof -
  obtain rm r' where r: "receive demo_ext demo_zmq (Err (InvalidData, [])) demo_receiver = (Ok rm, r')"
    using demo_receive by blast
  have s: "rv_stats demo_receiver = stats_new" by (simp add: demo_receiver_def)
  then have "diag_balanced (rv_stats demo_receiver)" by (simp add: diag_balanced_new)
  from error_accounting [OF this r] have "diag_balanced (rv_stats r')"
      "\<exists>ep. accounted ep (Ok rm) stats_new (rv_stats r')"
    by (simp_all add: s)
  with r show ?thesis
    by (auto simp: accounted_def message_count_def error_count_def stats_new_def)
qed

end
