(* ===== verification/Bs_Stream.thy ===== *)
theory Bs_Stream
  imports Bs_Accounting
begin

section \<open>A stream from sender to receiver (src/src/sender.rs, src/src/receiver.rs)\<close>

text \<open>
  The composition of the two ends: what a sender puts on its wire is cut into multipart
  messages, which the socket of a receiver hands out one by one.  A run of sends and as many
  receptions deliver every message, in order, with its id, timestamp and values.
\<close>

subsection \<open>The medium\<close>

text \<open>The frames of a wire as messages; a message still open is not delivered.\<close>

fun multipart :: "byte list list \<Rightarrow> (byte list \<times> i32) list \<Rightarrow> byte list list list" where
  "multipart cur [] = []"
| "multipart cur ((b, f) # fs) =
     (if and f SNDMORE \<noteq> 0 then multipart (cur @ [b]) fs else (cur @ [b]) # multipart [] fs)"

lemma multipart_message:
  assumes "fs \<noteq> []" and "\<forall>f \<in> set (butlast fs). and (snd f) SNDMORE = SNDMORE" and "and (snd (last fs)) SNDMORE = 0"
  shows "multipart cur (fs @ w) = (cur @ map fst fs) # multipart [] w"
  using assms
proof (induction fs arbitrary: cur)
  case Nil
  then show ?case by simp
next
  case (Cons x fs)
  obtain b f where x: "x = (b, f)" by (cases x)
  show ?case
  proof (cases "fs = []")
    case True
    with Cons.prems x show ?thesis by simp
  next
    case False
    with Cons.prems have "and f SNDMORE \<noteq> 0" by (simp add: x SNDMORE_def)
    with False Cons.prems Cons.IH [of "cur @ [b]"] show ?thesis by (simp add: x)
  qed
qed

text \<open>Sockets that hold the messages still to be received.\<close>

definition feed_zmq :: "byte list list list zmq" where
  "feed_zmq = \<lparr>z_new = (\<lambda>t. Inr []),
     z_recv = (\<lambda>s. case s of [] \<Rightarrow> ([], Inl (TimedOut, ''Resource temporarily unavailable'')) | m # ms \<Rightarrow> (ms, Inr m)),
     z_poll = (\<lambda>ss. Inr (map (\<lambda>s. s \<noteq> []) ss)), z_send = (\<lambda>s b f. (s, None)),
     z_bind = (\<lambda>s e. (s, None)), z_unbind = (\<lambda>s e. (s, None)), z_connect = (\<lambda>s e. (s, None)),
     z_disconnect = (\<lambda>s e. (s, None)), z_subscribe = (\<lambda>s t. (s, None)), z_set = (\<lambda>s x. (s, None)),
     z_monitor = (\<lambda>s e. (s, None)), z_socket_type = (\<lambda>s. Inr SUB), z_last_endpoint = (\<lambda>s. None)\<rparr>"

subsection \<open>The receiving end\<close>

text \<open>
  A receiver with one socket, connected to \<open>ep\<close>, at which the messages \<open>ms\<close> wait; \<open>waiting\<close>
  is what waits at a socket.
\<close>

definition listening_on :: "('s \<Rightarrow> byte list list list) \<Rightarrow> string \<Rightarrow> byte list list list \<Rightarrow> 's receiver \<Rightarrow> bool" where
  "listening_on waiting ep ms r \<longleftrightarrow> rv_endpoints r \<noteq> [] \<and> \<not> rv_raw r
     \<and> (\<exists>ts. rv_sockets r = Individual [(ep, ts)] [ep] [] \<and> waiting (ts_socket ts) = ms)"

definition listening :: "string \<Rightarrow> byte list list list \<Rightarrow> byte list list list receiver \<Rightarrow> bool" where
  "listening ep ms r \<longleftrightarrow> rv_endpoints r \<noteq> [] \<and> \<not> rv_raw r
     \<and> (\<exists>ts. rv_sockets r = Individual [(ep, ts)] [ep] [] \<and> ts_socket ts = ms)"

lemma listening_feed: "listening_on (\<lambda>s. s) = listening"
  by (intro ext) (simp add: listening_on_def listening_def)

text \<open>Receptions in turn, with the outcome of \<open>current_id\<close> at each.\<close>

fun receive_all ::
  "ext \<Rightarrow> 's zmq \<Rightarrow> u64 res list \<Rightarrow> 's receiver \<Rightarrow> received_message res list \<times> 's receiver" where
  "receive_all L z [] r = ([], r)"
| "receive_all L z (sim # sims) r =
     (let (res, r') = receive L z sim r; (rs, r'') = receive_all L z sims r' in (res # rs, r''))"

lemma send_diag_books [simp]:
  "rv_sockets (send_diag r ep d) = rv_sockets r" "rv_raw (send_diag r ep d) = rv_raw r"
  "st_messages (rv_stats (send_diag r ep d)) = st_messages (rv_stats r)"
  "st_errors (rv_stats (send_diag r ep d)) = st_errors (rv_stats r)"
  by (auto simp: send_diag_def increse_stats_def Let_def stats_increase_def split: option.split)

lemma check_message_books:
  "rv_sockets (snd (check_message sim r m ep)) = rv_sockets r" "rv_raw (snd (check_message sim r m ep)) = rv_raw r"
  "st_messages (rv_stats (snd (check_message sim r m ep))) = st_messages (rv_stats r)"
  "st_errors (rv_stats (snd (check_message sim r m ep))) = st_errors (rv_stats r)"
  by (auto simp: check_message_def Let_def split: option.split)

text \<open>
  Messages \<open>xs\<close>, each with its frames and what they parse to without a cache, that wait at
  a receiver with increasing ids within its limits are all received.
\<close>

definition parses_to ::
  "ext \<Rightarrow> (string \<Rightarrow> header option) \<Rightarrow> string set \<Rightarrow> string \<Rightarrow> byte list list \<times> message \<Rightarrow> bool" where
  "parses_to L H E ep x \<longleftrightarrow>
     well_hashed L False H E (fst x) (Some ep)
     \<and> (\<exists>c. parse_message L (fst x) (Some ep) lhm_void False = (Ok (snd x), c))"

lemma id_limits_later:
  "id_limits chk sim prev pid \<Longrightarrow> prev' \<in> {prev, Some l} \<Longrightarrow> l < pid \<Longrightarrow> id_limits chk sim prev' pid"
  by (auto simp: id_limits_def)

text \<open>
  The interface of a socket at which messages wait: it is readable when one waits, and
  receiving takes the first.
\<close>

locale message_source =
  fixes z :: "'s zmq" and waiting :: "'s \<Rightarrow> byte list list list"
  assumes recv: "waiting s = m # ms \<Longrightarrow> \<exists>s'. z_recv z s = (s', Inr m) \<and> waiting s' = ms"
    and poll: "z_poll z ss = Inr (map (\<lambda>s. waiting s \<noteq> []) ss)"
begin

lemma listening_raw_receive:
  assumes "listening_on waiting ep (ps # pss) r"
  shows "\<exists>ts. raw_receive z r = ((Some ep, Ok ps), r\<lparr>rv_sockets := Individual [(ep, ts)] [ep] []\<rparr>)
    \<and> waiting (ts_socket ts) = pss"
proof -
  obtain ts where ts: "rv_sockets r = Individual [(ep, ts)] [ep] []" "waiting (ts_socket ts) = ps # pss"
    using assms by (auto simp: listening_on_def)
  obtain s where "z_recv z (ts_socket ts) = (s, Inr ps)" "waiting s = pss" using recv [OF ts(2)] by blast
  with ts show ?thesis
    by (intro exI [of _ "ts\<lparr>ts_socket := s\<rparr>"])
      (simp add: raw_receive_def poll receive_ready_def readable_def tracked_receive_def)
qed

text \<open>Whether a message that parses is delivered is up to the checks; it is taken either way.\<close>

lemma receive_checks:
  assumes "listening_on waiting ep (ps # pss) r" and "cache_sound L False H E (rv_header_buffer r)"
    and "well_hashed L False H E ps (Some ep)" and "parse_message L ps (Some ep) lhm_void False = (Ok m0, c0)"
  shows "\<exists>x m r'. receive L z sim r = (x, r')
    \<and> listening_on waiting ep pss r' \<and> cache_sound L False H E (rv_header_buffer r')
    \<and> rv_check_mask r' = rv_check_mask r \<and> strip_changed m = strip_changed m0
    \<and> (if id_limits (rv_check_mask r) sim (rv_id_buffer r ep) (m_id m0)
       then x = Ok \<lparr>rm_endpoint = Some ep, rm_message = m\<rparr> \<and> rv_id_buffer r' ep \<in> {rv_id_buffer r ep, Some (m_id m0)}
         \<and> message_count r' = message_count r + 1 \<and> error_count r' = error_count r
       else \<exists>e. x = Err e)"
proof -
  obtain ts where raw: "raw_receive z r = ((Some ep, Ok ps), r\<lparr>rv_sockets := Individual [(ep, ts)] [ep] []\<rparr>)"
      "waiting (ts_socket ts) = pss"
    using listening_raw_receive [OF assms(1)] by blast
  let ?r1 = "r\<lparr>rv_sockets := Individual [(ep, ts)] [ep] []\<rparr>"
  have l: "rv_endpoints r \<noteq> []" "\<not> rv_raw r" using assms(1) by (auto simp: listening_on_def)
  obtain pm c where p: "parse_message L ps (Some ep) (rv_header_buffer r) False = (pm, c)"
    by (cases "parse_message L ps (Some ep) (rv_header_buffer r) False")
  from parse_message_cached [OF assms(2,3)] have "res_map strip_changed pm = Ok (strip_changed m0)"
      and c: "cache_sound L False H E c"
    by (simp_all add: p assms(4))
  then obtain m where m: "pm = Ok m" "strip_changed m = strip_changed m0" by (cases pm) auto
  have id: "m_id m = m_id m0" using arg_cong [OF m(2), of m_id] by (simp add: strip_changed_def)
  let ?r2 = "(forward_message z ?r1 ps)\<lparr>rv_header_buffer := c\<rparr>"
  obtain res r3 where ck: "check_message sim ?r2 m (Some ep) = (res, r3)" by (cases "check_message sim ?r2 m (Some ep)")
  have k: "rv_check_mask r3 = rv_check_mask r" "rv_header_buffer r3 = c" "rv_endpoints r3 = rv_endpoints r"
      "if id_limits (rv_check_mask r) sim (rv_id_buffer r ep) (m_id m0)
       then res = Ok m \<and> rv_id_buffer r3 ep \<in> {rv_id_buffer r ep, Some (m_id m0)} else \<exists>e. res = Err e"
    using check_message_cases [OF ck] by (auto simp: id split: if_splits)
  have f: "rv_sockets r3 = Individual [(ep, ts)] [ep] []" "\<not> rv_raw r3"
      "st_messages (rv_stats r3) = st_messages (rv_stats r)" "st_errors (rv_stats r3) = st_errors (rv_stats r)"
    using check_message_books [of sim ?r2 m "Some ep"] l(2) by (simp_all add: ck)
  have p1: "process_message L z sim ?r1 (Some ep) ps = (res, r3)"
    using p ck m(1) l(2) by (simp add: process_message_def)
  show ?thesis
  proof (cases "id_limits (rv_check_mask r) sim (rv_id_buffer r ep) (m_id m0)")
    case True
    then have "receive L z sim r = (Ok \<lparr>rm_endpoint = Some ep, rm_message = m\<rparr>,
        increse_stats (r3\<lparr>rv_stats := increase_messages (rv_stats r3)\<rparr>) (Some ep) DiagMessages)"
      using raw(1) l(1) p1 k(4) by (simp add: receive_def connections_def)
    then show ?thesis
      using True m(2) c k f raw(2) l(1)
      by (simp add: listening_on_def increse_stats_def message_count_def error_count_def increase_messages_def)
  next
    case False
    then obtain e where "res = Err e" using k(4) by auto
    let ?r4 = "increse_stats (r3\<lparr>rv_stats := increase_errors (rv_stats r3)\<rparr>) (Some ep) DiagErrors"
    have "receive L z sim r = (Err e, ?r4)"
      using raw(1) l(1) p1 \<open>res = Err e\<close> by (simp add: receive_def connections_def)
    moreover have "listening_on waiting ep pss ?r4" "cache_sound L False H E (rv_header_buffer ?r4)"
        "rv_check_mask ?r4 = rv_check_mask r"
      using c k(1-3) f raw(2) l(1) by (simp_all add: listening_on_def increse_stats_def)
    ultimately show ?thesis using False m(2) by auto
  qed
qed

lemma receive_delivers:
  assumes "listening_on waiting ep (ps # pss) r" and "cache_sound L False H E (rv_header_buffer r)"
    and "well_hashed L False H E ps (Some ep)" and "parse_message L ps (Some ep) lhm_void False = (Ok m0, c0)"
    and "id_limits (rv_check_mask r) sim (rv_id_buffer r ep) (m_id m0)"
  shows "\<exists>m r'. receive L z sim r = (Ok \<lparr>rm_endpoint = Some ep, rm_message = m\<rparr>, r')
    \<and> strip_changed m = strip_changed m0 \<and> listening_on waiting ep pss r' \<and> cache_sound L False H E (rv_header_buffer r')
    \<and> rv_check_mask r' = rv_check_mask r
    \<and> rv_id_buffer r' ep \<in> {rv_id_buffer r ep, Some (m_id m0)}
    \<and> message_count r' = message_count r + 1 \<and> error_count r' = error_count r"
  using receive_checks [OF assms(1-4), of sim] assms(5) by auto

lemma receive_all_delivers:
  assumes "listening_on waiting ep (map fst xs) r" and "cache_sound L False H E (rv_header_buffer r)"
    and "\<forall>x \<in> set xs. parses_to L H E ep x" and "sorted_wrt (<) (map (m_id \<circ> snd) xs)"
    and "list_all2 (\<lambda>sim x. id_limits (rv_check_mask r) sim (rv_id_buffer r ep) (m_id (snd x))) sims xs"
  shows "\<exists>ms r'. receive_all L z sims r = (map (\<lambda>m. Ok \<lparr>rm_endpoint = Some ep, rm_message = m\<rparr>) ms, r')
    \<and> map strip_changed ms = map (strip_changed \<circ> snd) xs
    \<and> message_count r' = message_count r + word_of_nat (length xs) \<and> error_count r' = error_count r"
  using assms
proof (induction xs arbitrary: sims r)
  case Nil
  then show ?case by simp
next
  case (Cons x xs)
  obtain ps m0 where x: "x = (ps, m0)" by (cases x)
  obtain sim sims' where sims: "sims = sim # sims'" "id_limits (rv_check_mask r) sim (rv_id_buffer r ep) (m_id m0)"
      "list_all2 (\<lambda>sim x. id_limits (rv_check_mask r) sim (rv_id_buffer r ep) (m_id (snd x))) sims' xs"
    using Cons.prems(5) by (auto simp: x list_all2_Cons2)
  obtain c0 where p: "well_hashed L False H E ps (Some ep)" "parse_message L ps (Some ep) lhm_void False = (Ok m0, c0)"
    using Cons.prems(3) by (auto simp: x parses_to_def)
  have li: "listening_on waiting ep (ps # map fst xs) r" using Cons.prems(1) by (simp add: x)
  obtain m r1 where r1: "receive L z sim r = (Ok \<lparr>rm_endpoint = Some ep, rm_message = m\<rparr>, r1)"
      "strip_changed m = strip_changed m0" "listening_on waiting ep (map fst xs) r1" "cache_sound L False H E (rv_header_buffer r1)"
      "rv_check_mask r1 = rv_check_mask r" "rv_id_buffer r1 ep \<in> {rv_id_buffer r ep, Some (m_id m0)}"
      "message_count r1 = message_count r + 1" "error_count r1 = error_count r"
    using receive_delivers [OF li Cons.prems(2) p sims(2)] by blast
  have later: "\<forall>x \<in> set xs. m_id m0 < m_id (snd x)" using Cons.prems(4) by (simp add: x)
  have "list_all2 (\<lambda>sim x. id_limits (rv_check_mask r1) sim (rv_id_buffer r1 ep) (m_id (snd x))) sims' xs"
    using sims(3) unfolding r1(5)
    by (rule list.rel_mono_strong) (use later r1(6) in \<open>blast intro: id_limits_later\<close>)
  moreover have "\<forall>x \<in> set xs. parses_to L H E ep x" "sorted_wrt (<) (map (m_id \<circ> snd) xs)"
    using Cons.prems(3,4) by (simp_all add: comp_def)
  ultimately obtain ms r' where "receive_all L z sims' r1
        = (map (\<lambda>m. Ok \<lparr>rm_endpoint = Some ep, rm_message = m\<rparr>) ms, r')"
      "map strip_changed ms = map (strip_changed \<circ> snd) xs"
      "message_count r' = message_count r1 + word_of_nat (length xs)" "error_count r' = error_count r1"
    using Cons.IH [OF r1(3,4)] by blast
  then show ?case
    using r1 by (intro exI [of _ "m # ms"] exI [of _ r']) (simp add: sims(1) x)
qed

end

interpretation feed: message_source feed_zmq "\<lambda>s. s"
  by unfold_locales (auto simp: feed_zmq_def)

subsection \<open>The sending end\<close>

text \<open>Sends in turn, with simulated ids and the clock's time at each.\<close>

fun send_all ::
  "ext \<Rightarrow> channel list \<Rightarrow> (byte list \<times> i32) list sender \<Rightarrow> (timestamp \<times> channel_data list) list
   \<Rightarrow> u64 res list \<times> (byte list \<times> i32) list sender" where
  "send_all L chs s [] = ([], s)"
| "send_all L chs s ((now, ds) # items) =
     (let (res, s') = sender_send L wire_zmq now s ID_SIMULATED TIMESTAMP_NOW chs (map Some ds);
          (rs, s'') = send_all L chs s' items
      in (res # rs, s''))"

definition sent_header :: "ext \<Rightarrow> 's sender \<Rightarrow> timestamp \<Rightarrow> u64 \<Rightarrow> header" where
  "sent_header L s now pid = (sd_main_header s)
     (''pulse_id'' \<mapsto> json_of_u64 L pid, ''global_timestamp'' \<mapsto> timestamp_json L now)"

text \<open>What is delivered of a message.\<close>

definition delivered :: "channel list \<Rightarrow> timestamp \<Rightarrow> u64 \<Rightarrow> channel_data list \<Rightarrow> message \<Rightarrow> bool" where
  "delivered chs ts pid ds m \<longleftrightarrow>
     m_id m = pid \<and> m_timestamp m = ts \<and> m_channels m = map norm_channel chs \<and> \<not> m_raw m
     \<and> (\<forall>i < length chs. message_channel_data m (ch_name (chs ! i)) = Some (received (chs ! i) (ds ! i)))"

lemma delivered_strip: "strip_changed m = strip_changed m' \<Longrightarrow> delivered chs ts pid ds m = delivered chs ts pid ds m'"
proof -
  have s: "delivered chs ts pid ds (strip_changed m) = delivered chs ts pid ds m" for m
    by (simp add: delivered_def strip_changed_def message_channel_data_def)
  show "delivered chs ts pid ds m = delivered chs ts pid ds m'" if "strip_changed m = strip_changed m'"
    using s [of m] s [of m'] that by simp
qed

lemma send_one:
  assumes "byteorder_ok L" and "json_num_ok L" and "chs \<noteq> []" and "distinct (map ch_name chs)"
    and "header_ready L chs htext s" and "list_all2 (sendable L) chs ds"
    and "json_map_ok L (sent_header L s now (sd_pulse_id s)) mtext" and "uint (sd_pulse_id s) < 2 ^ 63"
    and "ep \<in> E" and "hash_md5 L (sd_buffer s) \<notin> E"
    and "H (hash_md5 L (sd_buffer s)) = Some (create_data_header L chs)"
  shows "\<exists>fs m s1. sender_send L wire_zmq now s ID_SIMULATED TIMESTAMP_NOW chs (map Some ds)
        = (Ok (sd_pulse_id s), s1\<lparr>sd_socket := sd_socket s @ fs\<rparr>)
    \<and> (\<forall>w. multipart [] (fs @ w) = map fst fs # multipart [] w)
    \<and> parses_to L H E ep (map fst fs, m) \<and> delivered chs now (sd_pulse_id s) ds m
    \<and> header_ready L chs htext s1 \<and> sd_buffer s1 = sd_buffer s \<and> sd_pulse_id s1 = sd_pulse_id s + 1
    \<and> sd_compression s1 = sd_compression s \<and> sd_main_header s1 = sent_header L s now (sd_pulse_id s)
    \<and> (\<forall>now' pid. sent_header L s1 now' pid = sent_header L s now' pid)"
proof -
  obtain sent s1 where u: "update_main_header L now s ID_SIMULATED TIMESTAMP_NOW = (sent, s1)"
    by (cases "update_main_header L now s ID_SIMULATED TIMESTAMP_NOW")
  note f = update_main_header_fields [OF u]
  have h: "sd_main_header s1 = sent_header L s now (sd_pulse_id s)" and sent: "sent = sd_pulse_id s"
    using f(1,6) by (simp_all add: sent_header_def)
  have j: "json_map_ok L (sd_main_header s1) mtext" and b: "uint sent < 2 ^ 63"
    using assms(7,8) by (simp_all add: h sent)
  have built: "\<forall>ch \<in> set chs. built L ch"
    using assms(6) by (auto simp: list_all2_conv_all_nth in_set_conv_nth sendable_def)
  let ?ps = "\<lambda>fs. str_bytes mtext # sd_buffer s1 # map fst fs"
  obtain fs m c where m: "message_frames L s1 mtext chs (map Some ds)
        = ((str_bytes mtext, flags_more s1) # (sd_buffer s1, flags_more s1) # fs, Ok ())"
      "sender_send L wire_zmq now s ID_SIMULATED TIMESTAMP_NOW chs (map Some ds) = (Ok sent,
        s1\<lparr>sd_socket := sd_socket s @ (str_bytes mtext, flags_more s1) # (sd_buffer s1, flags_more s1) # fs\<rparr>)"
      "parse_message L (?ps fs) (Some ep) lhm_void False = (Ok m, c)" "delivered chs now sent ds m"
    using send_parse_message [OF assms(1,2,6,3-5) u j b, of "Some ep"] unfolding delivered_def by auto
  let ?fs = "(str_bytes mtext, flags_more s1) # (sd_buffer s1, flags_more s1) # fs"
  have "length (map Some ds) = length chs" using assms(6) by (simp add: list_all2_lengthD)
  then have "map snd ?fs = replicate (2 * length (filter (\<lambda>x. x \<noteq> None) (map Some ds)) + 1) (flags_more s1) @ [flags_last s1]"
    using message_frames_flags [OF _ m(1)] by simp
  note fl = snoc_flags [OF this]
  have mp: "multipart [] (?fs @ w) = map fst ?fs # multipart [] w" for w
    using fl(2,3) by (subst multipart_message) (auto simp only: flags_bits list.simps append_Nil)
  have "well_hashed L False H E (?ps fs) (Some ep)"
    using sent_header_facts [OF assms(2) built assms(5) u j] assms(9-11) by (simp add: well_hashed_def f(3))
  then have "parses_to L H E ep (map fst ?fs, m)" using m(3) by (simp add: parses_to_def)
  moreover have "header_ready L chs htext s1" using header_ready_update [OF assms(5) u] .
  moreover have "sent_header L s1 now' pid = sent_header L s now' pid" for now' pid
    by (simp add: sent_header_def h fun_upd_twist)
  ultimately show ?thesis
    using m(2,4) mp f(2,3,7) h unfolding sent by (intro exI [of _ ?fs] exI [of _ m] exI [of _ s1]) simp
qed

text \<open>The pulse id of message \<open>i\<close>, where the ids stay in the range of an \<open>i64\<close>.\<close>

definition id_from :: "u64 \<Rightarrow> nat \<Rightarrow> u64" where
  "id_from p i = p + word_of_nat i"

lemma id_from_simps [simp]: "id_from p 0 = p" "id_from (p + 1) i = id_from p (Suc i)"
  by (simp_all add: id_from_def)

lemma id_from_less:
  assumes "i < j" and "j < n" and "uint p + int n \<le> 2 ^ 63"
  shows "id_from p i < id_from p j"
proof -
  have "int (unat p + n) \<le> int (2 ^ 63)" using assms(3) by simp
  then have b: "unat p + n \<le> 2 ^ 63" by (simp only: of_nat_le_iff)
  have "unat (id_from p k) = unat p + k" if "k < n" for k
  proof -
    have "unat p + k < 2 ^ 64" and "k < 2 ^ 64" using b that by simp_all
    then show ?thesis by (simp add: id_from_def unat_word_ariths unat_of_nat)
  qed
  with assms(1,2) show ?thesis by (simp add: word_less_nat_alt)
qed

lemma send_all_frames:
  assumes "byteorder_ok L" and "json_num_ok L" and "chs \<noteq> []" and "distinct (map ch_name chs)" and "ep \<in> E"
    and "header_ready L chs htext s" and "\<forall>x \<in> set items. list_all2 (sendable L) chs (snd x)"
    and "\<forall>i < length items. \<exists>text. json_map_ok L (sent_header L s (fst (items ! i)) (id_from (sd_pulse_id s) i)) text"
    and "uint (sd_pulse_id s) + int (length items) \<le> 2 ^ 63" and "hash_md5 L (sd_buffer s) \<notin> E"
    and "H (hash_md5 L (sd_buffer s)) = Some (create_data_header L chs)"
  shows "\<exists>xs s' w. send_all L chs s items = (map (\<lambda>i. Ok (id_from (sd_pulse_id s) i)) [0..<length items], s')
    \<and> sd_socket s' = sd_socket s @ w \<and> multipart [] w = map fst xs \<and> length xs = length items
    \<and> (\<forall>x \<in> set xs. parses_to L H E ep x)
    \<and> (\<forall>i < length items. delivered chs (fst (items ! i)) (id_from (sd_pulse_id s) i) (snd (items ! i)) (snd (xs ! i)))"
  using assms(6-)
proof (induction items arbitrary: s)
  case Nil
  then show ?case by simp
next
  case (Cons x items)
  obtain now ds where x: "x = (now, ds)" by (cases x)
  let ?p = "sd_pulse_id s"
  obtain mtext where j: "json_map_ok L (sent_header L s now ?p) mtext"
    using Cons.prems(3) by (fastforce simp: x)
  have ds: "list_all2 (sendable L) chs ds" and p: "uint ?p < 2 ^ 63" using Cons.prems(2,4) by (simp_all add: x)
  obtain fs m s1 where o: "sender_send L wire_zmq now s ID_SIMULATED TIMESTAMP_NOW chs (map Some ds)
        = (Ok ?p, s1\<lparr>sd_socket := sd_socket s @ fs\<rparr>)"
      "\<And>w. multipart [] (fs @ w) = map fst fs # multipart [] w" "parses_to L H E ep (map fst fs, m)"
      "delivered chs now ?p ds m" "header_ready L chs htext s1" "sd_buffer s1 = sd_buffer s" "sd_pulse_id s1 = ?p + 1"
      "\<And>now' pid. sent_header L s1 now' pid = sent_header L s now' pid"
    using send_one [where H = H, OF assms(1-4) Cons.prems(1) ds j p assms(5) Cons.prems(5,6)] by blast
  let ?s = "s1\<lparr>sd_socket := sd_socket s @ fs\<rparr>"
  have hd: "sent_header L ?s now' pid = sent_header L s now' pid" for now' pid
    using o(8) by (simp add: sent_header_def)
  have p1: "sd_pulse_id ?s = ?p + 1" using o(7) by simp
  have "uint (?p + 1) \<le> uint ?p + 1" by (simp add: uint_add_le [of ?p 1, simplified])
  then have b: "uint (sd_pulse_id ?s) + int (length items) \<le> 2 ^ 63" using Cons.prems(4) p1 by simp
  have js: "\<forall>i < length items. \<exists>text. json_map_ok L (sent_header L ?s (fst (items ! i)) (id_from (sd_pulse_id ?s) i)) text"
    unfolding hd p1 id_from_simps
  proof (intro allI impI)
    fix i
    assume "i < length items"
    then show "\<exists>text. json_map_ok L (sent_header L s (fst (items ! i)) (id_from ?p (Suc i))) text"
      using Cons.prems(3) [rule_format, of "Suc i"] by simp
  qed
  obtain xs s' w where r: "send_all L chs ?s items = (map (\<lambda>i. Ok (id_from (?p + 1) i)) [0..<length items], s')"
      "sd_socket s' = sd_socket s @ fs @ w" "multipart [] w = map fst xs" "length xs = length items"
      "\<forall>x \<in> set xs. parses_to L H E ep x"
      "\<forall>i < length items. delivered chs (fst (items ! i)) (id_from (?p + 1) i) (snd (items ! i)) (snd (xs ! i))"
    using Cons.IH [OF _ _ js b] o(5,6) Cons.prems(2,5,6) p1 by auto
  have "map (\<lambda>i. Ok (id_from ?p i)) [0..<Suc (length items)]
      = Ok ?p # map (\<lambda>i. Ok (id_from (?p + 1) i)) [0..<length items]"
    unfolding upt_conv_Cons [OF zero_less_Suc] map_Suc_upt [symmetric] by (simp add: comp_def)
  moreover have "delivered chs (fst ((x # items) ! i)) (id_from ?p i) (snd ((x # items) ! i)) (snd (((map fst fs, m) # xs) ! i))"
    if "i < length (x # items)" for i
    using that o(4) r(6) by (cases i) (simp_all add: x)
  ultimately show ?case
    using o(1-3) r(1-5) by (intro exI [of _ "(map fst fs, m) # xs"] exI [of _ s'] exI [of _ "fs @ w"]) (simp add: x)
qed

context message_source
begin

lemma source_delivers:
  assumes "listening_on waiting ep (map fst xs) r" and "cache_sound L False H E (rv_header_buffer r)"
    and "\<forall>x \<in> set xs. parses_to L H E ep x" and "uint p + int (length xs) \<le> 2 ^ 63"
    and "\<forall>i < length xs. delivered chs (fst (items ! i)) (id_from p i) (snd (items ! i)) (snd (xs ! i))"
    and "length sims = length xs"
    and "\<forall>i < length xs. id_limits (rv_check_mask r) (sims ! i) (rv_id_buffer r ep) (id_from p i)"
  shows "\<exists>ms r'. receive_all L z sims r = (map (\<lambda>m. Ok \<lparr>rm_endpoint = Some ep, rm_message = m\<rparr>) ms, r')
    \<and> length ms = length xs
    \<and> (\<forall>i < length xs. delivered chs (fst (items ! i)) (id_from p i) (snd (items ! i)) (ms ! i))
    \<and> message_count r' = message_count r + word_of_nat (length xs) \<and> error_count r' = error_count r"
proof -
  let ?n = "length xs"
  have ids: "m_id (snd (xs ! i)) = id_from p i" if "i < ?n" for i
    using assms(5) that by (simp add: delivered_def)
  have "sorted_wrt (<) (map (m_id \<circ> snd) xs)"
    using id_from_less [OF _ _ assms(4)] by (simp add: sorted_wrt_iff_nth_less ids)
  moreover have "list_all2 (\<lambda>sim x. id_limits (rv_check_mask r) sim (rv_id_buffer r ep) (m_id (snd x))) sims xs"
    using assms(6,7) by (simp add: list_all2_conv_all_nth ids)
  ultimately obtain ms r' where m: "receive_all L z sims r
        = (map (\<lambda>m. Ok \<lparr>rm_endpoint = Some ep, rm_message = m\<rparr>) ms, r')"
      "map strip_changed ms = map (strip_changed \<circ> snd) xs"
      "message_count r' = message_count r + word_of_nat ?n" "error_count r' = error_count r"
    using receive_all_delivers [OF assms(1-3)] by blast
  have len: "length ms = ?n" using map_eq_imp_length_eq [OF m(2)] by simp
  have "strip_changed (ms ! i) = strip_changed (snd (xs ! i))" if "i < ?n" for i
    using arg_cong [OF m(2), of "\<lambda>ys. ys ! i"] that by (simp add: len)
  then have "delivered chs (fst (items ! i)) (id_from p i) (snd (items ! i)) (ms ! i)" if "i < ?n" for i
    using assms(5) that delivered_strip by blast
  with m(1,3,4) len show ?thesis by blast
qed

end

subsection \<open>The stream\<close>

text \<open>
  C1. A stream is delivered.  A sender that has created its data header sends values for
  its channels, message after message, with simulated ids.  A receiver that is connected to
  it by one individual socket, does not receive raw messages and has any sound header cache,
  and whose enabled checks admit each of these ids (\<open>id_limits\<close>: positive; beyond the id it
  remembers of this endpoint, if it remembers one; in range of its clock, if it has one),
  receives exactly these messages, in order, none lost and none refused: message \<open>i\<close> has
  the start id plus \<open>i\<close>, the time it was sent, and the values sent.  The message counter goes
  up by their number, the error counter not at all.
\<close>

theorem stream_delivered:
  assumes "byteorder_ok L" and "json_num_ok L" and "chs \<noteq> []" and "distinct (map ch_name chs)"
    and "header_ready L chs htext s" and "\<forall>x \<in> set items. list_all2 (sendable L) chs (snd x)"
    and "\<forall>i < length items. \<exists>text. json_map_ok L (sent_header L s (fst (items ! i)) (id_from (sd_pulse_id s) i)) text"
    and "uint (sd_pulse_id s) + int (length items) \<le> 2 ^ 63" and "sd_socket s = []"
    and "send_all L chs s items = (rs, s')" and "listening ep (multipart [] (sd_socket s')) r"
    and "cache_sound L False H E (rv_header_buffer r)" and "ep \<in> E" and "hash_md5 L (sd_buffer s) \<notin> E"
    and "H (hash_md5 L (sd_buffer s)) = Some (create_data_header L chs)"
    and "length sims = length items"
    and "\<forall>i < length items. id_limits (rv_check_mask r) (sims ! i) (rv_id_buffer r ep) (id_from (sd_pulse_id s) i)"
  shows "rs = map (\<lambda>i. Ok (id_from (sd_pulse_id s) i)) [0..<length items]
    \<and> (\<exists>ms r'. receive_all L feed_zmq sims r = (map (\<lambda>m. Ok \<lparr>rm_endpoint = Some ep, rm_message = m\<rparr>) ms, r')
        \<and> length ms = length items
        \<and> (\<forall>i < length items. delivered chs (fst (items ! i)) (id_from (sd_pulse_id s) i) (snd (items ! i)) (ms ! i))
        \<and> message_count r' = message_count r + word_of_nat (length items) \<and> error_count r' = error_count r)"
proof -
  let ?p = "sd_pulse_id s" and ?n = "length items"
  obtain xs w where x: "rs = map (\<lambda>i. Ok (id_from ?p i)) [0..<?n]" "sd_socket s' = w"
      "multipart [] w = map fst xs" "length xs = ?n" "\<forall>x \<in> set xs. parses_to L H E ep x"
      "\<forall>i < ?n. delivered chs (fst (items ! i)) (id_from ?p i) (snd (items ! i)) (snd (xs ! i))"
    using send_all_frames [where H = H, OF assms(1-4,13,5-8,14,15)] assms(9,10) by auto
  have "listening_on (\<lambda>s. s) ep (map fst xs) r" using assms(11) by (simp add: listening_feed x(2,3))
  from feed.source_delivers [OF this assms(12) x(5), of ?p chs items sims] assms(8,16,17) x(1,4,6) show ?thesis by auto
qed

text \<open>The instance of the witness: two messages of the sender of \<open>wit_ch\<close>, with ids 7 and 8.\<close>

definition str_main :: "u64 \<Rightarrow> header" where
  "str_main pid = [''htype'' \<mapsto> JString HTYPE, ''hash'' \<mapsto> JString (hash_md5 ref_ext (str_bytes ''d'')),
     ''pulse_id'' \<mapsto> json_of_u64 ref_ext pid, ''global_timestamp'' \<mapsto> timestamp_json ref_ext (3, 4)]"

definition str_ext :: ext where
  "str_ext = wit_ext\<lparr>
     json_print_map := (\<lambda>h. Inr (if h ''pulse_id'' = Some (json_of_u64 ref_ext 7) then ''m'' else ''n'')),
     json_from_slice := (\<lambda>bs. if bs = str_bytes ''d'' then Inr (create_data_header ref_ext [wit_ch])
                             else if bs = str_bytes ''m'' then Inr (str_main 7)
                             else if bs = str_bytes ''n'' then Inr (str_main 8)
                             else Inl (InvalidData, ''expected value''))\<rparr>"

definition str_sender :: "(byte list \<times> i32) list sender" where
  "str_sender = wit_ready\<lparr>sd_pulse_id := 7\<rparr>"

definition str_receiver :: "byte list list list \<Rightarrow> byte list list list receiver" where
  "str_receiver ms = \<lparr>rv_sockets = Individual [(''tcp'', \<lparr>ts_socket = ms, ts_endpoints = [''tcp''], ts_rec_index = 1,
       ts_topics = [], ts_monitoring = False, ts_index = 1\<rparr>)] [''tcp''] [],
     rv_endpoints = [''tcp''], rv_connected = True, rv_socket_type = SUB, rv_header_buffer = lhm_new 1,
     rv_id_buffer = [''tcp'' \<mapsto> 6], rv_check_mask = CHECK_ALL, rv_fifo = None, rv_stats = stats_new, rv_index = 1,
     rv_forwarder_config = None, rv_forwarder = None, rv_delivery_mode = Inline, rv_raw = False,
     rv_connection_mode = IndividualMode, rv_monitored = False, rv_forked = False, rv_options = socket_options_new,
     rv_diag_out = [], rv_commands = [], rv_counter = 1\<rparr>"

lemma str_laws: "byteorder_ok str_ext" "json_num_ok str_ext"
  using ref_byteorder_ok ref_json_num_ok by (simp_all add: byteorder_ok_def json_num_ok_def str_ext_def wit_ext_def)

lemma str_header: "create_data_header str_ext chs = create_data_header ref_ext chs"
  by (simp add: create_data_header_def metadata_def json_of_u64_def str_ext_def wit_ext_def)

lemma str_md5: "hash_md5 str_ext = hash_md5 ref_ext"
  by (rule hash_md5_cong) (simp add: str_ext_def wit_ext_def)

lemma str_built: "built str_ext wit_ch"
proof (rule new_built)
  show "channel_new str_ext ''a'' ''uint8'' (Some [2]) True Lz4 False = Ok wit_ch"
    by (simp add: channel_new_def shape_is_array_def channel_new_array_def Let_def mk_config_def wit_ch_def)
qed

lemma str_sendable: "sendable str_ext wit_ch \<lparr>cd_value = AU8 [a, b], cd_timestamp = ts\<rparr>"
  using str_built
  by (simp add: sendable_def wit_config mk_config_def accepts_def shape_is_array_def compressible_def lz4_ok_def)
    (simp add: str_ext_def wit_ext_def ref_ext_def)

lemma str_ready: "header_ready str_ext [wit_ch] ''d'' str_sender"
  by (simp add: header_ready_def str_header str_md5 str_sender_def wit_ready_def wit_sender_def sender_ok_def
      dh_compression_def decompress_data_def)
    (simp add: str_ext_def)

lemma str_json:
  assumes "pid \<in> {7, 8}"
  shows "\<exists>text. json_map_ok str_ext (sent_header str_ext str_sender (3, 4) pid) text"
proof -
  have h: "sent_header str_ext str_sender (3, 4) pid = str_main pid"
    by (simp add: sent_header_def str_sender_def wit_ready_def str_main_def timestamp_json_def json_of_u64_def)
      (simp add: str_ext_def wit_ext_def)
  show ?thesis
    unfolding h using assms
    by (auto simp: json_map_ok_def str_ext_def str_main_def json_of_u64_def ref_ext_def str_bytes_def byte_of_char_def)
qed

definition str_items :: "(timestamp \<times> channel_data list) list" where
  "str_items = [((3, 4), [\<lparr>cd_value = AU8 [5, 6], cd_timestamp = (8, 9)\<rparr>]),
     ((3, 4), [\<lparr>cd_value = AU8 [7, 8], cd_timestamp = (9, 9)\<rparr>])]"

definition str_headers :: "string \<Rightarrow> header option" where
  "str_headers = [hash_md5 ref_ext (str_bytes ''d'') \<mapsto> create_data_header ref_ext [wit_ch]]"

definition str_sims :: "u64 res list" where
  "str_sims = [Ok 7, Err (InvalidData, [])]"

lemma str_all: "(\<forall>i < length str_items. P i) = (P 0 \<and> P 1)"
  by (auto simp: str_items_def less_Suc_eq)

lemma str_ids: "id_from 7 0 = 7" "id_from 7 (Suc 0) = 8"
  by (simp_all add: id_from_def)

lemma str_sender_fields: "sd_pulse_id str_sender = 7" "sd_socket str_sender = []" "sd_buffer str_sender = str_bytes ''d''"
  by (simp_all add: str_sender_def wit_ready_def wit_sender_def)

lemma str_sending:
  "[wit_ch] \<noteq> []" "distinct (map ch_name [wit_ch])" "\<forall>x \<in> set str_items. list_all2 (sendable str_ext) [wit_ch] (snd x)"
  "\<forall>i < length str_items. \<exists>text. json_map_ok str_ext (sent_header str_ext str_sender (fst (str_items ! i)) (id_from (sd_pulse_id str_sender) i)) text"
  "uint (sd_pulse_id str_sender) + int (length str_items) \<le> 2 ^ 63"
  "str_headers (hash_md5 str_ext (sd_buffer str_sender)) = Some (create_data_header str_ext [wit_ch])"
proof -
  show "\<forall>i < length str_items. \<exists>text. json_map_ok str_ext (sent_header str_ext str_sender (fst (str_items ! i)) (id_from (sd_pulse_id str_sender) i)) text"
    unfolding str_all str_sender_fields using str_json by (simp add: str_ids str_items_def)
qed (simp_all add: str_items_def str_headers_def str_sendable str_sender_fields str_md5 str_header)

lemma str_md5_free: "hash_md5 str_ext (sd_buffer str_sender) \<notin> {''tcp'', ''hop''}"
  by (simp add: str_sender_fields str_md5 hash_ref_d)

lemma str_receiving:
  "listening ''tcp'' ms (str_receiver ms)" "cache_sound str_ext False str_headers E (rv_header_buffer (str_receiver ms))"
  "length str_sims = length str_items" "message_count (str_receiver ms) = 0" "error_count (str_receiver ms) = 0"
  "\<forall>i < length str_items. id_limits (rv_check_mask (str_receiver ms)) (str_sims ! i) (rv_id_buffer (str_receiver ms) ''tcp'')
     (id_from (sd_pulse_id str_sender) i)"
proof -
  show "cache_sound str_ext False str_headers E (rv_header_buffer (str_receiver ms))"
    using cache_sound_new by (simp add: str_receiver_def)
  show "\<forall>i < length str_items. id_limits (rv_check_mask (str_receiver ms)) (str_sims ! i) (rv_id_buffer (str_receiver ms) ''tcp'')
     (id_from (sd_pulse_id str_sender) i)"
    unfolding str_all str_sender_fields
    by (simp add: str_ids str_sims_def str_receiver_def id_limits_def out_of_range_def VALID_ID_RANGE_def)
qed (simp_all add: listening_def str_receiver_def message_count_def error_count_def stats_new_def str_sims_def str_items_def)

lemma str_value:
  assumes "delivered [wit_ch] ts pid [\<lparr>cd_value = AU8 [a, b], cd_timestamp = ts'\<rparr>] m"
  shows "m_id m = pid" "message_channel_value m ''a'' = Some (AU8 [a, b])"
proof -
  have n: "ch_name wit_ch = ''a''" by (simp add: ch_name_def wit_config mk_config_def)
  have "cfg_elements (ch_config wit_ch) = 2" by (simp add: wit_config mk_config_def elements_def)
  then have "received wit_ch \<lparr>cd_value = AU8 [a, b], cd_timestamp = ts'\<rparr> = \<lparr>cd_value = AU8 [a, b], cd_timestamp = ts'\<rparr>"
    by (simp add: received_def)
  with assms show "m_id m = pid" "message_channel_value m ''a'' = Some (AU8 [a, b])"
    by (simp_all add: delivered_def n message_channel_value_def)
qed

lemma str_values:
  assumes "length ms = length str_items"
    and "\<forall>i < length str_items. delivered [wit_ch] (fst (str_items ! i)) (id_from (sd_pulse_id str_sender) i) (snd (str_items ! i)) (ms ! i)"
  shows "map m_id ms = [7, 8]" "map (\<lambda>m. message_channel_value m ''a'') ms = [Some (AU8 [5, 6]), Some (AU8 [7, 8])]"
proof -
  obtain m1 m2 where ms: "ms = [m1, m2]" using assms(1) by (auto simp: str_items_def length_Suc_conv)
  have "delivered [wit_ch] (3, 4) 7 [\<lparr>cd_value = AU8 [5, 6], cd_timestamp = (8, 9)\<rparr>] m1"
      "delivered [wit_ch] (3, 4) 8 [\<lparr>cd_value = AU8 [7, 8], cd_timestamp = (9, 9)\<rparr>] m2"
    using assms(2) unfolding str_all str_sender_fields by (simp_all add: ms str_ids str_items_def)
  from str_value [OF this(1)] str_value [OF this(2)]
  show "map m_id ms = [7, 8]" "map (\<lambda>m. message_channel_value m ''a'') ms = [Some (AU8 [5, 6]), Some (AU8 [7, 8])]"
    by (simp_all add: ms)
qed

theorem stream_delivered_witness:
  "\<exists>s' ms r'. send_all str_ext [wit_ch] str_sender str_items = ([Ok 7, Ok 8], s')
    \<and> receive_all str_ext feed_zmq str_sims (str_receiver (multipart [] (sd_socket s')))
      = (map (\<lambda>m. Ok \<lparr>rm_endpoint = Some ''tcp'', rm_message = m\<rparr>) ms, r')
    \<and> map m_id ms = [7, 8]
    \<and> map (\<lambda>m. message_channel_value m ''a'') ms = [Some (AU8 [5, 6]), Some (AU8 [7, 8])]
    \<and> message_count r' = 2 \<and> error_count r' = 0"
proof -
  obtain rs s' where s: "send_all str_ext [wit_ch] str_sender str_items = (rs, s')"
    by (cases "send_all str_ext [wit_ch] str_sender str_items")
  have md5: "hash_md5 str_ext (sd_buffer str_sender) \<notin> {''tcp''}" using str_md5_free by blast
  note stream = stream_delivered [where H = str_headers, OF str_laws str_sending(1,2) str_ready str_sending(3-5)
      str_sender_fields(2) s str_receiving(1,2) _ md5 str_sending(6) str_receiving(3,6)]
  have "rs = [Ok 7, Ok 8]"
    using stream by (simp add: str_sender_fields str_items_def str_ids upt_rec)
  moreover obtain ms r' where "receive_all str_ext feed_zmq str_sims (str_receiver (multipart [] (sd_socket s')))
        = (map (\<lambda>m. Ok \<lparr>rm_endpoint = Some ''tcp'', rm_message = m\<rparr>) ms, r')"
      "length ms = length str_items" "message_count r' = 0 + word_of_nat (length str_items)" "error_count r' = 0"
      "\<forall>i < length str_items. delivered [wit_ch] (fst (str_items ! i)) (id_from (sd_pulse_id str_sender) i) (snd (str_items ! i)) (ms ! i)"
    using stream unfolding str_receiving(4,5) by blast
  moreover have "word_of_nat (length str_items) = (2 :: u32)" by (simp add: str_items_def)
  ultimately show ?thesis using s str_values [of ms] by auto
qed

end
