(* ===== verification/Bs_Endpoints.thy ===== *)
theory Bs_Endpoints
  imports Bs_Accounting
begin

section \<open>Endpoint management and the listening loop (src/src/receiver.rs)\<close>

text \<open>
  Lemmas on the definitions of \<open>Bs_Receiver\<close>: the invariants that every operation keeps
  (the header cache is well formed, so the loop of \<open>set_header_buffer_size\<close> ends; the poll
  list is the list of the sockets), what the listening loop delivers, what a failed connect
  leaves behind, and how errors of the listening thread come back through \<open>join\<close>.
\<close>

subsection \<open>The socket table\<close>

fun polls_inv :: "'s connection_sockets \<Rightarrow> bool" where
  "polls_inv (Shared s) = True"
| "polls_inv (Individual ss polls ready) = (polls = map fst ss \<and> distinct polls)"

fun polled :: "'s connection_sockets \<Rightarrow> string set" where
  "polled (Shared s) = {}"
| "polled (Individual ss polls ready) = set polls"

definition receiver_inv :: "'s receiver \<Rightarrow> bool" where
  "receiver_inv r \<longleftrightarrow> lhm_ok (rv_header_buffer r) \<and> polls_inv (rv_sockets r)"

lemma update_socket_keys [simp]: "map fst (update_socket ep x ss) = map fst ss"
  by (induction ep x ss rule: update_socket.induct) simp_all

lemma update_poll_items_inv: "distinct (map fst ss) \<Longrightarrow> polls_inv (update_poll_items (Individual ss polls ready))"
  by simp

lemma receive_ready_inv:
  "polls_inv (Individual ss polls ready) \<Longrightarrow> polls_inv (rv_sockets (snd (receive_ready z r ss polls ready')))"
  by (auto simp: receive_ready_def split: list.split option.split prod.split)

lemma raw_receive_inv:
  assumes "polls_inv (rv_sockets r)"
  shows "polls_inv (rv_sockets (snd (raw_receive z r)))"
proof (cases "rv_sockets r")
  case (Shared s)
  then show ?thesis by (simp add: raw_receive_def split: prod.split)
next
  case (Individual ss polls ready)
  from assms have inv: "polls_inv (Individual ss polls ready)" by (simp only: Individual)
  then have "polls = map fst ss" "distinct (map fst ss)" by auto
  with receive_ready_inv [OF inv] show ?thesis
    by (simp add: raw_receive_def Individual split: sum.split)
qed

lemma parse_message_cache: "lhm_ok c \<Longrightarrow> lhm_ok (snd (parse_message L parts ep c raw))"
  by (simp add: parse_message_def lhm_ok_insert split: res.split prod.split option.split)

lemma check_message_frame:
  assumes "check_message sim r m ep = (res, r')"
  shows "rv_header_buffer r' = rv_header_buffer r" "rv_sockets r' = rv_sockets r" "rv_fifo r' = rv_fifo r"
    "rv_endpoints r' = rv_endpoints r" "rv_connected r' = rv_connected r"
proof -
  have fifo: "rv_fifo (send_diag x e d) = rv_fifo x" for x :: "'a receiver" and e d
    by (simp add: send_diag_def increse_stats_def Let_def split: option.split)
  have "rv_header_buffer r' = rv_header_buffer r \<and> rv_sockets r' = rv_sockets r \<and> rv_fifo r' = rv_fifo r
      \<and> rv_endpoints r' = rv_endpoints r \<and> rv_connected r' = rv_connected r"
    using assms by (auto simp: check_message_def Let_def fifo split: if_splits option.splits)
  then show "rv_header_buffer r' = rv_header_buffer r" "rv_sockets r' = rv_sockets r" "rv_fifo r' = rv_fifo r"
    "rv_endpoints r' = rv_endpoints r" "rv_connected r' = rv_connected r" by simp_all
qed

lemma raw_receive_frame':
  assumes "raw_receive z r = (x, r1)"
  shows "rv_fifo r1 = rv_fifo r" "rv_connected r1 = rv_connected r"
  using raw_receive_frame [of z r] assms by auto

lemma process_message_frame:
  assumes "process_message L z sim r ep ps = (res, r')"
  shows "lhm_ok (rv_header_buffer r) \<Longrightarrow> lhm_ok (rv_header_buffer r')" "rv_sockets r' = rv_sockets r"
    "rv_fifo r' = rv_fifo r" "rv_endpoints r' = rv_endpoints r" "rv_connected r' = rv_connected r"
proof -
  obtain pm c where p: "parse_message L ps ep (rv_header_buffer r) (rv_raw r) = (pm, c)"
    by (cases "parse_message L ps ep (rv_header_buffer r) (rv_raw r)")
  let ?r2 = "(forward_message z r ps)\<lparr>rv_header_buffer := c\<rparr>"
  have fifo: "rv_fifo (send_diag x e d) = rv_fifo x" for x :: "'a receiver" and e d
    by (simp add: send_diag_def increse_stats_def Let_def split: option.split)
  have "rv_header_buffer r' = c \<and> rv_sockets r' = rv_sockets r \<and> rv_fifo r' = rv_fifo r
      \<and> rv_endpoints r' = rv_endpoints r \<and> rv_connected r' = rv_connected r"
  proof (cases pm)
    case (Ok m)
    then have "check_message sim ?r2 m ep = (res, r')"
      using assms p by (simp add: process_message_def)
    from check_message_frame [OF this] show ?thesis by (simp add: forward_message_def)
  qed (use assms p in \<open>auto simp: process_message_def forward_message_def fifo\<close>)
  moreover have "lhm_ok (rv_header_buffer r) \<Longrightarrow> lhm_ok c"
    using parse_message_cache [of "rv_header_buffer r" L ps ep "rv_raw r"] p by simp
  ultimately show "lhm_ok (rv_header_buffer r) \<Longrightarrow> lhm_ok (rv_header_buffer r')" "rv_sockets r' = rv_sockets r"
    "rv_fifo r' = rv_fifo r" "rv_endpoints r' = rv_endpoints r" "rv_connected r' = rv_connected r"
    by simp_all
qed

text \<open>A reception ends as it begins, or as its raw reception and its processing end.\<close>

lemma receive_frame:
  assumes "receive L z sim r = (res, r')"
  shows "receiver_inv r \<Longrightarrow> receiver_inv r'" "rv_fifo r' = rv_fifo r" "rv_endpoints r' = rv_endpoints r"
    "rv_connected r' = rv_connected r"
proof -
  have "(receiver_inv r \<longrightarrow> receiver_inv r') \<and> rv_fifo r' = rv_fifo r \<and> rv_endpoints r' = rv_endpoints r
    \<and> rv_connected r' = rv_connected r"
  proof (cases "connections r = 0")
    case True
    with assms show ?thesis by (auto simp: receive_def)
  next
    case False
    have fifo: "rv_fifo (send_diag x e d) = rv_fifo x" "rv_fifo (increse_stats x e d) = rv_fifo x"
      for x :: "'a receiver" and e d
      by (simp_all add: send_diag_def increse_stats_def Let_def split: option.split)
    obtain ep parts r1 where raw: "raw_receive z r = ((ep, parts), r1)" by (cases "raw_receive z r") auto
    have s: "polls_inv (rv_sockets r) \<longrightarrow> polls_inv (rv_sockets r1)"
      using raw_receive_inv [of r z] raw by simp
    note f = raw_receive_fields [OF raw] raw_receive_frame' [OF raw]
    show ?thesis
    proof (cases parts)
      case (Ok ps)
      obtain pm r2 where p: "process_message L z sim r1 ep ps = (pm, r2)"
        by (cases "process_message L z sim r1 ep ps")
      from assms False raw Ok p process_message_frame [OF p] f s show ?thesis
        by (cases pm) (auto simp: receive_def receiver_inv_def fifo)
    next
      case (Err e)
      with assms False raw f s show ?thesis
        by (cases "fst e = TimedOut") (auto simp: receive_def receiver_inv_def fifo)
    qed (use assms False raw f s in \<open>auto simp: receive_def receiver_inv_def fifo\<close>)
  qed
  then show "receiver_inv r \<Longrightarrow> receiver_inv r'" "rv_fifo r' = rv_fifo r" "rv_endpoints r' = rv_endpoints r"
    "rv_connected r' = rv_connected r" by simp_all
qed

subsection \<open>Connecting and disconnecting\<close>

fun individual :: "'s connection_sockets \<Rightarrow> bool" where
  "individual (Shared s) = False"
| "individual (Individual ss polls ready) = True"

text \<open>What connecting and disconnecting leave alone.\<close>

definition same_books :: "'s receiver \<Rightarrow> 's receiver \<Rightarrow> bool" where
  "same_books r r' \<longleftrightarrow> rv_fifo r' = rv_fifo r \<and> st_messages (rv_stats r') = st_messages (rv_stats r)
     \<and> individual (rv_sockets r') = individual (rv_sockets r)
     \<and> rv_delivery_mode r' = rv_delivery_mode r \<and> rv_forked r' = rv_forked r"

lemma same_books_refl [simp]: "same_books r r"
  by (simp add: same_books_def)

lemma same_books_trans: "same_books r r1 \<Longrightarrow> same_books r1 r2 \<Longrightarrow> same_books r r2"
  by (simp add: same_books_def)

lemma open_endpoint_frame:
  assumes "open_endpoint z env r ep = (x, r')"
  shows "rv_header_buffer r' = rv_header_buffer r" "rv_sockets r' = rv_sockets r" "rv_endpoints r' = rv_endpoints r"
    "rv_connected r' = rv_connected r" "rv_fifo r' = rv_fifo r" "rv_stats r' = rv_stats r"
    "rv_delivery_mode r' = rv_delivery_mode r" "rv_forked r' = rv_forked r"
  using assms by (auto simp: open_endpoint_def split: prod.splits res.splits option.splits)

lemma connect_socket_frame:
  assumes "connect_socket z env r ep = (x, r')"
  shows "rv_header_buffer r' = rv_header_buffer r" "rv_endpoints r' = rv_endpoints r"
    "rv_connected r' = rv_connected r" "same_books r r'"
  using assms
  by (auto simp: connect_socket_def same_books_def dest: open_endpoint_frame
      split: prod.splits res.splits option.splits connection_sockets.splits)

lemma connect_socket_polls:
  assumes "connect_socket z env r ep = (x, r')" and inv: "polls_inv (rv_sockets r)"
  shows "polls_inv (rv_sockets r') \<and> polled (rv_sockets r) \<subseteq> polled (rv_sockets r')
    \<and> (x = Ok () \<and> individual (rv_sockets r) \<longrightarrow> ep \<in> polled (rv_sockets r'))"
proof (cases "rv_sockets r")
  case (Shared ts)
  with assms show ?thesis by (auto simp: connect_socket_def split: prod.splits)
next
  case (Individual ss polls ready)
  with inv have p: "polls = map fst ss" "distinct (map fst ss)" by auto
  show ?thesis
  proof (cases "map_of ss ep")
    case (Some ts)
    then have "ep \<in> set polls" using p by (force dest: map_of_SomeD)
    with Some Individual p assms show ?thesis by (auto simp: connect_socket_def)
  next
    case None
    obtain y r1 where o: "open_endpoint z env r ep = (y, r1)" by (cases "open_endpoint z env r ep")
    note f = open_endpoint_frame(2) [OF o]
    have d: "distinct (map fst (AList.update ep t ss))" "set (map fst (AList.update ep t ss)) = insert ep (set polls)" for t
      using p by (auto simp: distinct_update update_keys)
    from o f None Individual p d assms show ?thesis
      by (cases y) (force simp: connect_socket_def)+
  qed
qed

lemma set_header_buffer_size_total:
  assumes "lhm_ok (rv_header_buffer r)"
  shows "\<exists>b. set_header_buffer_size r n = Some (r\<lparr>rv_header_buffer := b\<rparr>) \<and> lhm_ok b"
  using lhm_set_max_size_refines [OF assms, of n]
  by (cases "lhm_is_void (rv_header_buffer r)") (auto simp: set_header_buffer_size_def)

lemma connect_endpoint_total:
  assumes "receiver_inv r"
  shows "\<exists>x r'. connect_endpoint z env r ep = Some (x, r') \<and> receiver_inv r' \<and> same_books r r'
    \<and> rv_endpoints r' = rv_endpoints r \<and> rv_connected r' = rv_connected r
    \<and> polled (rv_sockets r) \<subseteq> polled (rv_sockets r')
    \<and> (x = Ok () \<and> individual (rv_sockets r) \<longrightarrow> ep \<in> polled (rv_sockets r'))"
proof -
  obtain x r1 where c: "connect_socket z env r ep = (x, r1)" by (cases "connect_socket z env r ep")
  note f = connect_socket_frame [OF c] and p = connect_socket_polls [OF c]
  have ok: "lhm_ok (rv_header_buffer r1)" "receiver_inv r1"
    using assms f(1) p by (simp_all add: receiver_inv_def)
  show ?thesis
  proof (cases x)
    case (Ok u)
    obtain b where "set_header_buffer_size r1 (connections r1) = Some (r1\<lparr>rv_header_buffer := b\<rparr>)" "lhm_ok b"
      using set_header_buffer_size_total [OF ok(1)] by blast
    with Ok c f p assms ok show ?thesis
      by (auto simp: connect_endpoint_def receiver_inv_def same_books_def)
  qed (use c f p assms ok in \<open>auto simp: connect_endpoint_def receiver_inv_def\<close>)
qed

lemma connect_all_total:
  assumes "receiver_inv r"
  shows "\<exists>x r'. connect_all z env r eps = Some (x, r') \<and> receiver_inv r' \<and> same_books r r'
    \<and> rv_endpoints r' = rv_endpoints r \<and> rv_connected r' = rv_connected r
    \<and> polled (rv_sockets r) \<subseteq> polled (rv_sockets r')
    \<and> (x = Ok () \<and> individual (rv_sockets r) \<longrightarrow> set eps \<subseteq> polled (rv_sockets r'))"
  using assms
proof (induction eps arbitrary: r)
  case Nil
  then show ?case by auto
next
  case (Cons ep eps)
  obtain x r1 where c: "connect_endpoint z env r ep = Some (x, r1)" "receiver_inv r1" "same_books r r1"
    "rv_endpoints r1 = rv_endpoints r" "rv_connected r1 = rv_connected r"
    "polled (rv_sockets r) \<subseteq> polled (rv_sockets r1)" "x = Ok () \<and> individual (rv_sockets r) \<longrightarrow> ep \<in> polled (rv_sockets r1)"
    using connect_endpoint_total [OF Cons.prems, of z env ep] by auto
  show ?case
  proof (cases x)
    case (Ok u)
    obtain y r2 where a: "connect_all z env r1 eps = Some (y, r2)" "receiver_inv r2" "same_books r1 r2"
      "rv_endpoints r2 = rv_endpoints r1" "rv_connected r2 = rv_connected r1"
      "polled (rv_sockets r1) \<subseteq> polled (rv_sockets r2)"
      "y = Ok () \<and> individual (rv_sockets r1) \<longrightarrow> set eps \<subseteq> polled (rv_sockets r2)"
      using Cons.IH [OF c(2)] by auto
    have ind: "individual (rv_sockets r1) = individual (rv_sockets r)" using c(3) by (simp add: same_books_def)
    have "connect_all z env r (ep # eps) = Some (y, r2)" using c(1) a(1) Ok by simp
    then show ?thesis using a c ind Ok same_books_trans [OF c(3) a(3)] by auto
  qed (use c in auto)
qed

lemma connect_all_split:
  assumes "connect_all z env r eps = Some (Err e, r')"
  shows "\<exists>pre ep post r1. eps = pre @ ep # post \<and> connect_all z env r pre = Some (Ok (), r1)
    \<and> connect_endpoint z env r1 ep = Some (Err e, r')"
  using assms
proof (induction eps arbitrary: r)
  case (Cons ep eps)
  then obtain x r1 where c: "connect_endpoint z env r ep = Some (x, r1)"
    by (cases "connect_endpoint z env r ep") auto
  show ?case
  proof (cases x)
    case (Ok u)
    with Cons.prems c have "connect_all z env r1 eps = Some (Err e, r')" by simp
    from Cons.IH [OF this] obtain pre q post r2 where "eps = pre @ q # post"
        "connect_all z env r1 pre = Some (Ok (), r2)" "connect_endpoint z env r2 q = Some (Err e, r')" by blast
    with c Ok show ?thesis by (intro exI [of _ "ep # pre"] exI [of _ q] exI [of _ post] exI [of _ r2]) simp
  next
    case (Err e')
    with Cons.prems c show ?thesis
      by (intro exI [of _ "[]"] exI [of _ ep] exI [of _ eps] exI [of _ r]) simp
  next
    case Panic
    with Cons.prems c show ?thesis by simp
  qed
qed simp

text \<open>What an operation of the interface guarantees on a well-formed receiver.\<close>

definition keeps :: "'s receiver \<Rightarrow> (unit res \<times> 's receiver) option \<Rightarrow> bool" where
  "keeps r o' \<longleftrightarrow> (\<exists>x r'. o' = Some (x, r') \<and> receiver_inv r' \<and> same_books r r')"

lemma keeps_Some: "receiver_inv r' \<Longrightarrow> same_books r r' \<Longrightarrow> keeps r (Some (x, r'))"
  by (simp add: keeps_def)

lemma rv_connect_keeps:
  assumes "receiver_inv r"
  shows "keeps r (rv_connect z env remote r)"
proof -
  obtain x r' where c: "connect_all z env r (rv_endpoints r) = Some (x, r')" "receiver_inv r'" "same_books r r'"
    using connect_all_total [OF assms, of z env "rv_endpoints r"] by blast
  then have "receiver_inv (r'\<lparr>rv_connected := True\<rparr>)" "same_books r (r'\<lparr>rv_connected := True\<rparr>)"
    by (simp_all add: receiver_inv_def same_books_def)
  with c assms show ?thesis
    by (cases x) (auto simp: rv_connect_def intro: keeps_Some)
qed

lemma add_endpoint_keeps:
  assumes "receiver_inv r"
  shows "keeps r (add_endpoint z env remote r ep)"
proof -
  let ?r1 = "if ep \<in> set (rv_endpoints r) then r else r\<lparr>rv_endpoints := rv_endpoints r @ [ep]\<rparr>"
  have inv: "receiver_inv ?r1" and sb: "same_books r ?r1"
    using assms by (simp_all add: receiver_inv_def same_books_def)
  obtain x r' where "connect_endpoint z env ?r1 ep = Some (x, r')" "receiver_inv r'" "same_books ?r1 r'"
    using connect_endpoint_total [OF inv, of z env ep] by blast
  with same_books_trans [OF sb] inv sb assms show ?thesis
    by (auto simp: add_endpoint_def Let_def intro: keeps_Some)
qed

lemma rv_disconnect_endpoint_keeps:
  "receiver_inv r \<Longrightarrow> receiver_inv (rv_disconnect_endpoint z r ep)"
  "same_books r (rv_disconnect_endpoint z r ep)"
  by (auto simp: rv_disconnect_endpoint_def receiver_inv_def same_books_def Let_def distinct_delete
      split: connection_sockets.split option.split)

lemma fold_disconnect_keeps:
  "(receiver_inv r \<longrightarrow> receiver_inv (fold (\<lambda>ep r. rv_disconnect_endpoint z r ep) eps r))
   \<and> same_books r (fold (\<lambda>ep r. rv_disconnect_endpoint z r ep) eps r)"
proof (induction eps arbitrary: r)
  case (Cons ep eps)
  from Cons.IH [of "rv_disconnect_endpoint z r ep"] rv_disconnect_endpoint_keeps [of r z ep]
  show ?case by (auto intro: same_books_trans)
qed simp

lemma rv_disconnect_keeps:
  assumes "receiver_inv r"
  shows "keeps r (Some (x, rv_disconnect z r))"
proof -
  have "receiver_inv (r\<lparr>rv_connected := False\<rparr>)" "same_books r (r\<lparr>rv_connected := False\<rparr>)"
    using assms by (simp_all add: receiver_inv_def same_books_def)
  with fold_disconnect_keeps [of "r\<lparr>rv_connected := False\<rparr>" z "rv_endpoints r"] assms
  show ?thesis by (auto simp: rv_disconnect_def intro!: keeps_Some intro: same_books_trans)
qed

lemma remove_endpoint_keeps:
  assumes "receiver_inv r"
  shows "keeps r (Some (x, remove_endpoint z r ep))"
  using assms rv_disconnect_endpoint_keeps(1) [OF assms, of z ep] rv_disconnect_endpoint_keeps(2) [of r z ep]
  by (simp add: keeps_def remove_endpoint_def remove_stats_def Let_def receiver_inv_def same_books_def)

lemma run_command_keeps: "receiver_inv r \<Longrightarrow> keeps r (run_command z env r c)"
  by (cases c) (simp_all add: run_command_def rv_connect_keeps add_endpoint_keeps rv_disconnect_keeps remove_endpoint_keeps)

lemma run_commands_keeps: "receiver_inv r \<Longrightarrow> keeps r (run_commands z env r cs)"
proof (induction cs arbitrary: r)
  case (Cons c cs)
  obtain x r1 where c: "run_command z env r c = Some (x, r1)" "receiver_inv r1" "same_books r r1"
    using run_command_keeps [OF Cons.prems, of z env c] by (auto simp: keeps_def)
  obtain y r2 where d: "run_commands z env r1 cs = Some (y, r2)" "receiver_inv r2" "same_books r1 r2"
    using Cons.IH [OF c(2)] unfolding keeps_def by blast
  have "same_books r r2" using c(3) d(3) by (rule same_books_trans)
  with c d show ?case by (cases x) (simp_all add: keeps_def)
qed (simp add: keeps_def)

subsection \<open>The listening loop\<close>

fun is_ok :: "'a res \<Rightarrow> bool" where
  "is_ok (Ok x) = True"
| "is_ok (Err e) = False"
| "is_ok Panic = False"

lemma receive_messages:
  assumes "receive L z sim r = (res, r')"
  shows "st_messages (rv_stats r') = st_messages (rv_stats r) + (if is_ok res then 1 else 0)"
proof (cases "connections r = 0")
  case True
  with assms show ?thesis by (auto simp: receive_def)
next
  case False
  obtain ep parts r1 where raw: "raw_receive z r = ((ep, parts), r1)" by (cases "raw_receive z r") auto
  note s1 = raw_receive_fields(3) [OF raw]
  show ?thesis
  proof (cases parts)
    case (Ok ps)
    obtain pm r2 where p: "process_message L z sim r1 ep ps = (pm, r2)"
      by (cases "process_message L z sim r1 ep ps")
    have "st_messages (rv_stats r2) = st_messages (rv_stats r)"
      using process_message_stats [OF p, unfolded s1] by (auto split: res.splits if_splits)
    with assms False raw Ok p show ?thesis
      by (cases pm) (auto simp: receive_def increase_messages_def increase_errors_def)
  next
    case (Err e)
    with assms False raw s1 show ?thesis by (cases "fst e = TimedOut") (auto simp: receive_def)
  qed (use assms False raw s1 in \<open>auto simp: receive_def\<close>)
qed

text \<open>The receiver after \<open>out\<close> was called back: its counter, and its queue still absent.\<close>

definition counts :: "'s receiver \<Rightarrow> received_message list \<Rightarrow> 's receiver \<Rightarrow> bool" where
  "counts r out r' \<longleftrightarrow> receiver_inv r'
     \<and> (rv_fifo r = None \<longrightarrow> rv_fifo r' = None \<and> message_count r' = message_count r + word_of_nat (length out))"

lemma counts_trans: "counts r out r1 \<Longrightarrow> counts r1 out' r2 \<Longrightarrow> counts r (out @ out') r2"
  by (auto simp: counts_def)

lemma counts_same: "counts r out r1 \<Longrightarrow> receiver_inv r2 \<Longrightarrow> same_books r1 r2 \<Longrightarrow> counts r out r2"
  by (auto simp: counts_def same_books_def message_count_def)

lemma listen_step_counts:
  assumes "receiver_inv r"
  shows "\<exists>out o' r'. listen_step L z n r i = Some (out, o', r') \<and> counts r out r' \<and> length out \<le> 1
    \<and> (\<forall>m. n = Some m \<and> o' = Continue \<longrightarrow> message_count r' < m)
    \<and> (o' = Continue \<longrightarrow> \<not> li_interrupted i)
    \<and> (o' = Stopped \<longrightarrow> li_interrupted i \<or> (\<exists>m. n = Some m \<and> m \<le> message_count r'))"
proof -
  obtain res r1 where r: "receive L z (li_sim i) r = (res, r1)" by (cases "receive L z (li_sim i) r")
  have inv: "receiver_inv r1" by (rule receive_frame(1) [OF r assms])
  obtain out r2 where d: "deliver r1 res = (out, r2)" by (cases "deliver r1 res")
  have inv2: "receiver_inv r2" and len: "length out \<le> 1"
    using d inv by (auto simp: deliver_def receiver_inv_def split: res.splits option.splits)
  have c2: "counts r out r2"
    using d inv2 receive_messages [OF r] receive_frame(2) [OF r]
    by (cases res) (auto simp: counts_def deliver_def message_count_def split: option.splits)
  show ?thesis
  proof (cases "res = Panic")
    case True
    with r d c2 show ?thesis by (auto simp: listen_step_def deliver_def)
  next
    case False
    let ?stop = "case n of Some m \<Rightarrow> m \<le> message_count r2 | None \<Rightarrow> False"
    obtain x r3 where k: "run_commands z (li_env i) r2 (li_commands i) = Some (x, r3)" "receiver_inv r3" "same_books r2 r3"
      using run_commands_keeps [OF inv2, of z "li_env i" "li_commands i"] unfolding keeps_def by blast
    have c3: "counts r out r3" using c2 k(2,3) by (rule counts_same)
    have m3: "message_count r3 = message_count r2" using k(3) by (simp add: same_books_def message_count_def)
    have step: "listen_step L z n r i =
        (if ?stop \<or> li_interrupted i then Some (out, Stopped, r2)
         else case x of Panic \<Rightarrow> Some (out, Panicked, r3) | _ \<Rightarrow> Some (out, Continue, r3))"
      using r d k(1) False by (cases res; cases x) (simp_all add: listen_step_def)
    show ?thesis
    proof (cases "?stop \<or> li_interrupted i")
      case True
      with step c2 len show ?thesis by (cases n) auto
    next
      case False
      with step c3 m3 len show ?thesis by (cases x; cases n) (auto simp: not_le)
    qed
  qed
qed

lemma listen_loop_counts:
  assumes "receiver_inv r"
  shows "\<exists>out o' r'. listen_loop L z n r is = Some (out, o', r') \<and> counts r out r'
    \<and> (\<forall>m k. n = Some m \<and> rv_fifo r = None \<and> message_count r = word_of_nat k \<and> k < max 1 (unat m)
         \<longrightarrow> k + length out \<le> max 1 (unat m))
    \<and> (o' = Continue \<longrightarrow> (\<forall>i \<in> set is. \<not> li_interrupted i)
         \<and> (\<forall>m. n = Some m \<longrightarrow> is = [] \<or> message_count r' < m))
    \<and> (o' = Stopped \<longrightarrow> (\<exists>i \<in> set is. li_interrupted i) \<or> (\<exists>m. n = Some m \<and> m \<le> message_count r'))"
  using assms
proof (induction "is" arbitrary: r)
  case Nil
  then show ?case by (auto simp: counts_def)
next
  case (Cons i "is")
  obtain out o' r1 where s: "listen_step L z n r i = Some (out, o', r1)" "counts r out r1" "length out \<le> 1"
      "\<forall>m. n = Some m \<and> o' = Continue \<longrightarrow> message_count r1 < m" "o' = Continue \<longrightarrow> \<not> li_interrupted i"
      "o' = Stopped \<longrightarrow> li_interrupted i \<or> (\<exists>m. n = Some m \<and> m \<le> message_count r1)"
    using listen_step_counts [OF Cons.prems, of L z n i] by auto
  show ?case
  proof (cases "o' = Continue")
    case False
    with s show ?thesis by (cases o') auto
  next
    case True
    from s(2) have inv: "receiver_inv r1" by (simp add: counts_def)
    from Cons.IH [OF inv] obtain out' o'' r2 where l: "listen_loop L z n r1 is = Some (out', o'', r2)" "counts r1 out' r2"
        and b: "\<And>m k. n = Some m \<Longrightarrow> rv_fifo r1 = None \<Longrightarrow> message_count r1 = word_of_nat k \<Longrightarrow> k < max 1 (unat m)
           \<Longrightarrow> k + length out' \<le> max 1 (unat m)"
        and e: "o'' = Continue \<longrightarrow> (\<forall>i \<in> set is. \<not> li_interrupted i)
           \<and> (\<forall>m. n = Some m \<longrightarrow> is = [] \<or> message_count r2 < m)"
          "o'' = Stopped \<longrightarrow> (\<exists>i \<in> set is. li_interrupted i) \<or> (\<exists>m. n = Some m \<and> m \<le> message_count r2)"
      by blast
    have run: "message_count r2 < m" if "o'' = Continue" "n = Some m" for m
      using e(1) that s(4) True l(1) by (cases "is") auto
    have bound: "k + length (out @ out') \<le> max 1 (unat m)"
      if p: "n = Some m" "rv_fifo r = None" "message_count r = word_of_nat k" "k < max 1 (unat m)" for m k
    proof -
      let ?k = "k + length out"
      have c: "rv_fifo r1 = None" "message_count r1 = word_of_nat ?k" using s(2) p by (simp_all add: counts_def)
      have lt: "(word_of_nat ?k :: u32) < m" using s(4) True p(1) c(2) by simp
      have "?k \<le> max 1 (unat m)" using s(3) p(4) by simp
      moreover have "unat m < 2 ^ 32" using unsigned_less [of m] by simp
      ultimately have "?k < 2 ^ 32" by simp
      then have "unat (word_of_nat ?k :: u32) = ?k" by (simp only: unat_of_nat) simp
      with lt have "?k < max 1 (unat m)" by (simp add: word_less_nat_alt)
      from b [OF p(1) c this] show ?thesis by simp
    qed
    have "listen_loop L z n r (i # is) = Some (out @ out', o'', r2)" using s(1) True l(1) by simp
    with counts_trans [OF s(2) l(2)] bound run e s(5) True show ?thesis
      by (intro exI [of _ "out @ out'"] exI [of _ o''] exI [of _ r2]) simp
  qed
qed

lemma start_forwarder_frame [simp]:
  "receiver_inv (start_forwarder z app r) = receiver_inv r" "rv_fifo (start_forwarder z app r) = rv_fifo r"
  "rv_stats (start_forwarder z app r) = rv_stats r"
  by (auto simp: start_forwarder_def receiver_inv_def Let_def split: option.split res.split prod.split)

lemma listen_begin_keeps:
  assumes "receiver_inv r"
  shows "\<exists>x r'. listen_begin z app env r = Some (x, r') \<and> receiver_inv r' \<and> rv_fifo r' = rv_fifo r \<and> message_count r' = 0"
proof -
  let ?r1 = "start_forwarder z app (reset_counters (if rv_forked r then r else r\<lparr>rv_delivery_mode := Inline\<rparr>))"
  have inv: "receiver_inv ?r1" and f: "rv_fifo ?r1 = rv_fifo r" "st_messages (rv_stats ?r1) = 0"
    using assms by (simp_all add: reset_counters_def stats_reset_def) (simp_all add: receiver_inv_def)
  obtain x r' where "rv_connect z env (\<lambda>_. Ok ()) ?r1 = Some (x, r')" "receiver_inv r'" "same_books ?r1 r'"
    using rv_connect_keeps [OF inv, of z env "\<lambda>_. Ok ()"] unfolding keeps_def by blast
  with f show ?thesis
    by (auto simp: listen_begin_def Let_def same_books_def message_count_def)
qed

lemma listen_counts:
  assumes "receiver_inv r"
  shows "\<exists>res out r'. listen L z app n r env inputs = Some (res, out, r') \<and> receiver_inv r'
    \<and> (rv_fifo r = None \<longrightarrow> message_count r' = word_of_nat (length out)
         \<and> (\<forall>m. n = Some m \<longrightarrow> length out \<le> max 1 (unat m)))
    \<and> (res = None \<longrightarrow> (\<forall>i \<in> set inputs. \<not> li_interrupted i)
         \<and> (\<forall>m. n = Some m \<longrightarrow> inputs = [] \<or> message_count r' < m))
    \<and> (res = Some (Ok ()) \<longrightarrow> (\<exists>i \<in> set inputs. li_interrupted i) \<or> (\<exists>m. n = Some m \<and> m \<le> message_count r'))"
proof -
  obtain x r1 where b: "listen_begin z app env r = Some (x, r1)" "receiver_inv r1" "rv_fifo r1 = rv_fifo r" "message_count r1 = 0"
    using listen_begin_keeps [OF assms, of z app env] by auto
  obtain out o' r2 where l: "listen_loop L z n r1 inputs = Some (out, o', r2)" "counts r1 out r2"
      "\<forall>m k. n = Some m \<and> rv_fifo r1 = None \<and> message_count r1 = word_of_nat k \<and> k < max 1 (unat m)
         \<longrightarrow> k + length out \<le> max 1 (unat m)"
      "o' = Continue \<longrightarrow> (\<forall>i \<in> set inputs. \<not> li_interrupted i)
         \<and> (\<forall>m. n = Some m \<longrightarrow> inputs = [] \<or> message_count r2 < m)"
      "o' = Stopped \<longrightarrow> (\<exists>i \<in> set inputs. li_interrupted i) \<or> (\<exists>m. n = Some m \<and> m \<le> message_count r2)"
    using listen_loop_counts [OF b(2), of L z n inputs] by auto
  from l(3) [rule_format, of _ 0] b have len: "rv_fifo r = None \<longrightarrow> (\<forall>m. n = Some m \<longrightarrow> length out \<le> max 1 (unat m))"
    by auto
  have s: "receiver_inv (stop_forwarder z app r2)" "message_count (stop_forwarder z app r2) = message_count r2"
    using l(2) by (simp_all add: stop_forwarder_def counts_def receiver_inv_def message_count_def)
  show ?thesis
  proof (cases x)
    case (Ok u)
    with b l s len show ?thesis
      by (cases o') (auto simp: listen_def counts_def)
  next
    case (Err e)
    with b show ?thesis by (auto simp: listen_def)
  next
    case Panic
    with b show ?thesis by (auto simp: listen_def)
  qed
qed

subsection \<open>Properties\<close>

lemma receiver_new_inv: "receiver_new z i c eps st cm = Ok r \<Longrightarrow> receiver_inv r"
  by (cases cm) (auto simp: receiver_new_def receiver_inv_def res_simps split: prod.splits)

lemma keepsD: "keeps r (Some (x, r')) \<Longrightarrow> receiver_inv r'"
  by (simp add: keeps_def)

definition demo_new :: "unit receiver res" where
  "demo_new = receiver_new demo_zmq 1 0 (Some [''tcp'', ''bad'']) SUB IndividualMode"

definition demo_env :: mon_env where
  "demo_env = \<lparr>mn_uuid = ''u'', mn_pair = None, mn_paired = None\<rparr>"

text \<open>
  C23. Bounds of \<open>listen\<close> with \<open>num_messages = m\<close> and without a queue, after any number of
  iterations: it has called back at most \<open>m\<close> messages (one, when \<open>m\<close> is 0), and the message
  counter is their number.  It has returned successfully only after \<open>m\<close> messages or an
  interruption; it is still in its loop only if no iteration saw the interruption flag and,
  once it has made an iteration, fewer than \<open>m\<close> messages were called back.
\<close>

theorem listen_bound:
  assumes "receiver_inv r" and "rv_fifo r = None"
  shows "\<exists>res out r'. listen L z app (Some m) r env inputs = Some (res, out, r')
    \<and> length out \<le> max 1 (unat m) \<and> message_count r' = word_of_nat (length out)
    \<and> (res = Some (Ok ()) \<longrightarrow> unat m \<le> length out \<or> (\<exists>i \<in> set inputs. li_interrupted i))
    \<and> (res = None \<longrightarrow> (\<forall>i \<in> set inputs. \<not> li_interrupted i) \<and> (inputs = [] \<or> length out < unat m))"
proof -
  obtain res out r' where l: "listen L z app (Some m) r env inputs = Some (res, out, r')"
      "message_count r' = word_of_nat (length out)" "length out \<le> max 1 (unat m)"
      "res = None \<longrightarrow> (\<forall>i \<in> set inputs. \<not> li_interrupted i) \<and> (inputs = [] \<or> message_count r' < m)"
      "res = Some (Ok ()) \<longrightarrow> (\<exists>i \<in> set inputs. li_interrupted i) \<or> m \<le> message_count r'"
    using listen_counts [OF assms(1), of L z app "Some m" env inputs] assms(2) by auto
  have "unat m < 2 ^ 32" using unsigned_less [of m] by simp
  with l(3) have "length out < 2 ^ 32" by simp
  then have "unat (message_count r') = length out" unfolding l(2) by (simp only: unat_of_nat) simp
  then have "message_count r' < m \<longleftrightarrow> length out < unat m" "m \<le> message_count r' \<longleftrightarrow> unat m \<le> length out"
    by (simp_all add: word_less_nat_alt word_le_nat_alt)
  with l show ?thesis by auto
qed

lemma demo_receiver_inv: "receiver_inv demo_receiver"
  by (simp add: receiver_inv_def demo_receiver_def)

text \<open>An iteration that is left alone, and one that sees the interruption flag.\<close>

definition demo_input :: "bool \<Rightarrow> listen_input" where
  "demo_input interrupted =
     \<lparr>li_sim = Err (InvalidData, []), li_interrupted = interrupted, li_commands = [], li_env = demo_env\<rparr>"

theorem listen_bound_witness:
  "\<exists>res out r'. listen demo_ext demo_zmq None (Some 1) demo_receiver demo_env [demo_input False, demo_input True]
     = Some (Some res, out, r') \<and> length out \<le> 1"
proof -
  have "rv_fifo demo_receiver = None" by (simp add: demo_receiver_def)
  from listen_bound [OF demo_receiver_inv this, of demo_ext demo_zmq None 1 demo_env "[demo_input False, demo_input True]"]
  show ?thesis by (auto simp: demo_input_def)
qed

text \<open>
  C37. Safety of what a failed \<open>connect\<close> leaves (individual mode): the receiver stays
  disconnected, yet every endpoint before the failing one has an open, polled socket, and
  neither \<open>disconnect\<close> nor \<open>remove_endpoint\<close> closes it: a removed endpoint is no longer
  listed and still received from.
\<close>

theorem failed_connect_keeps_sockets:
  assumes "receiver_inv r" and "individual (rv_sockets r)" and "acts_locally r"
    and "rv_connect z env remote r = Some (Err e, r')"
  shows "\<not> rv_connected r'
    \<and> (\<exists>pre ep post r1. rv_endpoints r = pre @ ep # post
        \<and> connect_all z env r pre = Some (Ok (), r1) \<and> connect_endpoint z env r1 ep = Some (Err e, r')
        \<and> (\<forall>p \<in> set pre. p \<in> polled (rv_sockets (rv_disconnect z r'))
              \<and> p \<in> polled (rv_sockets (remove_endpoint z r' p))
              \<and> p \<notin> set (rv_endpoints (remove_endpoint z r' p))))"
proof -
  have n: "\<not> rv_connected r" and c: "connect_all z env r (rv_endpoints r) = Some (Err e, r')"
    using assms(3,4) by (auto simp: rv_connect_def split: if_splits option.splits res.splits prod.splits)
  have k: "same_books r r'" "rv_connected r' = rv_connected r"
    using connect_all_total [OF assms(1), of z env "rv_endpoints r"] c by auto
  obtain pre ep post r1 where p: "rv_endpoints r = pre @ ep # post" "connect_all z env r pre = Some (Ok (), r1)"
      "connect_endpoint z env r1 ep = Some (Err e, r')"
    using connect_all_split [OF c] by blast
  have "set pre \<subseteq> polled (rv_sockets r1)" and r1: "receiver_inv r1"
    using connect_all_total [OF assms(1), of z env pre] p(2) assms(2) by auto
  with connect_endpoint_total [OF r1, of z env ep] p(3) have pre: "set pre \<subseteq> polled (rv_sockets r')" by auto
  have "acts_locally r'" using k(1) assms(3) by (simp add: same_books_def acts_locally_def)
  then have "rv_sockets (rv_disconnect z r') = rv_sockets r'" "rv_sockets (remove_endpoint z r' q) = rv_sockets r'"
      "q \<notin> set (rv_endpoints (remove_endpoint z r' q))" for q
    using n k(2) by (simp_all add: rv_disconnect_def remove_endpoint_def remove_stats_def)
  with p n k(2) pre show ?thesis
    by (intro conjI exI [of _ pre] exI [of _ ep] exI [of _ post] exI [of _ r1]) auto
qed

definition refusing_zmq :: "unit zmq" where
  "refusing_zmq = demo_zmq\<lparr>z_connect := \<lambda>s e. (s, if e = ''bad'' then Some (InvalidInput, ''Invalid argument'') else None)\<rparr>"

lemma refused_connect:
  "case demo_new of
     Ok r \<Rightarrow> (case rv_connect refusing_zmq demo_env (\<lambda>_. Ok ()) r of Some (Err e, r') \<Rightarrow> True | _ \<Rightarrow> False)
        \<and> (case connect_endpoint refusing_zmq demo_env r ''tcp'' of Some (Ok _, r') \<Rightarrow> True | _ \<Rightarrow> False)
   | _ \<Rightarrow> False"
  by code_simp

theorem failed_connect_keeps_sockets_witness:
  "\<exists>r r' e. demo_new = Ok r \<and> rv_connect refusing_zmq demo_env (\<lambda>_. Ok ()) r = Some (Err e, r')
     \<and> ''tcp'' \<in> polled (rv_sockets (remove_endpoint refusing_zmq r' ''tcp''))"
proof -
  obtain r where r: "demo_new = Ok r" by (simp add: demo_new_def receiver_new_def)
  have inv: "receiver_inv r" using r unfolding demo_new_def by (rule receiver_new_inv)
  have r': "individual (rv_sockets r)" "acts_locally r" "rv_endpoints r = [''tcp'', ''bad'']"
    using r by (auto simp: demo_new_def receiver_new_def acts_locally_def is_threaded_def)
  have d: "case rv_connect refusing_zmq demo_env (\<lambda>_. Ok ()) r of Some (Err e, r') \<Rightarrow> True | _ \<Rightarrow> False"
      "case connect_endpoint refusing_zmq demo_env r ''tcp'' of Some (Ok _, r') \<Rightarrow> True | _ \<Rightarrow> False"
    using refused_connect [unfolded r] by (simp_all only: res.case)
  from d(1) obtain e r1 where c: "rv_connect refusing_zmq demo_env (\<lambda>_. Ok ()) r = Some (Err e, r1)"
    by (auto split: option.splits prod.splits res.splits)
  obtain pre ep post r2 where p: "[''tcp'', ''bad''] = pre @ ep # post" "connect_all refusing_zmq demo_env r pre = Some (Ok (), r2)"
      "connect_endpoint refusing_zmq demo_env r2 ep = Some (Err e, r1)"
      "\<forall>p \<in> set pre. p \<in> polled (rv_sockets (remove_endpoint refusing_zmq r1 p))"
    using failed_connect_keeps_sockets [OF inv r'(1,2) c] r'(3) by auto
  have "pre \<noteq> []"
    using p(1-3) d(2) by auto
  with p(1) have "''tcp'' \<in> set pre" by (cases pre) auto
  with p(4) r c show ?thesis by blast
qed

text \<open>
  Forking: whatever checks, header cache, ids and sockets the outer receiver has, the
  receiver its listening thread makes has every check enabled, default socket options, an
  empty header cache and no remembered id; so enabling or disabling checks before or after
  \<open>fork\<close> has no effect on the messages the thread delivers.
\<close>

lemma fork_ignores_checks:
  "listen_task_receiver z i c (disable_check outer chk) = listen_task_receiver z i c outer
   \<and> listen_task_receiver z i c (enable_check outer chk) = listen_task_receiver z i c outer
   \<and> res_map rv_check_mask (listen_task_receiver z i c outer)
       = res_map (\<lambda>_. CHECK_ALL) (listen_task_receiver z i c outer)
   \<and> res_map rv_options (listen_task_receiver z i c outer)
       = res_map (\<lambda>_. socket_options_new) (listen_task_receiver z i c outer)"
proof -
  have f: "forked_receiver (disable_check outer chk) = forked_receiver outer"
    "forked_receiver (enable_check outer chk) = forked_receiver outer"
    "rv_socket_type (disable_check outer chk) = rv_socket_type outer"
    "rv_socket_type (enable_check outer chk) = rv_socket_type outer"
    "rv_connection_mode (disable_check outer chk) = rv_connection_mode outer"
    "rv_connection_mode (enable_check outer chk) = rv_connection_mode outer"
    by (simp_all add: forked_receiver_def disable_check_def enable_check_def fun_eq_iff)
  have "rv_check_mask r = CHECK_ALL \<and> rv_options r = socket_options_new"
    if "receiver_new z i c eps st cm = Ok r" for eps st cm r
    using that by (cases cm) (auto simp: receiver_new_def res_simps split: prod.splits)
  then have "rv_check_mask r = CHECK_ALL \<and> rv_options r = socket_options_new"
    if "listen_task_receiver z i c outer = Ok r" for r
    using that by (auto simp: listen_task_receiver_def forked_receiver_def res_simps)
  moreover have "listen_task_receiver z i c (disable_check outer chk) = listen_task_receiver z i c outer"
    "listen_task_receiver z i c (enable_check outer chk) = listen_task_receiver z i c outer"
    by (simp_all add: f listen_task_receiver_def)
  ultimately show ?thesis
    by (cases "listen_task_receiver z i c outer") simp_all
qed

definition lossy_kinds :: "error_kind list" where
  "lossy_kinds = [NotFound, AddrInUse, AddrNotAvailable, AlreadyExists, WouldBlock, InvalidInput,
     Interrupted, UnexpectedEof, NotSeekable]"

lemma split_at_nonempty: "split_at c s \<noteq> []"
  by (induction s) (auto split: list.splits)

lemma split_at_single: "(\<exists>a b ps. split_at c s = a # b # ps) = (c \<in> set s)"
proof (induction s)
  case (Cons x s)
  obtain p ps where "split_at c s = p # ps" using split_at_nonempty [of c s] by (cases "split_at c s") auto
  with Cons show ?case by (auto simp: neq_Nil_conv)
qed simp

lemma split_at_append: "c \<notin> set k \<Longrightarrow> split_at c (k @ c # t) = k # split_at c t"
  by (induction k) auto

lemma split_at_hd: "\<exists>ps. split_at c t = takeWhile (\<lambda>x. x \<noteq> c) t # ps"
proof (induction t)
  case (Cons x t)
  then obtain ps where "split_at c t = takeWhile (\<lambda>x. x \<noteq> c) t # ps" by blast
  then show ?case by simp
qed simp

lemma show_kind_bar: "CHR ''|'' \<notin> set (show_kind k)"
  by (cases k) simp_all

lemma lower_kind:
  "to_lowercase (filter (\<lambda>c. c \<noteq> CHR '' '') (show_kind k)) = filter (\<lambda>c. c \<noteq> CHR '' '') (show_kind k)"
  by (cases k) (simp_all add: to_lowercase_def ascii_lower_def)

lemma error_kind_show: "error_kind_from_str (show_kind k) = (if k \<in> set lossy_kinds then OtherError else k)"
  unfolding error_kind_from_str_def lower_kind Let_def by (cases k) (simp_all add: lossy_kinds_def)

text \<open>
  C39. Errors of the listening thread: \<open>join\<close> gives back the kind of an error only if its
  displayed text is one \<open>error_kind_from_str\<close> knows (for nine kinds it is not, and they come
  back as Other), and its message up to the first bar; it panics exactly on the errors
  without a bar, which are those of the thread's own set-up.
\<close>

theorem join_error_roundtrip:
  "join_error (task_error (k, t))
     = Ok (if k \<in> set lossy_kinds then OtherError else k, takeWhile (\<lambda>x. x \<noteq> CHR ''|'') t)
   \<and> (join_error s = Panic) = (CHR ''|'' \<notin> set s)"
proof -
  obtain ps where "split_at (CHR ''|'') t = takeWhile (\<lambda>x. x \<noteq> CHR ''|'') t # ps" using split_at_hd by blast
  then have "split_at (CHR ''|'') (task_error (k, t)) = show_kind k # takeWhile (\<lambda>x. x \<noteq> CHR ''|'') t # ps"
    by (simp add: task_error_def split_at_append [OF show_kind_bar, simplified])
  moreover have "(join_error s = Panic) = (CHR ''|'' \<notin> set s)"
    using split_at_single [of "CHR ''|''" s] by (auto simp: join_error_def split: list.split)
  ultimately show ?thesis by (simp add: join_error_def error_kind_show)
qed

end
