(* ===== verification/Bs_Supervision.thy ===== *)
theory Bs_Supervision
  imports Bs_Endpoints
begin

section \<open>Monitoring, options and life cycle of a receiver (src/src/receiver.rs)\<close>

text \<open>
  The operations of the receiver around its reception: switching the endpoint monitor on
  and off over its sockets, socket options, access to sockets, and the life cycle of the
  listening thread (interruption, joining, stopping, starting again, commands from the
  outer receiver).  An operation that sends commands to a monitor which is not the
  receiver's own returns them.
\<close>

subsection \<open>Sockets\<close>

definition rv_socket :: "'s receiver \<Rightarrow> string \<Rightarrow> 's tracked_socket option" where
  "rv_socket r ep =
     (case rv_sockets r of Shared ts \<Rightarrow> Some ts | Individual ss polls ready \<Rightarrow> map_of ss ep)"

definition ref_socket :: "'s receiver \<Rightarrow> 's tracked_socket option" where
  "ref_socket r =
     (case rv_sockets r of
        Shared ts \<Rightarrow> Some ts
      | Individual ss polls ready \<Rightarrow> (case ss of [] \<Rightarrow> None | p # ps \<Rightarrow> Some (snd p)))"

definition all_sockets :: "'s receiver \<Rightarrow> 's tracked_socket list" where
  "all_sockets r = (case rv_sockets r of Shared ts \<Rightarrow> [ts] | Individual ss polls ready \<Rightarrow> map snd ss)"

definition rv_transport :: "'s receiver \<Rightarrow> transport option res" where
  "rv_transport r = (case ref_socket r of None \<Rightarrow> Ok None | Some ts \<Rightarrow> tracked_transport ts)"

definition zmq_sockets :: "'s receiver \<Rightarrow> 's list" where
  "zmq_sockets r = map ts_socket (all_sockets r)"

text \<open>Writing the sockets back after an operation on each of them.\<close>

fun put_sockets :: "'s list \<Rightarrow> 's connection_sockets \<Rightarrow> 's connection_sockets" where
  "put_sockets xs (Shared ts) = Shared (case xs of [] \<Rightarrow> ts | x # _ \<Rightarrow> ts\<lparr>ts_socket := x\<rparr>)"
| "put_sockets xs (Individual ss polls ready) =
     Individual (map2 (\<lambda>(ep, ts) x. (ep, ts\<lparr>ts_socket := x\<rparr>)) ss xs) polls ready"

subsection \<open>Socket options\<close>

text \<open>Every setter stores the option and then applies all stored options to all sockets.\<close>

definition apply_options :: "'s zmq \<Rightarrow> 's receiver \<Rightarrow> unit res \<times> 's receiver" where
  "apply_options z r =
     (case set_options z (rv_options r) (zmq_sockets r) of
        (xs, e) \<Rightarrow>
          ((case e of None \<Rightarrow> Ok () | Some x \<Rightarrow> Err x), r\<lparr>rv_sockets := put_sockets xs (rv_sockets r)\<rparr>))"

definition rv_set_linger :: "'s zmq \<Rightarrow> 's receiver \<Rightarrow> i32 \<Rightarrow> unit res \<times> 's receiver" where
  "rv_set_linger z r v = apply_options z (r\<lparr>rv_options := (rv_options r)\<lparr>so_linger := Some v\<rparr>\<rparr>)"

definition rv_set_rcvhwm :: "'s zmq \<Rightarrow> 's receiver \<Rightarrow> i32 \<Rightarrow> unit res \<times> 's receiver" where
  "rv_set_rcvhwm z r v = apply_options z (r\<lparr>rv_options := (rv_options r)\<lparr>so_rcvhwm := Some v\<rparr>\<rparr>)"

definition rv_set_sndhwm :: "'s zmq \<Rightarrow> 's receiver \<Rightarrow> i32 \<Rightarrow> unit res \<times> 's receiver" where
  "rv_set_sndhwm z r v = apply_options z (r\<lparr>rv_options := (rv_options r)\<lparr>so_sndhwm := Some v\<rparr>\<rparr>)"

definition rv_set_keepalive :: "'s zmq \<Rightarrow> 's receiver \<Rightarrow> i32 \<Rightarrow> i32 \<Rightarrow> i32 \<Rightarrow> unit res \<times> 's receiver" where
  "rv_set_keepalive z r idle intvl cnt =
     apply_options z (r\<lparr>rv_options := (rv_options r)\<lparr>so_keepalive :=
       Some \<lparr>ka_idle = idle, ka_intvl = intvl, ka_cnt = cnt\<rparr>\<rparr>\<rparr>)"

definition rv_set_heartbeat :: "'s zmq \<Rightarrow> 's receiver \<Rightarrow> i32 \<Rightarrow> i32 \<Rightarrow> i32 \<Rightarrow> unit res \<times> 's receiver" where
  "rv_set_heartbeat z r ivl timeout ttl =
     apply_options z (r\<lparr>rv_options := (rv_options r)\<lparr>so_heartbeat :=
       Some \<lparr>hb_ivl = ivl, hb_timeout = timeout, hb_ttl = ttl\<rparr>\<rparr>\<rparr>)"

definition set_forwarder :: "'s receiver \<Rightarrow> 's sender \<Rightarrow> 's receiver" where
  "set_forwarder r s = r\<lparr>rv_forwarder := Some s\<rparr>"

definition set_forwarder_config :: "'s receiver \<Rightarrow> forwarder_config \<Rightarrow> 's receiver" where
  "set_forwarder_config r cfg = r\<lparr>rv_forwarder_config := Some cfg\<rparr>"

definition set_raw :: "'s receiver \<Rightarrow> bool \<Rightarrow> 's receiver" where
  "set_raw r raw = r\<lparr>rv_raw := raw\<rparr>"

subsection \<open>Monitoring\<close>

text \<open>The loops over the sockets; \<open>envs\<close> is the environment of each socket's registration.\<close>

fun enable_each ::
  "'s zmq \<Rightarrow> (string option \<Rightarrow> mon_env) \<Rightarrow> (string \<times> 's tracked_socket) list
   \<Rightarrow> unit res \<times> (string \<times> 's tracked_socket) list \<times> monitor_command list" where
  "enable_each z envs [] = (Ok (), [], [])"
| "enable_each z envs ((ep, ts) # ss) =
     (let env = envs (Some ep) in
      case enable_monitoring z (mn_uuid env) (mn_pair env) (mn_paired env) (Some ep) ts of
        (Ok _, ts', c) \<Rightarrow> (case enable_each z envs ss of (x, ss', cs) \<Rightarrow> (x, (ep, ts') # ss', c @ cs))
      | (x, ts', c) \<Rightarrow> (x, (ep, ts') # ss, c))"

fun disable_each ::
  "'s zmq \<Rightarrow> (string \<times> 's tracked_socket) list
   \<Rightarrow> unit res \<times> (string \<times> 's tracked_socket) list \<times> monitor_command list" where
  "disable_each z [] = (Ok (), [], [])"
| "disable_each z ((ep, ts) # ss) =
     (case disable_monitoring z ts of
        (Ok _, ts', c) \<Rightarrow> (case disable_each z ss of (x, ss', cs) \<Rightarrow> (x, (ep, ts') # ss', c @ cs))
      | (x, ts', c) \<Rightarrow> (x, (ep, ts') # ss, c))"

definition enable_shared_monitoring ::
  "'s zmq \<Rightarrow> (string option \<Rightarrow> mon_env) \<Rightarrow> 's receiver \<Rightarrow> unit res \<times> 's receiver \<times> monitor_command list" where
  "enable_shared_monitoring z envs r =
     (case rv_sockets r of
        Shared ts \<Rightarrow>
          (let env = envs None in
           case enable_monitoring z (mn_uuid env) (mn_pair env) (mn_paired env) None ts of
             (x, ts', c) \<Rightarrow> (x, r\<lparr>rv_sockets := Shared ts'\<rparr>, c))
      | Individual ss polls ready \<Rightarrow>
          (case enable_each z envs ss of
             (x, ss', cs) \<Rightarrow> (x, r\<lparr>rv_sockets := Individual ss' polls ready\<rparr>, cs)))"

definition disable_shared_monitoring ::
  "'s zmq \<Rightarrow> 's receiver \<Rightarrow> unit res \<times> 's receiver \<times> monitor_command list" where
  "disable_shared_monitoring z r =
     (case rv_sockets r of
        Shared ts \<Rightarrow> (case disable_monitoring z ts of (x, ts', c) \<Rightarrow> (x, r\<lparr>rv_sockets := Shared ts'\<rparr>, c))
      | Individual ss polls ready \<Rightarrow>
          (case disable_each z ss of
             (x, ss', cs) \<Rightarrow> (x, r\<lparr>rv_sockets := Individual ss' polls ready\<rparr>, cs)))"

text \<open>
  A monitor that could not be installed is dropped, and the commands it was sent with it;
  the sockets registered before the failure keep their flag.
\<close>

definition rv_enable_monitoring ::
  "'s zmq \<Rightarrow> (string option \<Rightarrow> mon_env) \<Rightarrow> 's receiver \<Rightarrow> unit res \<times> 's receiver" where
  "rv_enable_monitoring z envs r =
     (if rv_monitored r then (Ok (), r)
      else case enable_shared_monitoring z envs r of
        (Ok _, r', cs) \<Rightarrow> (Ok (), r'\<lparr>rv_monitored := True, rv_commands := cs\<rparr>)
      | (x, r', cs) \<Rightarrow> (x, r'))"

fun set_socket :: "string \<Rightarrow> 's tracked_socket \<Rightarrow> 's connection_sockets \<Rightarrow> 's connection_sockets" where
  "set_socket ep ts (Shared _) = Shared ts"
| "set_socket ep ts (Individual ss polls ready) = Individual (update_socket ep ts ss) polls ready"

definition enable_shared_monitoring_socket ::
  "'s zmq \<Rightarrow> mon_env \<Rightarrow> 's receiver \<Rightarrow> string \<Rightarrow> unit res \<times> 's receiver \<times> monitor_command list" where
  "enable_shared_monitoring_socket z env r ep =
     (case rv_socket r ep of
        None \<Rightarrow> (Ok (), r, [])
      | Some ts \<Rightarrow>
          (case enable_monitoring z (mn_uuid env) (mn_pair env) (mn_paired env) (Some ep) ts of
             (x, ts', c) \<Rightarrow> (x, r\<lparr>rv_sockets := set_socket ep ts' (rv_sockets r)\<rparr>, c)))"

definition disable_shared_monitoring_socket ::
  "'s zmq \<Rightarrow> 's receiver \<Rightarrow> string \<Rightarrow> unit res \<times> 's receiver \<times> monitor_command list" where
  "disable_shared_monitoring_socket z r ep =
     (case rv_socket r ep of
        None \<Rightarrow> (Ok (), r, [])
      | Some ts \<Rightarrow>
          (case disable_monitoring z ts of
             (x, ts', c) \<Rightarrow> (x, r\<lparr>rv_sockets := set_socket ep ts' (rv_sockets r)\<rparr>, c)))"

text \<open>\<open>states\<close> is the table of the receiver's monitor.\<close>

definition rv_endpoint_state :: "'s receiver \<Rightarrow> monitor_sys \<Rightarrow> string \<Rightarrow> endpoint_state option" where
  "rv_endpoint_state r m ep = (if rv_monitored r then ms_states m ep else None)"

text \<open>\<open>Drop\<close>: the forwarder is stopped, the sockets are dropped, the monitor is shut down.\<close>

definition rv_drop :: "'s zmq \<Rightarrow> string option \<Rightarrow> 's receiver \<Rightarrow> 's receiver" where
  "rv_drop z app r =
     (let r1 = stop_forwarder z app r;
          r2 = r1\<lparr>rv_sockets := sockets_clear (rv_sockets r1)\<rparr>
      in if rv_monitored r2 then r2\<lparr>rv_monitored := False, rv_commands := rv_commands r2 @ [MonShutdown]\<rparr> else r2)"

subsection \<open>The life cycle of the listening thread\<close>

text \<open>How the thread ended: in time, with the error text of \<open>listen_task\<close>, or by a panic.\<close>

datatype thread_result = Finished | Failed string | Crashed string

text \<open>
  The outer receiver with its interruption flag, the flag of the context it shares with
  others, and the outcome of its thread, if there is one.
\<close>

record 's supervised =
  sv_receiver :: "'s receiver"
  sv_interrupted :: bool
  sv_context_interrupted :: bool
  sv_handle :: "thread_result option"

definition sv_interrupt :: "'s supervised \<Rightarrow> 's supervised" where
  "sv_interrupt s = s\<lparr>sv_interrupted := True\<rparr>"

definition sv_is_interrupted :: "'s supervised \<Rightarrow> bool" where
  "sv_is_interrupted s \<longleftrightarrow> sv_interrupted s \<or> sv_context_interrupted s"

definition sv_join :: "'s supervised \<Rightarrow> unit res \<times> 's supervised" where
  "sv_join s =
     (let s1 = s\<lparr>sv_handle := None\<rparr> in
      case sv_handle s of
        None \<Rightarrow> (Ok (), s)
      | Some Finished \<Rightarrow> (Ok (), s1)
      | Some (Crashed payload) \<Rightarrow> (Err (OtherError, ''Thread error: '' @ payload), s1)
      | Some (Failed desc) \<Rightarrow>
          (case join_error desc of Ok e \<Rightarrow> (Err e, s1) | _ \<Rightarrow> (Panic, s1)))"

definition sv_stop :: "'s supervised \<Rightarrow> unit res \<times> 's supervised" where
  "sv_stop s =
     (case sv_join (sv_interrupt s) of
        (Ok _, s1) \<Rightarrow> (Ok (), s1\<lparr>sv_receiver := (sv_receiver s1)\<lparr>rv_fifo := None\<rparr>\<rparr>)
      | (Err e, s1) \<Rightarrow> (Err e, s1)
      | (Panic, s1) \<Rightarrow> (Panic, s1))"

text \<open>\<open>ending\<close> is how the thread that \<open>start\<close> forks will end.\<close>

definition sv_start :: "'s supervised \<Rightarrow> nat \<Rightarrow> thread_result \<Rightarrow> unit res \<times> 's supervised" where
  "sv_start s n ending =
     (case rv_start (sv_receiver s) n of
        (Ok _, r) \<Rightarrow> (Ok (), s\<lparr>sv_receiver := r, sv_handle := Some ending\<rparr>)
      | (x, r) \<Rightarrow> (x, s))"

text \<open>
  The fields behind shared pointers: what the thread does to them shows on the outer side.
\<close>

definition share_fields :: "'s receiver \<Rightarrow> 's receiver \<Rightarrow> 's receiver" where
  "share_fields inner outer = outer\<lparr>rv_endpoints := rv_endpoints inner, rv_stats := rv_stats inner\<rparr>"

text \<open>
  \<open>send_command\<close>: the command runs in the thread that listens (\<open>inner\<close>), if one does.
  Otherwise it stays in the queue, whose receiving end the outer receiver itself keeps open,
  and the wait for the response never ends (\<open>None\<close>).
\<close>

definition send_command ::
  "'s zmq \<Rightarrow> mon_env \<Rightarrow> receiver_command \<Rightarrow> 's receiver \<Rightarrow> 's receiver option
   \<Rightarrow> (unit res \<times> 's receiver \<times> 's receiver option) option" where
  "send_command z env c outer inner =
     (case inner of
        None \<Rightarrow> None
      | Some r \<Rightarrow>
          (case run_command z env r c of
             None \<Rightarrow> None
           | Some (x, r') \<Rightarrow> Some (x, share_fields r' outer, Some r')))"

text \<open>An operation of the interface, run here or sent to the thread.\<close>

definition sv_command ::
  "'s zmq \<Rightarrow> mon_env \<Rightarrow> receiver_command \<Rightarrow> 's receiver \<Rightarrow> 's receiver option
   \<Rightarrow> (unit res \<times> 's receiver \<times> 's receiver option) option" where
  "sv_command z env c outer inner =
     (if acts_locally outer
      then (case run_command z env outer c of None \<Rightarrow> None | Some (x, r') \<Rightarrow> Some (x, r', inner))
      else send_command z env c outer inner)"

subsection \<open>Lemmas on the life cycle\<close>

lemma sv_join_receiver [simp]: "sv_receiver (snd (sv_join s)) = sv_receiver s"
  by (simp add: sv_join_def Let_def split: option.split thread_result.split res.split)

lemma sv_join_flags [simp]:
  "sv_interrupted (snd (sv_join s)) = sv_interrupted s" "sv_context_interrupted (snd (sv_join s)) = sv_context_interrupted s"
  by (simp_all add: sv_join_def Let_def split: option.split thread_result.split res.split)

lemma sv_stop_Ok:
  assumes "sv_stop s = (Ok (), s1)"
  shows "sv_interrupted s1 \<and> sv_receiver s1 = (sv_receiver s)\<lparr>rv_fifo := None\<rparr>"
proof -
  obtain x s2 where j: "sv_join (sv_interrupt s) = (x, s2)" by (cases "sv_join (sv_interrupt s)")
  then have "sv_receiver s2 = sv_receiver s" "sv_interrupted s2"
    using sv_join_receiver [of "sv_interrupt s"] sv_join_flags(1) [of "sv_interrupt s"]
    by (simp_all add: sv_interrupt_def)
  with assms j show ?thesis by (cases x) (auto simp: sv_stop_def)
qed

lemma sv_stop_other:
  assumes "sv_stop s = (x, s1)" and "x \<noteq> Ok ()"
  shows "sv_receiver s1 = sv_receiver s"
proof -
  obtain y s2 where j: "sv_join (sv_interrupt s) = (y, s2)" by (cases "sv_join (sv_interrupt s)")
  then have "sv_receiver s2 = sv_receiver s"
    using sv_join_receiver [of "sv_interrupt s"] by (simp add: sv_interrupt_def)
  with assms j show ?thesis by (cases y) (auto simp: sv_stop_def)
qed

lemma listen_task_receiver_inv:
  assumes "listen_task_receiver z i c outer = Ok r"
  shows "receiver_inv r \<and> rv_fifo r = rv_fifo outer"
proof -
  from assms obtain new where "receiver_new z i c None (rv_socket_type outer) (rv_connection_mode outer) = Ok new"
      "r = forked_receiver outer new"
    by (auto simp: listen_task_receiver_def res_simps)
  with receiver_new_inv [OF this(1)] show ?thesis by (simp add: forked_receiver_def receiver_inv_def)
qed

text \<open>A loop whose first iteration meets the interruption ends with that iteration.\<close>

lemma interrupted_step:
  assumes "li_interrupted i" and "rv_fifo r = Some q" and "listen_step L z n r i = Some (out, o', r')"
  shows "out = [] \<and> o' \<noteq> Continue \<and> (\<exists>q'. rv_fifo r' = Some q' \<and> (q' = q \<or> (\<exists>m. q' = fifo_add q m)))"
proof -
  obtain res r1 where r: "receive L z (li_sim i) r = (res, r1)" by (cases "receive L z (li_sim i) r")
  have f: "rv_fifo r1 = Some q" using receive_frame(2) [OF r] assms(2) by simp
  show ?thesis
  proof (cases res)
    case (Ok m)
    with assms r f show ?thesis
      by (cases n) (auto simp: listen_step_def deliver_def split: if_splits)
  next
    case (Err e)
    with assms r f show ?thesis
      by (cases n) (auto simp: listen_step_def deliver_def split: if_splits)
  next
    case Panic
    with assms r f show ?thesis by (simp add: listen_step_def)
  qed
qed

lemma interrupted_loop:
  assumes "\<forall>i \<in> set is. li_interrupted i" and "rv_fifo r = Some q" and "listen_loop L z n r is = Some (out, o', r')"
  shows "out = [] \<and> (\<exists>q'. rv_fifo r' = Some q' \<and> (q' = q \<or> (\<exists>m. q' = fifo_add q m)))"
proof (cases "is")
  case Nil
  with assms show ?thesis by auto
next
  case (Cons i js)
  obtain out1 o1 r1 where s: "listen_step L z n r i = Some (out1, o1, r1)"
    using assms(3) Cons by (cases "listen_step L z n r i") auto
  have i: "li_interrupted i" using assms(1) Cons by simp
  note st = interrupted_step [OF i assms(2) s]
  with assms(3) Cons s show ?thesis by (cases o1) auto
qed

subsection \<open>Properties\<close>

text \<open>
  C24. Liveness after \<open>stop\<close>: nothing clears the interruption flag, so a receiver that was
  stopped and started again gets, however long its new thread is given and whatever arrives,
  at most one message.
\<close>

theorem restart_after_stop:
  assumes "sv_stop s = (Ok (), s1)" and "sv_start s1 n ending = (Ok (), s2)"
    and "listen_task_receiver z i c (handed_over (sv_receiver s1) (sv_receiver s2)) = Ok r"
    and "\<forall>x \<in> set inputs. li_interrupted x = sv_is_interrupted s2"
    and "listen L z app None r env inputs = Some (res, out, r')"
  shows "out = [] \<and> (\<exists>q. rv_fifo r' = Some q \<and> fifo_available_count q \<le> 1)"
proof -
  have s1: "sv_interrupted s1" using sv_stop_Ok [OF assms(1)] by simp
  obtain rr where rr: "rv_start (sv_receiver s1) n = (Ok (), rr)" and s2: "s2 = s1\<lparr>sv_receiver := rr, sv_handle := Some ending\<rparr>"
    using assms(2) by (auto simp: sv_start_def split: prod.splits res.splits)
  have "rv_fifo rr = Some (fifo_new n)"
    using rr by (auto simp: rv_start_def reset_counters_def split: if_splits)
  then have fifo: "rv_fifo r = Some (fifo_new n)" and inv: "receiver_inv r"
    using listen_task_receiver_inv [OF assms(3)] s2 by simp_all
  have intr: "\<forall>x \<in> set inputs. li_interrupted x" using assms(4) s1 s2 by (simp add: sv_is_interrupted_def)
  obtain x r1 where b: "listen_begin z app env r = Some (x, r1)" "rv_fifo r1 = Some (fifo_new n)"
    using listen_begin_keeps [OF inv, of z app env] fifo by auto
  have small: "fifo_available_count (fifo_new n :: received_message fifo) \<le> 1"
    "fifo_available_count (fifo_add (fifo_new n) m) \<le> 1" for m :: received_message
    by (simp_all add: fifo_available_count_def fifo_new_def fifo_add_def)
  have sf: "rv_fifo (stop_forwarder z app r2) = rv_fifo r2" for r2 by (simp add: stop_forwarder_def)
  show ?thesis
  proof (cases x)
    case (Ok u)
    obtain out1 o1 r2 where l: "listen_loop L z None r1 inputs = Some (out1, o1, r2)"
      using assms(5) b Ok by (cases "listen_loop L z None r1 inputs") (auto simp: listen_def)
    from interrupted_loop [OF intr b(2) l] small
    have "out1 = []" "\<exists>q. rv_fifo r2 = Some q \<and> fifo_available_count q \<le> 1" by auto
    then show ?thesis using assms(5) b Ok l sf by (cases o1) (auto simp: listen_def)
  qed (use assms(5) b small in \<open>auto simp: listen_def\<close>)
qed

text \<open>A receiver whose thread has failed is not reset by \<open>stop\<close>, and refuses to start.\<close>

lemma failed_stop_blocks_start:
  assumes "sv_stop s = (Err e, s1)" and "rv_fifo (sv_receiver s) \<noteq> None"
  shows "sv_start s1 n ending = (Err (AlreadyExists, ''Receiver already started''), s1)"
  using sv_stop_other [OF assms(1)] assms(2) by (simp add: sv_start_def rv_start_def)

definition demo_sv :: "thread_result \<Rightarrow> unit supervised" where
  "demo_sv ending = \<lparr>sv_receiver = demo_receiver\<lparr>rv_fifo := Some (fifo_new 5)\<rparr>, sv_interrupted = False,
     sv_context_interrupted = False, sv_handle = Some ending\<rparr>"

theorem restart_after_stop_witness:
  "\<exists>s1 s2 r res out r'. sv_stop (demo_sv Finished) = (Ok (), s1) \<and> sv_start s1 5 Finished = (Ok (), s2)
     \<and> listen_task_receiver demo_zmq 2 0 (handed_over (sv_receiver s1) (sv_receiver s2)) = Ok r
     \<and> listen demo_ext demo_zmq None None r demo_env
         (replicate 9 \<lparr>li_sim = Err (InvalidData, []), li_interrupted = True, li_commands = [], li_env = demo_env\<rparr>)
         = Some (res, out, r')
     \<and> (\<exists>q. rv_fifo r' = Some q \<and> fifo_available_count q \<le> 1)"
proof -
  let ?in = "replicate 9 \<lparr>li_sim = Err (InvalidData, []), li_interrupted = True, li_commands = [], li_env = demo_env\<rparr>"
  obtain s1 where s1: "sv_stop (demo_sv Finished) = (Ok (), s1)"
    by (simp add: sv_stop_def sv_join_def sv_interrupt_def demo_sv_def)
  obtain s2 where s2: "sv_start s1 5 Finished = (Ok (), s2)"
    using sv_stop_Ok [OF s1] by (simp add: sv_start_def rv_start_def)
  have c: "rv_connection_mode (sv_receiver s2) = IndividualMode"
    using s2 sv_stop_Ok [OF s1]
    by (auto simp: sv_start_def rv_start_def reset_counters_def demo_sv_def demo_receiver_def)
  obtain r where r: "listen_task_receiver demo_zmq 2 0 (handed_over (sv_receiver s1) (sv_receiver s2)) = Ok r"
    by (simp add: listen_task_receiver_def receiver_new_def c)
  have "receiver_inv r" using listen_task_receiver_inv [OF r] by simp
  then obtain res out r' where l: "listen demo_ext demo_zmq None None r demo_env ?in = Some (res, out, r')"
    using listen_counts [of r demo_ext demo_zmq None None demo_env ?in] by blast
  have i: "sv_is_interrupted s2"
    using s2 sv_stop_Ok [OF s1] by (auto simp: sv_start_def sv_is_interrupted_def split: prod.splits res.splits)
  from restart_after_stop [OF s1 s2 r _ l] i s1 s2 r l show ?thesis by auto
qed

text \<open>
  Commands after the thread has ended: \<open>stop\<close> leaves the receiver in its threaded
  delivery mode, so every later operation of the interface is still sent to the thread and
  waits for a response that never comes.
\<close>

lemma stopped_commands_wait:
  assumes "sv_start s n ending = (Ok (), s1)" and "\<not> rv_forked (sv_receiver s)"
  shows "sv_command z env c (sv_receiver (snd (sv_stop s1))) None = None"
proof -
  have m: "rv_delivery_mode (sv_receiver s1) = Buffered \<and> \<not> rv_forked (sv_receiver s1)"
    using assms by (auto simp: sv_start_def rv_start_def reset_counters_def split: if_splits)
  obtain x s2 where st: "sv_stop s1 = (x, s2)" by (cases "sv_stop s1")
  have "sv_receiver s2 = sv_receiver s1 \<or> sv_receiver s2 = (sv_receiver s1)\<lparr>rv_fifo := None\<rparr>"
    using sv_stop_Ok [of s1 s2] sv_stop_other [OF st] st by (cases "x = Ok ()") auto
  with m st have "\<not> acts_locally (sv_receiver (snd (sv_stop s1)))"
    by (auto simp: acts_locally_def is_threaded_def)
  then show ?thesis by (simp add: sv_command_def send_command_def)
qed

lemma stopped_commands_wait_instance:
  "\<exists>s1. sv_start (demo_sv Finished\<lparr>sv_receiver := demo_receiver\<rparr>) 5 Finished = (Ok (), s1)
     \<and> sv_command demo_zmq demo_env (CmdAddEndpoint ''x'') (sv_receiver (snd (sv_stop s1))) None = None"
proof -
  have "rv_fifo demo_receiver = None" by (simp add: demo_receiver_def)
  then obtain s1 where s1: "sv_start (demo_sv Finished\<lparr>sv_receiver := demo_receiver\<rparr>) 5 Finished = (Ok (), s1)"
    by (simp add: sv_start_def rv_start_def)
  have "\<not> rv_forked (sv_receiver (demo_sv Finished\<lparr>sv_receiver := demo_receiver\<rparr>))" by (simp add: demo_receiver_def)
  from stopped_commands_wait [OF s1 this] s1 show ?thesis by blast
qed

end
