(* ===== verification/Bs_Buffered.thy ===== *)
theory Bs_Buffered
  imports Bs_Supervision
begin

section \<open>Buffered delivery from end to end (src/src/receiver.rs, src/src/utils.rs)\<close>

text \<open>
  The composition behind \<open>start\<close>, \<open>get\<close> and \<open>wait\<close>: the listening thread receives, checks
  and queues messages, runs commands in between, and consumers take messages from the queue
  they share with it, at any time.  A consumer's step is atomic (the queue's lock); one that
  falls between a reception and its \<open>add\<close> acts as one before the iteration, because a reception does
  not touch the queue.
\<close>

subsection \<open>The system\<close>

text \<open>
  The thread's receiver, with the shared queue, whether its loop goes on, and two histories:
  the messages it received and those the consumers got.
\<close>

record 's buffered =
  bu_thread :: "'s receiver"
  bu_running :: bool
  bu_received :: "received_message list"
  bu_got :: "received_message list"

definition received_by :: "ext \<Rightarrow> 's zmq \<Rightarrow> 's receiver \<Rightarrow> listen_input \<Rightarrow> received_message list" where
  "received_by L z r i = (case fst (receive L z (li_sim i) r) of Ok rm \<Rightarrow> [rm] | _ \<Rightarrow> [])"

inductive buffered_run :: "ext \<Rightarrow> 's zmq \<Rightarrow> nat \<Rightarrow> 's buffered \<Rightarrow> bool" for L z n where
  start: "rv_start outer n = (Ok (), outer') \<Longrightarrow> listen_task_receiver z index counter (handed_over outer outer') = Ok r
    \<Longrightarrow> listen_begin z app env r = Some (Ok (), r')
    \<Longrightarrow> buffered_run L z n \<lparr>bu_thread = r', bu_running = True, bu_received = [], bu_got = []\<rparr>"
| turn: "buffered_run L z n s \<Longrightarrow> bu_running s \<Longrightarrow> listen_step L z None (bu_thread s) i = Some (out, res, r')
    \<Longrightarrow> buffered_run L z n (s\<lparr>bu_thread := r', bu_running := (res = Continue),
          bu_received := bu_received s @ received_by L z (bu_thread s) i\<rparr>)"
| get: "buffered_run L z n s \<Longrightarrow> rv_get (bu_thread s) = (m, r')
    \<Longrightarrow> buffered_run L z n (s\<lparr>bu_thread := r', bu_got := bu_got s @ (case m of Some x \<Rightarrow> [x] | None \<Rightarrow> [])\<rparr>)"
| wait: "buffered_run L z n s \<Longrightarrow> rv_wait (bu_thread s) id timed_out = (m, r')
    \<Longrightarrow> buffered_run L z n (s\<lparr>bu_thread := r', bu_got := bu_got s @ (case m of Ok x \<Rightarrow> [x] | _ \<Rightarrow> [])\<rparr>)"

subsection \<open>The invariant\<close>

definition logged :: "received_message \<Rightarrow> string option \<times> u64" where
  "logged rm = (rm_endpoint rm, m_id (rm_message rm))"

definition buffered_inv :: "nat \<Rightarrow> 's buffered \<Rightarrow> bool" where
  "buffered_inv n s \<longleftrightarrow> receiver_inv (bu_thread s) \<and> ids_inv CHECK_ALL (bu_thread s) (map logged (bu_received s))
     \<and> (\<exists>fs. fifo_inv n fs \<and> rv_fifo (bu_thread s) = Some (sys_queue fs)
          \<and> sys_added fs = bu_received s \<and> sys_delivered fs = bu_got s)"

lemma run_command_fields:
  "run_command z env r c = Some (x, r') \<Longrightarrow> rv_id_buffer r' = rv_id_buffer r \<and> rv_check_mask r' = rv_check_mask r"
  by (cases c) (auto simp: run_command_def dest: rv_connect_fields add_endpoint_fields)

lemma run_commands_fields:
  "run_commands z env r cs = Some (x, r') \<Longrightarrow> rv_id_buffer r' = rv_id_buffer r \<and> rv_check_mask r' = rv_check_mask r"
proof (induction cs arbitrary: r)
  case (Cons c cs)
  obtain y r1 where "run_command z env r c = Some (y, r1)"
    using Cons.prems by (cases "run_command z env r c") auto
  with Cons run_command_fields [OF this] show ?case by (cases y) auto
qed simp

lemma fifo_added:
  assumes "fifo_inv n fs"
  shows "\<exists>fs'. fifo_inv n fs' \<and> sys_queue fs' = fifo_add (sys_queue fs) m \<and> sys_added fs' = sys_added fs @ [m]
    \<and> sys_delivered fs' = sys_delivered fs"
  using fifo_inv_add [OF assms, of m] by (intro exI conjI, assumption) (simp_all add: sys_delivered_def)

lemma fifo_taken:
  assumes "fifo_inv n fs" and "fifo_get (sys_queue fs) = (x, q)"
  shows "\<exists>fs'. fifo_inv n fs' \<and> sys_queue fs' = q \<and> sys_added fs' = sys_added fs
    \<and> sys_delivered fs' = sys_delivered fs @ (case x of Some m \<Rightarrow> [m] | None \<Rightarrow> [])"
  using fifo_inv_get [OF assms] by (intro exI conjI, assumption) (simp_all add: sys_delivered_def split: option.split)

lemma listen_begin_fields:
  "listen_begin z app env r = Some (x, r') \<Longrightarrow> rv_id_buffer r' = rv_id_buffer r \<and> rv_check_mask r' = rv_check_mask r"
  by (auto simp: listen_begin_def reset_counters_def start_forwarder_def Let_def
      split: if_splits option.splits res.splits prod.splits dest!: rv_connect_fields)

lemma new_thread_fields:
  "listen_task_receiver z i c outer = Ok r \<Longrightarrow> rv_id_buffer r = Map.empty \<and> rv_check_mask r = CHECK_ALL"
  by (auto simp: listen_task_receiver_def receiver_new_def forked_receiver_def res_simps split: prod.splits connection_mode.splits)

lemma subseq_sorted: "subseq xs ys \<Longrightarrow> sorted_wrt P ys \<Longrightarrow> sorted_wrt P xs"
  by (induction rule: list_emb.induct) (auto dest: list_emb_set)

text \<open>An iteration of the thread: what was received is queued, and the rest leaves queue and ids alone.\<close>

lemma turn_spec:
  assumes "receiver_inv r" and "rv_fifo r = Some q" and "listen_step L z None r i = Some (out, res, r')"
  shows "\<exists>r1 x. receive L z (li_sim i) r = (x, r1) \<and> out = [] \<and> receiver_inv r'
    \<and> rv_fifo r' = Some (case x of Ok m \<Rightarrow> fifo_add q m | _ \<Rightarrow> q)
    \<and> rv_id_buffer r' = rv_id_buffer r1 \<and> rv_check_mask r' = rv_check_mask r1"
proof -
  obtain x r1 where r: "receive L z (li_sim i) r = (x, r1)" by (cases "receive L z (li_sim i) r")
  have f: "rv_fifo r1 = Some q" "receiver_inv r1" using receive_frame(1,2) [OF r] assms(1,2) by simp_all
  let ?q = "case x of Ok m \<Rightarrow> fifo_add q m | _ \<Rightarrow> q"
  show ?thesis
  proof (cases "x = Panic")
    case True
    with r f assms(3) show ?thesis by (simp add: listen_step_def)
  next
    case False
    let ?r2 = "r1\<lparr>rv_fifo := Some ?q\<rparr>"
    have d: "deliver r1 x = ([], ?r2)" using f(1) False by (cases x) (simp_all add: deliver_def)
    have inv2: "receiver_inv ?r2" using f(2) by (simp add: receiver_inv_def)
    obtain y r3 where k: "run_commands z (li_env i) ?r2 (li_commands i) = Some (y, r3)" "receiver_inv r3" "same_books ?r2 r3"
      using run_commands_keeps [OF inv2, of z "li_env i" "li_commands i"] unfolding keeps_def by blast
    have "out = [] \<and> (r' = ?r2 \<or> r' = r3)"
      using assms(3) r d k(1) False by (cases x; cases y) (auto simp: listen_step_def split: if_splits)
    with run_commands_fields [OF k(1)] k(2,3) inv2 r show ?thesis by (auto simp: same_books_def)
  qed
qed

lemma buffered_turn:
  assumes "buffered_inv n s" and "listen_step L z None (bu_thread s) i = Some (out, res, r')"
  shows "buffered_inv n (s\<lparr>bu_thread := r', bu_running := b, bu_received := bu_received s @ received_by L z (bu_thread s) i\<rparr>)"
proof -
  from assms(1) obtain fs where fs: "fifo_inv n fs" "rv_fifo (bu_thread s) = Some (sys_queue fs)"
      "sys_added fs = bu_received s" "sys_delivered fs = bu_got s"
      and inv: "receiver_inv (bu_thread s)" "ids_inv CHECK_ALL (bu_thread s) (map logged (bu_received s))"
    by (auto simp: buffered_inv_def)
  from turn_spec [OF inv(1) fs(2) assms(2)] obtain r1 x where t: "receive L z (li_sim i) (bu_thread s) = (x, r1)"
      "receiver_inv r'" "rv_fifo r' = Some (case x of Ok m \<Rightarrow> fifo_add (sys_queue fs) m | _ \<Rightarrow> sys_queue fs)"
      "rv_id_buffer r' = rv_id_buffer r1" "rv_check_mask r' = rv_check_mask r1"
    by blast
  show ?thesis
  proof (cases x)
    case (Ok m)
    have "ids_inv CHECK_ALL r1 (map logged (bu_received s) @ [logged m])"
      using ids_inv_message [OF inv(2) t(1) [unfolded Ok]] by (simp add: logged_def)
    then have "ids_inv CHECK_ALL r' (map logged (bu_received s) @ [logged m])" by (rule ids_inv_same [OF _ t(4,5)])
    moreover obtain fs' where "fifo_inv n fs'" "sys_queue fs' = fifo_add (sys_queue fs) m"
        "sys_added fs' = sys_added fs @ [m]" "sys_delivered fs' = sys_delivered fs"
      using fifo_added [OF fs(1)] by blast
    ultimately show ?thesis using t(1-3) fs(3,4) Ok by (auto simp: buffered_inv_def received_by_def)
  next
    case (Err e)
    have "ids_inv CHECK_ALL r' (map logged (bu_received s))"
      using receive_ids [OF t(1)] Err t(4,5) by (intro ids_inv_same [OF inv(2)]) simp_all
    with t fs Err show ?thesis by (auto simp: buffered_inv_def received_by_def)
  next
    case Panic
    have "ids_inv CHECK_ALL r' (map logged (bu_received s))"
      using receive_ids [OF t(1)] Panic t(4,5) by (intro ids_inv_same [OF inv(2)]) simp_all
    with t fs Panic show ?thesis by (auto simp: buffered_inv_def received_by_def)
  qed
qed

lemma buffered_taken:
  assumes "buffered_inv n s" and "rv_fifo (bu_thread s) = Some q0" and "fifo_get q0 = (x, q)"
  shows "buffered_inv n (s\<lparr>bu_thread := (bu_thread s)\<lparr>rv_fifo := Some q\<rparr>, bu_got := bu_got s @ (case x of Some m \<Rightarrow> [m] | None \<Rightarrow> [])\<rparr>)"
proof -
  from assms(1,2) obtain fs where fs: "fifo_inv n fs" "q0 = sys_queue fs" "sys_added fs = bu_received s" "sys_delivered fs = bu_got s"
    by (auto simp: buffered_inv_def)
  from fifo_taken [OF fs(1) assms(3) [unfolded fs(2)]] assms(1) fs(3,4) show ?thesis
    by (auto simp: buffered_inv_def receiver_inv_def ids_inv_def)
qed

lemma buffered_run_inv: "buffered_run L z n s \<Longrightarrow> buffered_inv n s"
proof (induction rule: buffered_run.induct)
  case (start outer outer' index counter r app env r')
  have f: "rv_fifo outer' = Some (fifo_new n)"
    using start(1) by (auto simp: rv_start_def reset_counters_def split: if_splits)
  have r: "receiver_inv r" "rv_fifo r = Some (fifo_new n)" using listen_task_receiver_inv [OF start(2)] f by simp_all
  have b: "receiver_inv r'" "rv_fifo r' = rv_fifo r" using listen_begin_keeps [OF r(1), of z app env] start(3) by auto
  moreover have "rv_id_buffer r' = Map.empty" "rv_check_mask r' = CHECK_ALL"
    using listen_begin_fields [OF start(3)] new_thread_fields [OF start(2)] by simp_all
  moreover have "fifo_inv n (fifo_sys_init n)" by (rule fifo_reachable_inv [OF fifo_reachable.init])
  ultimately show ?case using r by (auto simp: buffered_inv_def ids_inv_def ids_of_def fifo_sys_init_def sys_delivered_def intro: exI [of _ "fifo_sys_init n"])
next
  case (turn s i out res r')
  from turn(4) turn(3) show ?case by (rule buffered_turn)
next
  case (get s m r')
  then obtain q where q: "rv_fifo (bu_thread s) = Some q" by (auto simp: buffered_inv_def)
  obtain x q' where g: "fifo_get q = (x, q')" by (cases "fifo_get q")
  from buffered_taken [OF get(3) q g] get(2) show ?case by (auto simp: rv_get_def q g)
next
  case (wait s timed_out m r')
  then obtain q where q: "rv_fifo (bu_thread s) = Some q" by (auto simp: buffered_inv_def)
  obtain x q' where g: "fifo_get q = (x, q')" by (cases "fifo_get q")
  from buffered_taken [OF wait(3) q g] wait(2) show ?case
    by (cases x) (auto simp: rv_wait_def q fifo_wait_id g)
qed

text \<open>
  C13. Buffered delivery end to end, over every interleaving of the listening thread's
  iterations (any zmq, clock, commands and interruption) with \<open>get\<close>s and \<open>wait\<close>s: what consumers got,
  followed by what is queued, is a subsequence of what was received, and nothing is lost
  uncounted; so the ids a consumer gets from one endpoint are positive and strictly
  increase, although messages are dropped on overflow.
\<close>

theorem buffered_in_order:
  assumes "buffered_run L z n s"
  shows "\<exists>q. rv_fifo (bu_thread s) = Some q \<and> subseq (bu_got s @ fq_queue q) (bu_received s)
    \<and> length (fq_queue q) \<le> max n 1
    \<and> (0 < n \<longrightarrow> unat (fifo_dropped_count q) = (length (bu_received s) - length (bu_got s) - length (fq_queue q)) mod 2 ^ 32)
    \<and> (\<forall>ep. sorted_wrt (<) (ids_of ep (map logged (bu_got s @ fq_queue q))))
    \<and> (\<forall>rm \<in> set (bu_got s). 0 < m_id (rm_message rm))"
proof -
  from buffered_run_inv [OF assms] obtain fs where fs: "fifo_inv n fs" "rv_fifo (bu_thread s) = Some (sys_queue fs)"
      "sys_added fs = bu_received s" "sys_delivered fs = bu_got s"
      and ids: "ids_inv CHECK_ALL (bu_thread s) (map logged (bu_received s))"
    by (auto simp: buffered_inv_def)
  note safe = fifo_inv_safe [OF fs(1), unfolded fs(3,4)]
  have chk: "and CHECK_ALL CHECK_ID_POSITIVE \<noteq> 0" "and CHECK_ALL CHECK_ID_MONOTONIC \<noteq> 0"
    by (simp_all add: CHECK_ALL_def CHECK_ID_POSITIVE_def CHECK_ID_MONOTONIC_def)
  have "subseq (ids_of ep (map logged (bu_got s @ fq_queue (sys_queue fs)))) (ids_of ep (map logged (bu_received s)))" for ep
    unfolding ids_of_def using safe by (intro subseq_map subseq_filter) blast
  then have "sorted_wrt (<) (ids_of ep (map logged (bu_got s @ fq_queue (sys_queue fs))))" for ep
    using ids chk(2) by (auto simp: ids_inv_def intro: subseq_sorted)
  moreover have "0 < m_id (rm_message rm)" if "rm \<in> set (bu_got s)" for rm
  proof -
    have "rm \<in> set (bu_received s)" using safe that by (auto dest: list_emb_set [where P = "(=)"])
    with ids chk(1) show ?thesis by (auto simp: ids_inv_def logged_def)
  qed
  ultimately show ?thesis using fs(2) safe by (auto simp: fifo_dropped_count_def)
qed

text \<open>The one message of \<open>demo_zmq\<close>, received by any receiver fresh for its endpoint.\<close>

lemma demo_received:
  assumes "rv_sockets r = Individual [(''tcp'', ts)] [''tcp''] []" and "rv_endpoints r = [''tcp'']"
    and "rv_header_buffer r = lhm_new 1" and "\<not> rv_raw r" and "rv_check_mask r = CHECK_ALL"
    and "rv_id_buffer r = Map.empty"
  shows "\<exists>rm r'. receive demo_ext demo_zmq (Err (InvalidData, [])) r = (Ok rm, r')
    \<and> rm_endpoint rm = Some ''tcp'' \<and> m_id (rm_message rm) = 7"
proof -
  obtain m c' where m: "parse_message demo_ext [[1], [2]] (Some ''tcp'') (lhm_new 1) False = (Ok m, c')" "m_id m = 7"
    using demo_parse by blast
  obtain ts' where t: "tracked_receive demo_zmq ts = (Ok [[1], [2]], ts')"
    by (simp add: tracked_receive_def demo_zmq_def)
  have z: "z_poll demo_zmq ss = Inr (map (\<lambda>_. True) ss)" for ss by (simp add: demo_zmq_def)
  let ?r1 = "r\<lparr>rv_sockets := Individual [(''tcp'', ts')] [''tcp''] []\<rparr>"
  have raw: "raw_receive demo_zmq r = ((Some ''tcp'', Ok [[1], [2]]), ?r1)"
    using assms(1) t z by (simp add: raw_receive_def receive_ready_def readable_def)
  obtain res r3 where c: "check_message (Err (InvalidData, []))
      ((forward_message demo_zmq ?r1 [[1], [2]])\<lparr>rv_header_buffer := c'\<rparr>) m (Some ''tcp'') = (res, r3)"
    by fastforce
  have "res = Ok m"
    using check_message_cases [OF c] m(2) assms(5,6) by (simp add: id_limits_def forward_message_def)
  with m(1) c assms(3,4) have "process_message demo_ext demo_zmq (Err (InvalidData, [])) ?r1 (Some ''tcp'') [[1], [2]] = (Ok m, r3)"
    by (simp add: process_message_def forward_message_def)
  with raw m(2) assms(2) show ?thesis by (simp add: receive_def connections_def)
qed

definition demo_turn :: listen_input where
  "demo_turn = \<lparr>li_sim = Err (InvalidData, []), li_interrupted = False, li_commands = [], li_env = demo_env\<rparr>"

lemma demo_listening:
  "\<exists>s. buffered_run demo_ext demo_zmq 2 s \<and> bu_running s \<and> bu_received s = [] \<and> bu_got s = []
     \<and> (\<exists>ts. rv_sockets (bu_thread s) = Individual [(''tcp'', ts)] [''tcp''] [])
     \<and> rv_endpoints (bu_thread s) = [''tcp''] \<and> rv_header_buffer (bu_thread s) = lhm_new 1
     \<and> \<not> rv_raw (bu_thread s) \<and> rv_check_mask (bu_thread s) = CHECK_ALL
     \<and> rv_id_buffer (bu_thread s) = Map.empty \<and> rv_fifo (bu_thread s) = Some (fifo_new 2)"
proof -
  obtain o' where o': "rv_start demo_receiver 2 = (Ok (), o')" by (simp add: rv_start_def demo_receiver_def)
  obtain r where r: "listen_task_receiver demo_zmq 1 1 (handed_over demo_receiver o') = Ok r"
    using o' by (auto simp: rv_start_def demo_receiver_def reset_counters_def listen_task_receiver_def receiver_new_def)
  have f: "rv_sockets r = Individual [] [] []" "rv_endpoints r = [''tcp'']" "\<not> rv_connected r" "rv_forked r"
      "rv_header_buffer r = lhm_void" "\<not> rv_raw r" "\<not> rv_monitored r" "rv_fifo r = Some (fifo_new 2)"
      "rv_forwarder_config r = None" "rv_options r = socket_options_new"
    using o' r by (auto simp: rv_start_def demo_receiver_def reset_counters_def listen_task_receiver_def
        receiver_new_def forked_receiver_def handed_over_def)
  let ?r1 = "reset_counters r"
  have g: "rv_sockets ?r1 = Individual [] [] []" "rv_endpoints ?r1 = [''tcp'']" "\<not> rv_connected ?r1" "rv_forked ?r1"
      "rv_header_buffer ?r1 = lhm_void" "\<not> rv_raw ?r1" "\<not> rv_monitored ?r1" "rv_fifo ?r1 = Some (fifo_new 2)"
      "rv_options ?r1 = socket_options_new" "start_forwarder demo_zmq None ?r1 = ?r1"
    using f by (simp_all add: reset_counters_def start_forwarder_def)
  obtain ts0 c0 where t0: "tracked_new (rv_counter ?r1) (z_new demo_zmq (rv_socket_type ?r1)) (rv_index ?r1) = (Ok ts0, c0)"
      "ts_endpoints ts0 = []" "ts_topics ts0 = []"
    by (simp add: tracked_new_def demo_zmq_def)
  then obtain ts1 where t1: "tracked_connect demo_zmq ts0 ''tcp'' = (Ok (), ts1)"
    by (simp add: tracked_connect_def has_endpoint_def demo_zmq_def tracked_subscribe_def)
  have o1: "socket_options_set demo_zmq socket_options_new x = (x, None)" for x
    by (simp add: socket_options_set_def socket_options_new_def if_some_def)
  obtain ts c where e: "open_endpoint demo_zmq demo_env ?r1 ''tcp'' = (Ok ts, ?r1\<lparr>rv_counter := c\<rparr>)"
    using t0(1) t1 o1 g(7,9) by (simp add: open_endpoint_def)
  have "\<exists>r'. listen_begin demo_zmq None demo_env r = Some (Ok (), r') \<and> rv_sockets r' = Individual [(''tcp'', ts)] [''tcp''] []
      \<and> rv_endpoints r' = [''tcp''] \<and> rv_header_buffer r' = lhm_new 1 \<and> \<not> rv_raw r' \<and> rv_fifo r' = Some (fifo_new 2)"
    using f(4) g e by (simp add: listen_begin_def rv_connect_def acts_locally_def connect_endpoint_def connect_socket_def
        set_header_buffer_size_def connections_def lhm_is_void_def lhm_void_def)
  then obtain r' where b: "listen_begin demo_zmq None demo_env r = Some (Ok (), r')"
      "rv_sockets r' = Individual [(''tcp'', ts)] [''tcp''] []" "rv_endpoints r' = [''tcp'']"
      "rv_header_buffer r' = lhm_new 1" "\<not> rv_raw r'" "rv_fifo r' = Some (fifo_new 2)"
    by blast
  from listen_begin_fields [OF b(1)] new_thread_fields [OF r] b buffered_run.start [OF o' r b(1)]
  show ?thesis by fastforce
qed

theorem buffered_in_order_witness:
  "\<exists>s q. buffered_run demo_ext demo_zmq 2 s \<and> map logged (bu_got s) = [(Some ''tcp'', 7)]
     \<and> rv_fifo (bu_thread s) = Some q \<and> subseq (bu_got s @ fq_queue q) (bu_received s)"
proof -
  obtain s where s: "buffered_run demo_ext demo_zmq 2 s" "bu_running s" "bu_received s = []" "bu_got s = []"
      "\<exists>ts. rv_sockets (bu_thread s) = Individual [(''tcp'', ts)] [''tcp''] []"
      "rv_endpoints (bu_thread s) = [''tcp'']" "rv_header_buffer (bu_thread s) = lhm_new 1"
      "\<not> rv_raw (bu_thread s)" "rv_check_mask (bu_thread s) = CHECK_ALL"
      "rv_id_buffer (bu_thread s) = Map.empty" "rv_fifo (bu_thread s) = Some (fifo_new 2)"
    using demo_listening by blast
  obtain rm r1 where r1: "receive demo_ext demo_zmq (Err (InvalidData, [])) (bu_thread s) = (Ok rm, r1)"
      "rm_endpoint rm = Some ''tcp''" "m_id (rm_message rm) = 7"
    using demo_received s(5-10) by blast
  let ?r2 = "r1\<lparr>rv_fifo := Some (fifo_add (fifo_new 2) rm)\<rparr>"
  have "rv_fifo r1 = Some (fifo_new 2)" using receive_frame(2) [OF r1(1)] s(11) by simp
  then have "listen_step demo_ext demo_zmq None (bu_thread s) demo_turn = Some ([], Continue, ?r2)"
    using r1(1) by (simp add: listen_step_def demo_turn_def deliver_def)
  from buffered_run.turn [OF s(1,2) this] r1(1) s(3)
  have t: "buffered_run demo_ext demo_zmq 2 (s\<lparr>bu_thread := ?r2, bu_running := True, bu_received := [rm]\<rparr>)"
    by (simp add: received_by_def demo_turn_def)
  obtain q where q: "fifo_get (fifo_add (fifo_new 2) rm) = (Some rm, q)"
    by (simp add: fifo_add_def fifo_new_def fifo_get_def)
  from buffered_run.get [OF t, of "Some rm"] q s(4)
  have g: "buffered_run demo_ext demo_zmq 2 (s\<lparr>bu_thread := r1\<lparr>rv_fifo := Some q\<rparr>, bu_running := True,
      bu_received := [rm], bu_got := [rm]\<rparr>)"
    by (cases s) (simp add: rv_get_def)
  from buffered_in_order [OF g] g r1(2,3) show ?thesis
    by (intro exI [of _ "s\<lparr>bu_thread := r1\<lparr>rv_fifo := Some q\<rparr>, bu_running := True, bu_received := [rm], bu_got := [rm]\<rparr>"])
      (auto simp: logged_def)
qed

end
