(* ===== verification/Bs_Network.thy ===== *)
theory Bs_Network
  imports Bs_Stream Bs_Buffered
begin

section \<open>Relays and networks (src/src/receiver.rs, src/src/sender.rs)\<close>

text \<open>
  A receiver with a forwarder is a relay: it sends on every message it takes from its
  sockets before it looks at it.  Here sockets hold both directions, the messages that wait
  and the frames that were sent, and a connection to an endpoint brings what that endpoint
  sends.
\<close>

subsection \<open>The network\<close>

record net_socket =
  ns_in :: "byte list list list"
  ns_out :: "(byte list \<times> i32) list"

definition net_zmq :: "(string \<Rightarrow> byte list list list) \<Rightarrow> net_socket zmq" where
  "net_zmq net = \<lparr>z_new = (\<lambda>t. Inr \<lparr>ns_in = [], ns_out = []\<rparr>),
     z_recv = (\<lambda>s. case ns_in s of
         [] \<Rightarrow> (s, Inl (TimedOut, ''Resource temporarily unavailable''))
       | m # ms \<Rightarrow> (s\<lparr>ns_in := ms\<rparr>, Inr m)),
     z_poll = (\<lambda>ss. Inr (map (\<lambda>s. ns_in s \<noteq> []) ss)),
     z_send = (\<lambda>s b f. (s\<lparr>ns_out := ns_out s @ [(b, f)]\<rparr>, None)),
     z_bind = (\<lambda>s e. (s, None)), z_unbind = (\<lambda>s e. (s, None)),
     z_connect = (\<lambda>s e. (s\<lparr>ns_in := ns_in s @ net e\<rparr>, None)), z_disconnect = (\<lambda>s e. (s, None)),
     z_subscribe = (\<lambda>s t. (s, None)), z_set = (\<lambda>s x. (s, None)), z_monitor = (\<lambda>s e. (s, None)),
     z_socket_type = (\<lambda>s. Inr SUB), z_last_endpoint = (\<lambda>s. None)\<rparr>"

text \<open>What waits at a receiver, by the endpoint under which it would be received.\<close>

definition pending :: "('s \<Rightarrow> byte list list list) \<Rightarrow> 's receiver \<Rightarrow> string option \<Rightarrow> byte list list list" where
  "pending waiting r ep =
     (case rv_sockets r of
        Shared ts \<Rightarrow> if ep = None then waiting (ts_socket ts) else []
      | Individual ss polls ready \<Rightarrow>
          (case Option.bind ep (map_of ss) of Some ts \<Rightarrow> waiting (ts_socket ts) | None \<Rightarrow> []))"

text \<open>The frames of a forwarded message.\<close>

fun forward_frames :: "i32 \<Rightarrow> i32 \<Rightarrow> byte list list \<Rightarrow> (byte list \<times> i32) list" where
  "forward_frames fl fm [] = []"
| "forward_frames fl fm (p # ps) = (p, if ps = [] then fl else fm) # forward_frames fl fm ps"

lemma multipart_forward:
  assumes "and fl SNDMORE = 0" and "and fm SNDMORE \<noteq> 0" and "ps \<noteq> []"
  shows "multipart cur (forward_frames fl fm ps @ w) = (cur @ ps) # multipart [] w"
  using assms(3) by (induction ps arbitrary: cur) (auto simp: assms(1,2))

lemma multipart_forwards:
  assumes "and fl SNDMORE = 0" and "and fm SNDMORE \<noteq> 0" and "\<forall>ps \<in> set pss. ps \<noteq> []"
  shows "multipart [] (concat (map (forward_frames fl fm) pss)) = pss"
  using assms(3) by (induction pss) (simp_all add: multipart_forward [OF assms(1,2)])

definition taken :: "string option \<Rightarrow> (string option \<times> byte list list) list \<Rightarrow> byte list list list" where
  "taken ep log = map snd (filter (\<lambda>x. fst x = ep) log)"

lemma taken_simps [simp]: "taken ep [] = []" "taken ep (xs @ ys) = taken ep xs @ taken ep ys"
    "taken ep (x # xs) = (if fst x = ep then snd x # taken ep xs else taken ep xs)"
  by (simp_all add: taken_def)

text \<open>
  What happened between two states of a receiver, if it took the messages of \<open>log\<close>: they
  are gone from their sockets, and the forwarder has sent them on.
\<close>

definition relayed ::
  "('s \<Rightarrow> byte list list list) \<Rightarrow> ('s \<Rightarrow> (byte list \<times> i32) list) \<Rightarrow> (string option \<times> byte list list) list
   \<Rightarrow> 's receiver \<Rightarrow> 's receiver \<Rightarrow> bool" where
  "relayed waiting sent log r r' \<longleftrightarrow>
     (\<forall>ep. taken ep log @ pending waiting r' ep = pending waiting r ep)
     \<and> rel_option (\<lambda>f f'. \<exists>k. f' = f\<lparr>sd_socket := k\<rparr> \<and> sent k = sent (sd_socket f)
          @ concat (map (forward_frames (flags_last f) (flags_more f)) (map snd log)))
        (rv_forwarder r) (rv_forwarder r')"

text \<open>A raw reception takes the first message of the endpoint it names, or nothing.\<close>

definition takes ::
  "('s \<Rightarrow> byte list list list) \<Rightarrow> (string option \<times> byte list list res) \<times> 's receiver \<Rightarrow> 's receiver \<Rightarrow> bool" where
  "takes waiting x r \<longleftrightarrow> (case x of ((ep, parts), r') \<Rightarrow> (case parts of
       Ok ps \<Rightarrow> pending waiting r = (pending waiting r')(ep := ps # pending waiting r' ep)
     | Err e \<Rightarrow> pending waiting r' = pending waiting r
     | Panic \<Rightarrow> False))"

lemma pending_cong: "rv_sockets r' = rv_sockets r \<Longrightarrow> pending waiting r' = pending waiting r"
  by (simp add: pending_def fun_eq_iff)

lemma relayed_nothing:
  assumes "rv_sockets r' = rv_sockets r \<or> pending waiting r' = pending waiting r" and "rv_forwarder r' = rv_forwarder r"
  shows "relayed waiting sent [] r r'"
proof -
  have "pending waiting r' = pending waiting r" using assms(1) by (auto simp: pending_def)
  moreover have "\<exists>k. f = f\<lparr>sd_socket := k\<rparr> \<and> sent k = sent (sd_socket f)" for f :: "'a sender"
    by (rule exI [of _ "sd_socket f"]) simp
  ultimately show ?thesis using assms(2) by (cases "rv_forwarder r") (simp_all add: relayed_def)
qed

lemma relayed_trans:
  assumes "relayed waiting sent log1 r r1" and "relayed waiting sent log2 r1 r2"
  shows "relayed waiting sent (log1 @ log2) r r2"
proof -
  have "taken ep (log1 @ log2) @ pending waiting r2 ep = pending waiting r ep" for ep
    using assms by (simp add: relayed_def)
  moreover have "flags_last (f\<lparr>sd_socket := k\<rparr>) = flags_last f" "flags_more (f\<lparr>sd_socket := k\<rparr>) = flags_more f"
    for f :: "'a sender" and k
    by (simp_all add: flags_last_def flags_more_def)
  ultimately show ?thesis
    using assms by (cases "rv_forwarder r"; cases "rv_forwarder r1"; cases "rv_forwarder r2") (auto simp: relayed_def)
qed

subsection \<open>Relaying\<close>

lemma map_of_update_socket: "map_of ss ep = Some y \<Longrightarrow> map_of (update_socket ep x ss) = (map_of ss)(ep \<mapsto> x)"
  by (induction ep x ss rule: update_socket.induct) (auto simp: fun_upd_twist)

lemma forwarder_frames [simp]:
  "rv_forwarder (send_diag r ep d) = rv_forwarder r" "rv_forwarder (increse_stats r ep d) = rv_forwarder r"
  "rv_forwarder (snd (check_message sim r m ep)) = rv_forwarder r"
proof -
  have a: "rv_forwarder (send_diag r ep d) = rv_forwarder r" "rv_forwarder (increse_stats r ep d) = rv_forwarder r" for r ep d
    by (simp_all add: send_diag_def increse_stats_def Let_def split: option.split)
  show "rv_forwarder (send_diag r ep d) = rv_forwarder r" "rv_forwarder (increse_stats r ep d) = rv_forwarder r"
    by (simp_all add: a)
  show "rv_forwarder (snd (check_message sim r m ep)) = rv_forwarder r"
    by (simp add: check_message_def Let_def a split: option.split)
qed

lemma process_message_forwards:
  assumes "process_message L z sim r ep ps = (x, r')"
  shows "rv_forwarder r' = map_option (\<lambda>f. snd (sender_forward z f ps)) (rv_forwarder r)"
proof -
  obtain pm c where p: "parse_message L ps ep (rv_header_buffer r) (rv_raw r) = (pm, c)"
    by (cases "parse_message L ps ep (rv_header_buffer r) (rv_raw r)")
  let ?r2 = "(forward_message z r ps)\<lparr>rv_header_buffer := c\<rparr>"
  have f: "rv_forwarder ?r2 = map_option (\<lambda>f. snd (sender_forward z f ps)) (rv_forwarder r)"
    by (simp add: forward_message_def)
  show ?thesis
  proof (cases pm)
    case (Ok m)
    with assms p have "r' = snd (check_message sim ?r2 m ep)" by (simp add: process_message_def)
    with f show ?thesis by simp
  qed (use assms p f in \<open>auto simp: process_message_def\<close>)
qed

text \<open>
  Sockets that also time out when nothing waits, and that send: the interface a relay
  relies on.
\<close>

locale relay_sockets = message_source +
  fixes sent :: "'a \<Rightarrow> (byte list \<times> i32) list"
  assumes recv_empty: "waiting s = [] \<Longrightarrow> \<exists>e s'. z_recv z s = (s', Inl e) \<and> waiting s' = []"
    and send: "\<exists>s'. z_send z s b f = (s', None) \<and> sent s' = sent s @ [(b, f)]"
begin

lemma tracked_receive_cases:
  "(\<exists>m ts'. tracked_receive z ts = (Ok m, ts') \<and> waiting (ts_socket ts) = m # waiting (ts_socket ts'))
   \<or> (\<exists>e ts'. tracked_receive z ts = (Err e, ts') \<and> waiting (ts_socket ts') = waiting (ts_socket ts))"
proof (cases "waiting (ts_socket ts)")
  case Nil
  with recv_empty [OF this] show ?thesis by (auto simp: tracked_receive_def)
next
  case (Cons m ms)
  with recv [OF this] show ?thesis by (auto simp: tracked_receive_def)
qed

lemma ready_takes:
  assumes "rv_sockets r = Individual ss polls ready0"
  shows "takes waiting (receive_ready z r ss polls ready) r"
proof (cases ready)
  case Nil
  then show ?thesis by (simp add: takes_def receive_ready_def pending_def fun_eq_iff assms)
next
  case (Cons ep rest)
  show ?thesis
  proof (cases "map_of ss ep")
    case None
    with Cons show ?thesis by (simp add: takes_def receive_ready_def pending_def fun_eq_iff assms)
  next
    case (Some ts)
    have "pending waiting (r\<lparr>rv_sockets := Individual (update_socket ep ts' ss) polls rest\<rparr>)
        = (pending waiting r)(Some ep := waiting (ts_socket ts'))" for ts'
    proof
      fix e
      show "pending waiting (r\<lparr>rv_sockets := Individual (update_socket ep ts' ss) polls rest\<rparr>) e
          = ((pending waiting r)(Some ep := waiting (ts_socket ts'))) e"
        by (cases e) (simp_all add: pending_def assms map_of_update_socket [OF Some])
    qed
    moreover have "pending waiting r (Some ep) = waiting (ts_socket ts)" by (simp add: pending_def assms Some)
    ultimately show ?thesis
      using tracked_receive_cases [of ts] Cons Some
      by (auto simp: takes_def receive_ready_def fun_eq_iff simp del: fun_upd_apply) auto
  qed
qed

lemma raw_receive_takes: "takes waiting (raw_receive z r) r"
proof (cases "rv_sockets r")
  case (Shared ts)
  then show ?thesis
    using tracked_receive_cases [of ts] by (auto simp: takes_def raw_receive_def pending_def fun_eq_iff)
next
  case (Individual ss polls ready)
  have "rv_sockets (r\<lparr>rv_sockets := update_poll_items (rv_sockets r)\<rparr>) = Individual ss (map fst ss) ready"
    by (simp add: Individual)
  then show ?thesis
    using ready_takes [OF Individual] Individual by (auto simp: raw_receive_def poll takes_def pending_def)
qed

lemma forward_sends:
  "\<exists>k. sender_forward z f ps = (Ok (), f\<lparr>sd_socket := k\<rparr>)
     \<and> sent k = sent (sd_socket f) @ forward_frames (flags_last f) (flags_more f) ps"
proof -
  have "\<exists>k'. forward_parts z fl fm k ps = (Ok (), k') \<and> sent k' = sent k @ forward_frames fl fm ps" for fl fm k
  proof (induction ps arbitrary: k)
    case (Cons p ps)
    obtain k1 where "z_send z k p (if ps = [] then fl else fm) = (k1, None)"
        "sent k1 = sent k @ [(p, if ps = [] then fl else fm)]"
      using send by blast
    with Cons [of k1] show ?case by auto
  qed simp
  from this [of "flags_last f" "flags_more f" "sd_socket f"] show ?thesis by (auto simp: sender_forward_def)
qed

lemma receive_relays:
  assumes "receive L z sim r = (x, r')"
  shows "\<exists>log. relayed waiting sent log r r' \<and> (\<forall>rm. x = Ok rm \<longrightarrow> map fst log = [rm_endpoint rm])"
proof (cases "connections r = 0")
  case True
  with assms have "r' = r" "x = Err (NotConnected, ''No connected endpoint'')" by (simp_all add: receive_def)
  then show ?thesis using relayed_nothing [of r r] by blast
next
  case False
  obtain ep parts r1 where raw: "raw_receive z r = ((ep, parts), r1)" by (cases "raw_receive z r") auto
  have f1: "rv_forwarder r1 = rv_forwarder r" using raw_receive_frame [of z r] raw by auto
  have t: "takes waiting ((ep, parts), r1) r" using raw_receive_takes [of r] raw by simp
  show ?thesis
  proof (cases parts)
    case (Ok ps)
    obtain y r2 where p: "process_message L z sim r1 ep ps = (y, r2)" by (cases "process_message L z sim r1 ep ps")
    have s: "rv_sockets r' = rv_sockets r2" "rv_forwarder r' = rv_forwarder r2" "\<forall>rm. x = Ok rm \<longrightarrow> rm_endpoint rm = ep"
      using assms False raw Ok p by (cases y; auto simp: receive_def)+
    have pend: "pending waiting r' = pending waiting r1"
      using process_message_frame(2) [OF p] s(1) by (intro pending_cong) simp
    have "rel_option (\<lambda>f f'. \<exists>k. f' = f\<lparr>sd_socket := k\<rparr> \<and> sent k = sent (sd_socket f)
        @ forward_frames (flags_last f) (flags_more f) ps) (rv_forwarder r) (rv_forwarder r')"
    proof (cases "rv_forwarder r")
      case (Some f)
      with forward_sends [of f ps] process_message_forwards [OF p] f1 s(2) show ?thesis by auto
    qed (use process_message_forwards [OF p] f1 s(2) in simp)
    with t Ok pend have "relayed waiting sent [(ep, ps)] r r'" by (auto simp: relayed_def takes_def)
    with s(3) show ?thesis by (intro exI [of _ "[(ep, ps)]"]) simp
  next
    case (Err e)
    with assms False raw have s: "rv_sockets r' = rv_sockets r1" "rv_forwarder r' = rv_forwarder r1" "x = Err e"
      by (auto simp: receive_def)
    then have "pending waiting r' = pending waiting r" using t Err pending_cong [of r' r1 waiting] by (simp add: takes_def)
    then show ?thesis using relayed_nothing [of r' r] f1 s(2,3) by auto
  qed (use t in \<open>simp add: takes_def\<close>)
qed

lemma listen_loop_relays:
  assumes "listen_loop L z n r is = Some (out, res, r')" and "\<forall>i \<in> set is. li_commands i = []"
  shows "\<exists>log. relayed waiting sent log r r' \<and> subseq (map rm_endpoint out) (map fst log)"
  using assms
proof (induction "is" arbitrary: r out)
  case Nil
  then show ?case using relayed_nothing [of r r] by auto
next
  case (Cons i "is")
  obtain out1 res1 r1 where st: "listen_step L z n r i = Some (out1, res1, r1)"
    using Cons.prems(1) by (cases "listen_step L z n r i") auto
  obtain x r0 where x: "receive L z (li_sim i) r = (x, r0)" by (cases "receive L z (li_sim i) r")
  have "rv_sockets r1 = rv_sockets r0 \<and> rv_forwarder r1 = rv_forwarder r0
      \<and> (out1 = [] \<or> (\<exists>rm. x = Ok rm \<and> out1 = [rm]))"
    using st x Cons.prems(2)
    by (cases x) (auto simp: listen_step_def deliver_def split: if_splits option.splits)
  moreover obtain log1 where "relayed waiting sent log1 r r0" "\<forall>rm. x = Ok rm \<longrightarrow> map fst log1 = [rm_endpoint rm]"
    using receive_relays [OF x] by metis
  ultimately have l1: "relayed waiting sent log1 r r1" "subseq (map rm_endpoint out1) (map fst log1)"
    by (auto simp: relayed_def pending_def)
  show ?case
  proof (cases res1)
    case Continue
    with Cons.prems(1) st obtain out2 where o2: "listen_loop L z n r1 is = Some (out2, res, r')" "out = out1 @ out2"
      by (cases "listen_loop L z n r1 is") auto
    from Cons.IH [OF this(1)] Cons.prems(2) obtain log2 where "relayed waiting sent log2 r1 r'"
        "subseq (map rm_endpoint out2) (map fst log2)"
      by auto
    then show ?thesis
      using relayed_trans [OF l1(1)] l1(2) o2(2) by (intro exI [of _ "log1 @ log2"]) (simp add: list_emb_append_mono)
  qed (use Cons.prems(1) st l1 in auto)
qed

end

interpretation net: relay_sockets "net_zmq net" ns_in ns_out for net
  by unfold_locales (auto simp: net_zmq_def)

subsection \<open>Connecting to the network\<close>

text \<open>A receiver of the individual mode that has not been connected yet.\<close>

definition idle :: "'s receiver \<Rightarrow> bool" where
  "idle r \<longleftrightarrow> rv_sockets r = Individual [] [] [] \<and> \<not> rv_connected r \<and> \<not> rv_monitored r
     \<and> rv_options r = socket_options_new \<and> rv_header_buffer r = lhm_void \<and> distinct (rv_endpoints r)"

text \<open>One that is: sockets in the order of its endpoints, each with what its endpoint sends, and no header cached.\<close>

definition opened :: "(string \<Rightarrow> byte list list list) \<Rightarrow> string list \<Rightarrow> net_socket receiver \<Rightarrow> bool" where
  "opened net eps r \<longleftrightarrow> (\<exists>tss. rv_sockets r = Individual tss (map fst tss) [] \<and> map fst tss = eps
     \<and> (\<forall>ep ts. (ep, ts) \<in> set tss \<longrightarrow> ns_in (ts_socket ts) = net ep))
   \<and> lhm_map (rv_header_buffer r) = [] \<and> lhm_order (rv_header_buffer r) = []"

text \<open>The fields that connecting leaves alone.\<close>

definition same_setup :: "'s receiver \<Rightarrow> 's receiver \<Rightarrow> bool" where
  "same_setup r r' \<longleftrightarrow> rv_endpoints r' = rv_endpoints r \<and> rv_raw r' = rv_raw r \<and> rv_check_mask r' = rv_check_mask r
     \<and> rv_id_buffer r' = rv_id_buffer r \<and> rv_fifo r' = rv_fifo r \<and> rv_forwarder r' = rv_forwarder r
     \<and> rv_forwarder_config r' = rv_forwarder_config r \<and> rv_stats r' = rv_stats r
     \<and> rv_monitored r' = rv_monitored r \<and> rv_options r' = rv_options r \<and> rv_connected r' = rv_connected r"

lemma net_open_endpoint:
  assumes "\<not> rv_monitored r" and "rv_options r = socket_options_new"
  shows "\<exists>ts c. open_endpoint (net_zmq net) env r ep = (Ok ts, r\<lparr>rv_counter := c\<rparr>) \<and> ns_in (ts_socket ts) = net ep"
proof -
  obtain ts0 c0 where t0: "tracked_new (rv_counter r) (z_new (net_zmq net) (rv_socket_type r)) (rv_index r) = (Ok ts0, c0)"
      "ts_endpoints ts0 = []" "ts_topics ts0 = []" "ts_socket ts0 = \<lparr>ns_in = [], ns_out = []\<rparr>"
    by (simp add: tracked_new_def net_zmq_def)
  then obtain ts1 where t1: "tracked_connect (net_zmq net) ts0 ep = (Ok (), ts1)" "ns_in (ts_socket ts1) = net ep"
    by (simp add: tracked_connect_def has_endpoint_def net_zmq_def tracked_subscribe_def)
  have o1: "socket_options_set (net_zmq net) socket_options_new x = (x, None)" for x
    by (simp add: socket_options_set_def socket_options_new_def if_some_def)
  show ?thesis using t0(1) t1 o1 assms by (auto simp: open_endpoint_def)
qed

lemma header_buffer_empty:
  assumes "lhm_map (rv_header_buffer r) = []" and "lhm_order (rv_header_buffer r) = []"
  shows "\<exists>hb. set_header_buffer_size r n = Some (r\<lparr>rv_header_buffer := hb\<rparr>) \<and> lhm_map hb = [] \<and> lhm_order hb = []"
proof (cases "lhm_is_void (rv_header_buffer r)")
  case True
  then show ?thesis
    by (intro exI [of _ "lhm_new n"]) (simp add: set_header_buffer_size_def, simp add: lhm_new_def)
next
  case False
  with assms show ?thesis
    by (intro exI [of _ "rv_header_buffer r\<lparr>lhm_max := n, lhm_map := [], lhm_order := []\<rparr>"])
      (simp add: set_header_buffer_size_def lhm_set_max_size_def)
qed

lemma net_connect_endpoint:
  assumes "opened net eps r" and "ep \<notin> set eps" and "\<not> rv_monitored r" and "rv_options r = socket_options_new"
  shows "\<exists>r'. connect_endpoint (net_zmq net) env r ep = Some (Ok (), r') \<and> opened net (eps @ [ep]) r' \<and> same_setup r r'"
proof -
  obtain tss where t: "rv_sockets r = Individual tss (map fst tss) []" "map fst tss = eps"
      "\<forall>ep ts. (ep, ts) \<in> set tss \<longrightarrow> ns_in (ts_socket ts) = net ep"
    using assms(1) by (auto simp: opened_def)
  obtain ts c where e: "open_endpoint (net_zmq net) env r ep = (Ok ts, r\<lparr>rv_counter := c\<rparr>)" "ns_in (ts_socket ts) = net ep"
    using net_open_endpoint [OF assms(3,4)] by blast
  have new: "ep \<notin> fst ` set tss" using t(2) assms(2) by force
  then have n: "map_of tss ep = None" by (simp add: map_of_eq_None_iff)
  have u: "AList.update ep ts tss = tss @ [(ep, ts)]" using new by (induction tss) auto
  let ?r1 = "r\<lparr>rv_counter := c, rv_sockets := Individual (tss @ [(ep, ts)]) (map fst (tss @ [(ep, ts)])) []\<rparr>"
  have c: "connect_socket (net_zmq net) env r ep = (Ok (), ?r1)"
    by (simp add: connect_socket_def t(1) n e(1) u)
  have h: "lhm_map (rv_header_buffer r) = []" "lhm_order (rv_header_buffer r) = []"
    using assms(1) by (simp_all add: opened_def)
  obtain hb where hb: "set_header_buffer_size ?r1 (connections ?r1) = Some (?r1\<lparr>rv_header_buffer := hb\<rparr>)"
      "lhm_map hb = []" "lhm_order hb = []"
    using header_buffer_empty [of ?r1] h by auto
  have "opened net (eps @ [ep]) (?r1\<lparr>rv_header_buffer := hb\<rparr>)"
    using t(2,3) hb e(2) new by (fastforce simp: opened_def)
  moreover have "same_setup r (?r1\<lparr>rv_header_buffer := hb\<rparr>)" by (simp add: same_setup_def)
  ultimately show ?thesis using c hb(1) by (simp add: connect_endpoint_def)
qed

lemma net_connect_all:
  assumes "opened net eps r" and "distinct (eps @ eps')" and "\<not> rv_monitored r" and "rv_options r = socket_options_new"
  shows "\<exists>r'. connect_all (net_zmq net) env r eps' = Some (Ok (), r') \<and> opened net (eps @ eps') r' \<and> same_setup r r'"
  using assms
proof (induction eps' arbitrary: eps r)
  case Nil
  then show ?case by (simp add: same_setup_def)
next
  case (Cons ep eps')
  obtain r1 where r1: "connect_endpoint (net_zmq net) env r ep = Some (Ok (), r1)" "opened net (eps @ [ep]) r1" "same_setup r r1"
    using net_connect_endpoint [OF Cons.prems(1) _ Cons.prems(3,4), of ep env] Cons.prems(2) by auto
  obtain r' where "connect_all (net_zmq net) env r1 eps' = Some (Ok (), r')" "opened net ((eps @ [ep]) @ eps') r'" "same_setup r1 r'"
    using Cons.IH [OF r1(2)] Cons.prems(2-4) r1(3) by (auto simp: same_setup_def)
  with r1 show ?case by (auto simp: same_setup_def)
qed

lemma net_start_forwarder:
  "\<exists>fw. start_forwarder (net_zmq net) app r = r\<lparr>rv_forwarder := fw\<rparr>
     \<and> (rv_forwarder_config r \<noteq> None \<longrightarrow> (\<exists>f. fw = Some f \<and> ns_out (sd_socket f) = []))"
proof (cases "rv_forwarder_config r")
  case None
  then show ?thesis by (intro exI [of _ "rv_forwarder r"]) (simp add: start_forwarder_def)
next
  case (Some cfg)
  obtain s where s: "sender_new (net_zmq net) (z_new (net_zmq net) (fc_socket_type cfg)) (fc_socket_type cfg)
      (fc_transport cfg) None None None = Ok s" "ns_out (sd_socket s) = []"
    by (simp add: sender_new_def Let_def net_zmq_def)
  obtain s1 where s1: "sender_start (net_zmq net) app s = (Ok (), s1)" "ns_out (sd_socket s1) = []"
    using s(2) by (cases "sd_transport s") (simp_all add: sender_start_def Let_def net_zmq_def)
  have z: "z_set (net_zmq net) k x = (k, None)" for k x by (simp add: net_zmq_def)
  show ?thesis using s(1) s1 by (auto simp: start_forwarder_def Some z Let_def split: option.split)
qed

lemma net_listen_begin:
  assumes "idle r"
  shows "\<exists>r'. listen_begin (net_zmq net) app env r = Some (Ok (), r') \<and> opened net (rv_endpoints r) r'
    \<and> rv_endpoints r' = rv_endpoints r \<and> rv_raw r' = rv_raw r \<and> rv_check_mask r' = rv_check_mask r
    \<and> rv_id_buffer r' = rv_id_buffer r \<and> rv_fifo r' = rv_fifo r \<and> rv_stats r' = stats_reset (rv_stats r)
    \<and> (rv_forwarder_config r \<noteq> None \<longrightarrow> (\<exists>f. rv_forwarder r' = Some f \<and> ns_out (sd_socket f) = []))"
proof -
  let ?r1 = "reset_counters (if rv_forked r then r else r\<lparr>rv_delivery_mode := Inline\<rparr>)"
  let ?r2 = "start_forwarder (net_zmq net) app ?r1"
  have c: "rv_forwarder_config ?r1 = rv_forwarder_config r" by (simp add: reset_counters_def)
  obtain fw where fw: "?r2 = ?r1\<lparr>rv_forwarder := fw\<rparr>"
      "rv_forwarder_config r \<noteq> None \<longrightarrow> (\<exists>f. fw = Some f \<and> ns_out (sd_socket f) = [])"
    using net_start_forwarder [of net app ?r1] unfolding c by blast
  have a: "acts_locally ?r2" and o0: "opened net [] ?r2" and f: "\<not> rv_connected ?r2" "\<not> rv_monitored ?r2"
      "rv_options ?r2 = socket_options_new" "rv_endpoints ?r2 = rv_endpoints r" "rv_raw ?r2 = rv_raw r"
      "rv_check_mask ?r2 = rv_check_mask r" "rv_id_buffer ?r2 = rv_id_buffer r" "rv_fifo ?r2 = rv_fifo r"
      "rv_stats ?r2 = stats_reset (rv_stats r)"
    unfolding fw(1) using assms
    by (simp_all add: idle_def reset_counters_def acts_locally_def is_threaded_def opened_def lhm_void_def)
  have w: "rv_forwarder_config r \<noteq> None \<longrightarrow> (\<exists>f. rv_forwarder ?r2 = Some f \<and> ns_out (sd_socket f) = [])"
    using fw(2) unfolding fw(1) by simp
  obtain r' where r': "connect_all (net_zmq net) env ?r2 (rv_endpoints r) = Some (Ok (), r')"
      "opened net (rv_endpoints r) r'" "same_setup ?r2 r'"
    using net_connect_all [OF o0, of "rv_endpoints r" env] assms f by (auto simp: idle_def)
  let ?r = "r'\<lparr>rv_connected := True\<rparr>"
  have "listen_begin (net_zmq net) app env r = Some (Ok (), ?r)"
    using a f(1,4) r'(1) by (simp add: listen_begin_def rv_connect_def)
  moreover have "opened net (rv_endpoints r) ?r" using r'(2) by (simp add: opened_def)
  ultimately show ?thesis using f r'(3) w by (intro exI [of _ ?r]) (simp add: same_setup_def)
qed

subsection \<open>Relays\<close>

lemma new_idle:
  assumes "receiver_new z index counter (Some eps) st IndividualMode = Ok r0" and "distinct eps"
  shows "idle (set_forwarder_config r0 cfg)" "rv_endpoints (set_forwarder_config r0 cfg) = eps"
    "rv_forwarder_config (set_forwarder_config r0 cfg) = Some cfg" "\<not> rv_raw (set_forwarder_config r0 cfg)"
  using assms by (auto simp: receiver_new_def idle_def set_forwarder_config_def)

lemma stop_keeps_wire:
  assumes "rv_forwarder r = Some f"
  shows "\<exists>f'. rv_forwarder (stop_forwarder (net_zmq net) app r) = Some f' \<and> ns_out (sd_socket f') = ns_out (sd_socket f)"
  using assms by (auto simp: stop_forwarder_def sender_stop_def net_zmq_def)

lemma opened_pending:
  assumes "opened net eps r" and "distinct eps"
  shows "pending ns_in r (Some ep) = (if ep \<in> set eps then net ep else [])" "pending ns_in r None = []"
proof -
  obtain tss where t: "rv_sockets r = Individual tss (map fst tss) []" "map fst tss = eps"
      "\<forall>ep ts. (ep, ts) \<in> set tss \<longrightarrow> ns_in (ts_socket ts) = net ep"
    using assms(1) by (auto simp: opened_def)
  show "pending ns_in r None = []" by (simp add: pending_def t(1))
  show "pending ns_in r (Some ep) = (if ep \<in> set eps then net ep else [])"
  proof (cases "map_of tss ep")
    case None
    then have "ep \<notin> set eps" using t(2) by (force simp: map_of_eq_None_iff)
    with None show ?thesis by (simp add: pending_def t(1))
  next
    case (Some ts)
    then have "(ep, ts) \<in> set tss" by (rule map_of_SomeD)
    moreover from this have "ep \<in> set eps" using t(2) by force
    ultimately show ?thesis using Some t(3) by (simp add: pending_def t(1))
  qed
qed

lemma taken_member: "x \<in> set log \<Longrightarrow> taken (fst x) log \<noteq> []"
  by (auto simp: taken_def filter_empty_conv)

lemma set_taken: "ps \<in> set (map snd log) \<Longrightarrow> \<exists>ep. ps \<in> set (taken ep log)"
  by (force simp: taken_def)

text \<open>
  C11. A relay is exact.  A new receiver of any number of endpoints with a forwarder, whose
  listening ends in any way (interrupted, at its number of messages, in a panic) or goes on:
  the forwarder's wire holds complete multipart messages, namely those taken from the sockets,
  in the order they were taken; of each endpoint these are what it sent, in order and without a gap, up to what still
  waits.  Messages that the relay refuses itself are passed on like those it delivers.
\<close>

theorem relay_exact:
  assumes "receiver_new (net_zmq net) index counter (Some eps) st IndividualMode = Ok r0" and "distinct eps"
    and "\<forall>ep \<in> set eps. \<forall>ps \<in> set (net ep). ps \<noteq> []" and "\<forall>i \<in> set is. li_commands i = []"
    and "listen L (net_zmq net) app n (set_forwarder_config r0 cfg) env is = Some (res, out, r')"
  shows "\<exists>log f. rv_forwarder r' = Some f \<and> multipart [] (ns_out (sd_socket f)) = map snd log
    \<and> subseq (map rm_endpoint out) (map fst log) \<and> fst ` set log \<subseteq> Some ` set eps
    \<and> (\<forall>ep \<in> set eps. taken (Some ep) log @ pending ns_in r' (Some ep) = net ep)"
proof -
  let ?r = "set_forwarder_config r0 cfg"
  note i = new_idle [OF assms(1,2), of cfg]
  obtain r1 f1 where b: "listen_begin (net_zmq net) app env ?r = Some (Ok (), r1)" "opened net eps r1"
      "rv_forwarder r1 = Some f1" "ns_out (sd_socket f1) = []"
    using net_listen_begin [OF i(1), of net app env] i(2,3) by auto
  obtain o2 r2 where l: "listen_loop L (net_zmq net) n r1 is = Some (out, o2, r2)"
      "r' = r2 \<or> r' = stop_forwarder (net_zmq net) app r2"
    using assms(5) b(1) by (auto simp: listen_def split: option.splits prod.splits listen_outcome.splits)
  obtain log where log: "relayed ns_in ns_out log r1 r2" "subseq (map rm_endpoint out) (map fst log)"
    using net.listen_loop_relays [OF l(1) assms(4)] by blast
  obtain f2 where f2: "rv_forwarder r2 = Some f2"
      "ns_out (sd_socket f2) = concat (map (forward_frames (flags_last f1) (flags_more f1)) (map snd log))"
    using log(1) b(3,4) by (auto simp: relayed_def rel_option_iff split: option.splits)
  have pd: "taken e log @ pending ns_in r2 e = pending ns_in r1 e" for e using log(1) by (simp add: relayed_def)
  have tk: "taken (Some ep) log @ pending ns_in r2 (Some ep) = (if ep \<in> set eps then net ep else [])"
      "taken None log = []" for ep
    using pd [of "Some ep"] pd [of None] opened_pending [OF b(2) assms(2)] by simp_all
  have sub: "fst ` set log \<subseteq> Some ` set eps"
  proof
    fix e
    assume "e \<in> fst ` set log"
    then have ne: "taken e log \<noteq> []" using taken_member by blast
    then obtain ep where "e = Some ep" using tk(2) by (cases e) auto
    with ne tk(1) [of ep] show "e \<in> Some ` set eps" by (auto split: if_splits)
  qed
  have "\<forall>ps \<in> set (map snd log). ps \<noteq> []"
  proof
    fix ps
    assume "ps \<in> set (map snd log)"
    then obtain e where e: "ps \<in> set (taken e log)" using set_taken by blast
    then obtain ep where "e = Some ep" using tk(2) by (cases e) auto
    with e tk(1) [of ep] have "ep \<in> set eps \<and> ps \<in> set (net ep)"
      by (auto split: if_splits) (metis Un_iff set_append)
    with assms(3) show "ps \<noteq> []" by blast
  qed
  then have "multipart [] (ns_out (sd_socket f2)) = map snd log"
    unfolding f2(2) using flags_bits [of f1] by (intro multipart_forwards) (simp_all add: SNDMORE_def)
  moreover obtain f where "rv_forwarder r' = Some f" "ns_out (sd_socket f) = ns_out (sd_socket f2)"
    using l(2) f2(1) stop_keeps_wire [OF f2(1)] by auto
  moreover have "pending ns_in r' = pending ns_in r2"
    using l(2) by (auto simp: stop_forwarder_def intro!: pending_cong)
  ultimately show ?thesis using log(2) sub tk(1) by (intro exI [of _ log] exI [of _ f]) simp
qed

text \<open>The forwarder of the witnesses.\<close>

definition relay_config :: forwarder_config where
  "relay_config = \<lparr>fc_socket_type = PUB, fc_transport = Tcp 9999 None, fc_sndhwm = None\<rparr>"

text \<open>Two endpoints, one of which also sends something that is not a message.\<close>

definition relay_net :: "string \<Rightarrow> byte list list list" where
  "relay_net ep = (if ep = ''a'' then [[[1], [2]], [[9]]] else [[[3]]])"

theorem relay_exact_witness:
  "\<exists>r0 res out r' log f. receiver_new (net_zmq relay_net) 1 0 (Some [''a'', ''b'']) SUB IndividualMode = Ok r0
    \<and> listen demo_ext (net_zmq relay_net) None None (set_forwarder_config r0 relay_config) demo_env
        [demo_turn, demo_turn, demo_turn] = Some (res, out, r')
    \<and> rv_forwarder r' = Some f \<and> multipart [] (ns_out (sd_socket f)) = map snd log
    \<and> taken (Some ''a'') log @ pending ns_in r' (Some ''a'') = [[[1], [2]], [[9]]]
    \<and> taken (Some ''b'') log @ pending ns_in r' (Some ''b'') = [[[3]]]"
proof -
  obtain r0 where r0: "receiver_new (net_zmq relay_net) 1 0 (Some [''a'', ''b'']) SUB IndividualMode = Ok r0"
    by (simp add: receiver_new_def)
  have d: "distinct [''a'', ''b'']" by simp
  have "receiver_inv (set_forwarder_config r0 relay_config)"
    using new_idle(1) [OF r0 d, of relay_config] lhm_ok_void by (simp add: idle_def receiver_inv_def)
  then obtain res out r' where l: "listen demo_ext (net_zmq relay_net) None None (set_forwarder_config r0 relay_config) demo_env
        [demo_turn, demo_turn, demo_turn] = Some (res, out, r')"
    using listen_counts by blast
  have "\<forall>ep \<in> set [''a'', ''b'']. \<forall>ps \<in> set (relay_net ep). ps \<noteq> []"
      "\<forall>i \<in> set [demo_turn, demo_turn, demo_turn]. li_commands i = []"
    by (simp_all add: relay_net_def demo_turn_def)
  from relay_exact [OF r0 d this l] obtain log f where "rv_forwarder r' = Some f"
      "multipart [] (ns_out (sd_socket f)) = map snd log"
      "\<forall>ep \<in> set [''a'', ''b'']. taken (Some ep) log @ pending ns_in r' (Some ep) = relay_net ep"
    by blast
  with r0 l show ?thesis by (auto simp: relay_net_def)
qed

subsection \<open>A stream over a relay\<close>

definition quiet :: "listen_input \<Rightarrow> bool" where
  "quiet i \<longleftrightarrow> \<not> li_interrupted i \<and> li_commands i = []"

lemma listening_on_fields:
  "rv_sockets r' = rv_sockets r \<Longrightarrow> rv_endpoints r' = rv_endpoints r \<Longrightarrow> rv_raw r' = rv_raw r
   \<Longrightarrow> listening_on waiting ep ms r' = listening_on waiting ep ms r"
  by (simp add: listening_on_def)

context message_source
begin

text \<open>Messages that parse are all taken by a loop that is left alone, delivered or not.\<close>

lemma loop_takes_all:
  assumes "listening_on waiting ep (map fst xs) r" and "cache_sound L False H E (rv_header_buffer r)"
    and "\<forall>x \<in> set xs. parses_to L H E ep x" and "length is = length xs" and "\<forall>i \<in> set is. quiet i"
  shows "\<exists>out r'. listen_loop L z None r is = Some (out, Continue, r') \<and> listening_on waiting ep [] r'"
  using assms
proof (induction xs arbitrary: r "is")
  case Nil
  then show ?case by simp
next
  case (Cons x xs)
  obtain ps m0 where x: "x = (ps, m0)" by (cases x)
  obtain i is' where i: "is = i # is'" "quiet i" using Cons.prems(4,5) by (cases "is") auto
  obtain c0 where p: "well_hashed L False H E ps (Some ep)" "parse_message L ps (Some ep) lhm_void False = (Ok m0, c0)"
    using Cons.prems(3) by (auto simp: x parses_to_def)
  have li: "listening_on waiting ep (ps # map fst xs) r" using Cons.prems(1) by (simp add: x)
  obtain y r1 where r1: "receive L z (li_sim i) r = (y, r1)" "y \<noteq> Panic" "listening_on waiting ep (map fst xs) r1"
      "cache_sound L False H E (rv_header_buffer r1)"
    using receive_checks [OF li Cons.prems(2) p, of "li_sim i"] by (auto split: if_splits)
  obtain o1 r2 where d: "deliver r1 y = (o1, r2)" by (cases "deliver r1 y")
  have r2: "listening_on waiting ep (map fst xs) r2" "cache_sound L False H E (rv_header_buffer r2)"
    using d r1(3,4) by (auto simp: deliver_def listening_on_def split: res.splits option.splits)
  have st: "listen_step L z None r i = Some (o1, Continue, r2)"
    using r1(1,2) d i(2) by (cases y) (simp_all add: listen_step_def quiet_def)
  obtain out r' where "listen_loop L z None r2 is' = Some (out, Continue, r')" "listening_on waiting ep [] r'"
    using Cons.IH [OF r2, of is'] Cons.prems(3-5) i(1) by auto
  with st show ?case by (simp add: i(1))
qed

end

lemma opened_listening:
  assumes "opened net [ep] r" and "rv_endpoints r = [ep]" and "\<not> rv_raw r"
  shows "listening_on ns_in ep (net ep) r" "cache_sound L raw H E (rv_header_buffer r)"
proof -
  show "listening_on ns_in ep (net ep) r" using assms by (auto simp: opened_def listening_on_def)
  have "lhm_ok (rv_header_buffer r)" using assms(1) by (simp add: opened_def lhm_ok_def keys_agree_def)
  then show "cache_sound L raw H E (rv_header_buffer r)"
    using assms(1) by (simp add: opened_def cache_sound_def lhm_get_def)
qed

lemma parses_to_frames: "parses_to L H E ep x \<Longrightarrow> fst x \<noteq> []"
  by (auto simp: parses_to_def parse_message_def parse_body_def split: prod.splits)

text \<open>
  A relay that is left alone for as many iterations as messages wait has passed all of them
  on, and is still listening.
\<close>

lemma relay_passes_all:
  assumes "receiver_new (net_zmq net) index counter (Some [ep]) st IndividualMode = Ok r0"
    and "net ep = map fst xs" and "\<forall>x \<in> set xs. parses_to L H E ep x"
    and "length is = length xs" and "\<forall>i \<in> set is. quiet i"
  shows "\<exists>out r' f. listen L (net_zmq net) app None (set_forwarder_config r0 cfg) env is = Some (None, out, r')
    \<and> rv_forwarder r' = Some f \<and> multipart [] (ns_out (sd_socket f)) = net ep"
proof -
  let ?r = "set_forwarder_config r0 cfg"
  note i = new_idle [OF assms(1), of cfg, simplified]
  obtain r1 f1 where b: "listen_begin (net_zmq net) app env ?r = Some (Ok (), r1)" "opened net [ep] r1"
      "rv_forwarder r1 = Some f1" "ns_out (sd_socket f1) = []" "rv_endpoints r1 = [ep]" "\<not> rv_raw r1"
    using net_listen_begin [OF i(1), of net app env] i(2-4) by auto
  have "listening_on ns_in ep (map fst xs) r1" "cache_sound L False H E (rv_header_buffer r1)"
    using opened_listening [OF b(2,5,6)] assms(2) by simp_all
  from net.loop_takes_all [OF this assms(3-5)] obtain out r2 where l: "listen_loop L (net_zmq net) None r1 is = Some (out, Continue, r2)"
      "listening_on ns_in ep [] r2"
    by blast
  have "\<forall>i \<in> set is. li_commands i = []" using assms(5) by (simp add: quiet_def)
  then obtain log where log: "relayed ns_in ns_out log r1 r2" using net.listen_loop_relays [OF l(1)] by blast
  obtain f2 where f2: "rv_forwarder r2 = Some f2"
      "ns_out (sd_socket f2) = concat (map (forward_frames (flags_last f1) (flags_more f1)) (map snd log))"
    using log b(3,4) by (auto simp: relayed_def rel_option_iff split: option.splits)
  have pd: "taken e log @ pending ns_in r2 e = pending ns_in r1 e" for e using log by (simp add: relayed_def)
  have "pending ns_in r2 (Some ep) = []" using l(2) by (auto simp: listening_on_def pending_def)
  then have tk: "taken (Some ep) log = net ep" "e \<noteq> Some ep \<Longrightarrow> taken e log = []" for e
    using pd [of "Some ep"] pd [of e] opened_pending [OF b(2)] by (cases e; simp)+
  have "map snd log = taken (Some ep) log"
  proof -
    have "fst x = Some ep" if "x \<in> set log" for x using taken_member [OF that] tk(2) by blast
    then show ?thesis unfolding taken_def by (simp add: filter_True)
  qed
  then have s: "map snd log = net ep" by (simp add: tk(1))
  have "\<forall>ps \<in> set (map snd log). ps \<noteq> []" unfolding s using assms(2,3) parses_to_frames by fastforce
  then have "multipart [] (ns_out (sd_socket f2)) = map snd log"
    unfolding f2(2) using flags_bits [of f1] by (intro multipart_forwards) (simp_all add: SNDMORE_def)
  then show ?thesis using b(1) l(1) f2(1) s by (auto simp: listen_def)
qed

text \<open>
  C4. A stream over a relay.  What a sender sends is relayed by a new receiver with a
  forwarder, which listens on and is not told to stop, whatever that receiver's clock says and
  its own checks refuse; behind the relay is the same
  sequence of messages as before it, so that a receiver connected to the relay, with any
  sound header cache and checks that let the ids through, receives every message in order with the id, time and values sent.
\<close>

theorem stream_relayed:
  assumes "byteorder_ok L" and "json_num_ok L" and "chs \<noteq> []" and "distinct (map ch_name chs)"
    and "header_ready L chs htext s" and "\<forall>x \<in> set items. list_all2 (sendable L) chs (snd x)"
    and "\<forall>i < length items. \<exists>text. json_map_ok L (sent_header L s (fst (items ! i)) (id_from (sd_pulse_id s) i)) text"
    and "uint (sd_pulse_id s) + int (length items) \<le> 2 ^ 63" and "sd_socket s = []"
    and "send_all L chs s items = (rs, s')" and "via \<in> E" and "ep \<in> E" and "hash_md5 L (sd_buffer s) \<notin> E"
    and "H (hash_md5 L (sd_buffer s)) = Some (create_data_header L chs)"
    and "net via = multipart [] (sd_socket s')"
    and "receiver_new (net_zmq net) index counter (Some [via]) st IndividualMode = Ok r0"
    and "length is = length items" and "\<forall>i \<in> set is. quiet i"
  shows "rs = map (\<lambda>i. Ok (id_from (sd_pulse_id s) i)) [0..<length items]
    \<and> (\<exists>out r' f. listen L (net_zmq net) app None (set_forwarder_config r0 cfg) env is = Some (None, out, r')
    \<and> rv_forwarder r' = Some f \<and> multipart [] (ns_out (sd_socket f)) = multipart [] (sd_socket s')
    \<and> (\<forall>r sims. listening ep (multipart [] (ns_out (sd_socket f))) r \<and> cache_sound L False H E (rv_header_buffer r)
        \<and> length sims = length items
        \<and> (\<forall>i < length items. id_limits (rv_check_mask r) (sims ! i) (rv_id_buffer r ep) (id_from (sd_pulse_id s) i)) \<longrightarrow>
        (\<exists>ms r2. receive_all L feed_zmq sims r = (map (\<lambda>m. Ok \<lparr>rm_endpoint = Some ep, rm_message = m\<rparr>) ms, r2)
          \<and> length ms = length items \<and> error_count r2 = error_count r
          \<and> (\<forall>i < length items. delivered chs (fst (items ! i)) (id_from (sd_pulse_id s) i) (snd (items ! i)) (ms ! i)))))"
proof -
  let ?p = "sd_pulse_id s" and ?n = "length items"
  obtain xs where x: "rs = map (\<lambda>i. Ok (id_from ?p i)) [0..<?n]" "multipart [] (sd_socket s') = map fst xs" "length xs = ?n" "\<forall>x \<in> set xs. parses_to L H E via x"
    using send_all_frames [where H = H, OF assms(1-4,11,5-8,13,14)] assms(9,10) by auto
  obtain ys where y: "multipart [] (sd_socket s') = map fst ys" "length ys = ?n" "\<forall>x \<in> set ys. parses_to L H E ep x"
      "\<forall>i < ?n. delivered chs (fst (items ! i)) (id_from ?p i) (snd (items ! i)) (snd (ys ! i))"
    using send_all_frames [where H = H, OF assms(1-4,12,5-8,13,14)] assms(9,10) by auto
  from relay_passes_all [OF assms(16) _ x(4) _ assms(18), of app cfg env] assms(15,17) x(2,3)
  obtain out r' f where r: "listen L (net_zmq net) app None (set_forwarder_config r0 cfg) env is = Some (None, out, r')"
      "rv_forwarder r' = Some f" "multipart [] (ns_out (sd_socket f)) = multipart [] (sd_socket s')"
    by auto
  have "\<exists>ms r2. receive_all L feed_zmq sims r = (map (\<lambda>m. Ok \<lparr>rm_endpoint = Some ep, rm_message = m\<rparr>) ms, r2)
          \<and> length ms = ?n \<and> error_count r2 = error_count r
          \<and> (\<forall>i < ?n. delivered chs (fst (items ! i)) (id_from ?p i) (snd (items ! i)) (ms ! i))"
    if h: "listening ep (multipart [] (ns_out (sd_socket f))) r" "cache_sound L False H E (rv_header_buffer r)" "length sims = ?n"
      "\<forall>i < ?n. id_limits (rv_check_mask r) (sims ! i) (rv_id_buffer r ep) (id_from ?p i)" for r sims
  proof -
    have "listening_on (\<lambda>s. s) ep (map fst ys) r" using h(1) by (simp add: listening_feed r(3) y(1))
    from feed.source_delivers [OF this h(2) y(3), of ?p chs items sims] assms(8) h(3,4) y(2,4) show ?thesis by auto
  qed
  with r x(1) show ?thesis by blast
qed

theorem stream_relayed_witness:
  "\<exists>s' r0 out r' f ms r2. send_all str_ext [wit_ch] str_sender str_items = ([Ok 7, Ok 8], s')
    \<and> receiver_new (net_zmq (\<lambda>_. multipart [] (sd_socket s'))) 1 0 (Some [''hop'']) SUB IndividualMode = Ok r0
    \<and> listen str_ext (net_zmq (\<lambda>_. multipart [] (sd_socket s'))) None None (set_forwarder_config r0 relay_config) demo_env
        [demo_turn, demo_turn] = Some (None, out, r')
    \<and> rv_forwarder r' = Some f
    \<and> receive_all str_ext feed_zmq str_sims (str_receiver (multipart [] (ns_out (sd_socket f))))
      = (map (\<lambda>m. Ok \<lparr>rm_endpoint = Some ''tcp'', rm_message = m\<rparr>) ms, r2)
    \<and> map m_id ms = [7, 8]
    \<and> map (\<lambda>m. message_channel_value m ''a'') ms = [Some (AU8 [5, 6]), Some (AU8 [7, 8])]"
proof -
  obtain rs s' where s: "send_all str_ext [wit_ch] str_sender str_items = (rs, s')"
    by (cases "send_all str_ext [wit_ch] str_sender str_items")
  let ?E = "{''tcp'', ''hop''}" and ?net = "\<lambda>_::string. multipart [] (sd_socket s')"
  have E: "''hop'' \<in> ?E" "''tcp'' \<in> ?E" by simp_all
  obtain r0 where r0: "receiver_new (net_zmq ?net) 1 0 (Some [''hop'']) SUB IndividualMode = Ok r0"
    by (simp add: receiver_new_def)
  have q: "length [demo_turn, demo_turn] = length str_items" "\<forall>i \<in> set [demo_turn, demo_turn]. quiet i"
    by (simp_all add: str_items_def quiet_def demo_turn_def)
  note relay = stream_relayed [where H = str_headers and net = ?net, OF str_laws str_sending(1,2) str_ready str_sending(3-5)
      str_sender_fields(2) s E str_md5_free str_sending(6) refl r0 q, of None relay_config demo_env]
  then obtain out r' f where r': "listen str_ext (net_zmq ?net) None None (set_forwarder_config r0 relay_config) demo_env
        [demo_turn, demo_turn] = Some (None, out, r')" "rv_forwarder r' = Some f"
      "\<exists>ms r2. receive_all str_ext feed_zmq str_sims (str_receiver (multipart [] (ns_out (sd_socket f))))
          = (map (\<lambda>m. Ok \<lparr>rm_endpoint = Some ''tcp'', rm_message = m\<rparr>) ms, r2)
        \<and> length ms = length str_items
        \<and> (\<forall>i < length str_items. delivered [wit_ch] (fst (str_items ! i)) (id_from (sd_pulse_id str_sender) i) (snd (str_items ! i)) (ms ! i))"
    using str_receiving(1-3,6) by blast
  moreover have "rs = [Ok 7, Ok 8]"
    using relay by (simp add: str_sender_fields str_items_def str_ids upt_rec)
  ultimately show ?thesis using s r0 str_values by blast
qed

end
