(* ===== verification/Bs_Delivery.thy ===== *)
theory Bs_Delivery
  imports Bs_Network
begin

section \<open>From a sender to the consumer of a buffered receiver (src/src/sender.rs, src/src/receiver.rs)\<close>

text \<open>
  The whole way of a message through the interface of the crate: \<open>send\<close>, the network,
  \<open>start\<close> with the thread it forks (connect, receive, check, queue), and \<open>wait_messages\<close>.
\<close>

subsection \<open>The queue\<close>

definition queue_all :: "'a fifo \<Rightarrow> 'a list \<Rightarrow> 'a fifo" where
  "queue_all q xs = fold (\<lambda>x q. fifo_add q x) xs q"

lemma queue_all_simps [simp]: "queue_all q [] = q" "queue_all q (x # xs) = queue_all (fifo_add q x) xs"
  by (simp_all add: queue_all_def)

lemma queue_all_items:
  assumes "0 < n"
  shows "fq_queue (queue_all (fifo_new n) xs) = drop (length xs - n) xs"
  using fq.items_fold [of "fifo_new n" xs] assms by (simp add: queue_all_def fifo_new_def lru_limit_def)

lemma queue_all_dropped:
  "fq_max q = n \<Longrightarrow> 0 < n \<Longrightarrow> length (fq_queue q) \<le> n \<Longrightarrow>
   fq_dropped (queue_all q xs) = fq_dropped q + word_of_nat (length (fq_queue q) + length xs - n)"
proof (induction xs arbitrary: q)
  case (Cons x xs)
  show ?case
  proof (cases "n \<le> length (fq_queue q)")
    case True
    with Cons.prems have "length (fq_queue q) = n" "fq_queue q \<noteq> []" by auto
    with Cons.prems have "length (fq_queue (fifo_add q x)) = n" "fq_dropped (fifo_add q x) = fq_dropped q + 1"
      by (simp_all add: fifo_add_def)
    with Cons.IH [of "fifo_add q x"] Cons.prems \<open>length (fq_queue q) = n\<close> show ?thesis by simp
  next
    case False
    then have "length (fq_queue (fifo_add q x)) = Suc (length (fq_queue q))" "fq_dropped (fifo_add q x) = fq_dropped q"
      using Cons.prems by (simp_all add: fifo_add_def)
    with Cons.IH [of "fifo_add q x"] Cons.prems False show ?thesis by simp
  qed
qed simp

text \<open>Waits on a queue that holds enough do not wait: no other thread and no time-out matters.\<close>

lemma wait_messages_drain:
  "rv_fifo r = Some q \<Longrightarrow> length ws = length (fq_queue q) \<Longrightarrow>
   wait_messages r ws = (Ok (fq_queue q), r\<lparr>rv_fifo := Some (q\<lparr>fq_queue := []\<rparr>)\<rparr>)"
proof (induction "fq_queue q" arbitrary: r q ws)
  case Nil
  then have "q = q\<lparr>fq_queue := []\<rparr>" by simp
  with Nil have "r\<lparr>rv_fifo := Some (q\<lparr>fq_queue := []\<rparr>)\<rparr> = r" by (metis receiver.surjective receiver.update_convs(8))
  with Nil show ?case by simp
next
  case (Cons m ms)
  then have q: "fq_queue q = m # ms" by simp
  with Cons.prems(2) obtain w ws' where w: "ws = w # ws'" "length ws' = length ms" by (cases ws) auto
  obtain env t where e: "w = (env, t)" by (cases w)
  have "rv_wait r env t = (Ok m, r\<lparr>rv_fifo := Some (q\<lparr>fq_queue := ms\<rparr>)\<rparr>)"
    using Cons.prems(1) by (simp add: rv_wait_def fifo_wait_def fifo_get_def q)
  moreover have "wait_messages (r\<lparr>rv_fifo := Some (q\<lparr>fq_queue := ms\<rparr>)\<rparr>) ws'
      = (Ok ms, r\<lparr>rv_fifo := Some (q\<lparr>fq_queue := []\<rparr>)\<rparr>)"
    using Cons(1) [of "q\<lparr>fq_queue := ms\<rparr>" "r\<lparr>rv_fifo := Some (q\<lparr>fq_queue := ms\<rparr>)\<rparr>" ws'] w(2) by simp
  ultimately show ?case by (simp add: w(1) e q)
qed

subsection \<open>The thread\<close>

context message_source
begin

text \<open>Messages that parse and whose ids pass are all queued, in order.\<close>

lemma loop_queues_all:
  assumes "listening_on waiting ep (map fst xs) r" and "cache_sound L False H E (rv_header_buffer r)"
    and "\<forall>x \<in> set xs. parses_to L H E ep x" and "sorted_wrt (<) (map (m_id \<circ> snd) xs)"
    and "list_all2 (\<lambda>i x. quiet i \<and> id_limits (rv_check_mask r) (li_sim i) (rv_id_buffer r ep) (m_id (snd x))) is xs"
    and "rv_fifo r = Some q"
  shows "\<exists>ms r'. listen_loop L z None r is = Some ([], Continue, r')
    \<and> map strip_changed ms = map (strip_changed \<circ> snd) xs
    \<and> rv_fifo r' = Some (queue_all q (map (\<lambda>m. \<lparr>rm_endpoint = Some ep, rm_message = m\<rparr>) ms))
    \<and> message_count r' = message_count r + word_of_nat (length xs) \<and> error_count r' = error_count r"
  using assms
proof (induction xs arbitrary: r "is" q)
  case Nil
  then show ?case by simp
next
  case (Cons x xs)
  obtain ps m0 where x: "x = (ps, m0)" by (cases x)
  obtain i is' where i: "is = i # is'" "quiet i" "id_limits (rv_check_mask r) (li_sim i) (rv_id_buffer r ep) (m_id m0)"
      "list_all2 (\<lambda>i x. quiet i \<and> id_limits (rv_check_mask r) (li_sim i) (rv_id_buffer r ep) (m_id (snd x))) is' xs"
    using Cons.prems(5) by (auto simp: x list_all2_Cons2)
  obtain c0 where p: "well_hashed L False H E ps (Some ep)" "parse_message L ps (Some ep) lhm_void False = (Ok m0, c0)"
    using Cons.prems(3) by (auto simp: x parses_to_def)
  have li: "listening_on waiting ep (ps # map fst xs) r" using Cons.prems(1) by (simp add: x)
  obtain m r1 where r1: "receive L z (li_sim i) r = (Ok \<lparr>rm_endpoint = Some ep, rm_message = m\<rparr>, r1)"
      "strip_changed m = strip_changed m0" "listening_on waiting ep (map fst xs) r1" "cache_sound L False H E (rv_header_buffer r1)"
      "rv_check_mask r1 = rv_check_mask r" "rv_id_buffer r1 ep \<in> {rv_id_buffer r ep, Some (m_id m0)}"
      "message_count r1 = message_count r + 1" "error_count r1 = error_count r"
    using receive_delivers [OF li Cons.prems(2) p i(3)] by blast
  let ?rm = "\<lparr>rm_endpoint = Some ep, rm_message = m\<rparr>"
  let ?r2 = "r1\<lparr>rv_fifo := Some (fifo_add q ?rm)\<rparr>"
  have st: "listen_step L z None r i = Some ([], Continue, ?r2)"
    using r1(1) i(2) Cons.prems(6) receive_frame(2) [OF r1(1)]
    by (simp add: listen_step_def deliver_def quiet_def)
  have later: "\<forall>x \<in> set xs. m_id m0 < m_id (snd x)" using Cons.prems(4) by (simp add: x)
  have h: "listening_on waiting ep (map fst xs) ?r2" "cache_sound L False H E (rv_header_buffer ?r2)"
      "\<forall>x \<in> set xs. parses_to L H E ep x" "sorted_wrt (<) (map (m_id \<circ> snd) xs)" "rv_fifo ?r2 = Some (fifo_add q ?rm)"
    using r1(3,4) Cons.prems(3,4) by (simp_all add: listening_on_def comp_def)
  have "rv_check_mask ?r2 = rv_check_mask r" "rv_id_buffer ?r2 ep \<in> {rv_id_buffer r ep, Some (m_id m0)}"
    using r1(5,6) by simp_all
  then have "list_all2 (\<lambda>i x. quiet i \<and> id_limits (rv_check_mask ?r2) (li_sim i) (rv_id_buffer ?r2 ep) (m_id (snd x))) is' xs"
    using later by (intro list.rel_mono_strong [OF i(4)]) (metis id_limits_later)
  from Cons.IH [OF h(1-4) this h(5)] obtain ms r' where "listen_loop L z None ?r2 is' = Some ([], Continue, r')"
      "map strip_changed ms = map (strip_changed \<circ> snd) xs"
      "rv_fifo r' = Some (queue_all (fifo_add q ?rm) (map (\<lambda>m. \<lparr>rm_endpoint = Some ep, rm_message = m\<rparr>) ms))"
      "message_count r' = message_count ?r2 + word_of_nat (length xs)" "error_count r' = error_count ?r2"
    by blast
  then show ?case
    using r1(2,7,8) st by (intro exI [of _ "m # ms"] exI [of _ r']) (simp add: i(1) x message_count_def error_count_def)
qed

end

subsection \<open>The whole way\<close>

lemma thread_idle:
  assumes "rv_start outer k = (Ok (), outer')"
    and "listen_task_receiver z index counter (handed_over outer outer') = Ok r"
    and "rv_connection_mode outer = IndividualMode" and "\<not> rv_monitored outer" and "distinct (rv_endpoints outer)"
  shows "idle r" "rv_endpoints r = rv_endpoints outer" "rv_raw r = rv_raw outer" "rv_fifo r = Some (fifo_new k)"
    "rv_check_mask r = CHECK_ALL" "rv_id_buffer r = Map.empty"
  using assms by (auto simp: rv_start_def reset_counters_def listen_task_receiver_def forked_receiver_def receiver_new_def
      handed_over_def idle_def split: if_splits)

text \<open>
  C3. From a sender to the consumer.  What a sender sends with simulated ids, which a new
  receiver's checks let through, reaches the consumer of a receiver started in buffered mode
  on one endpoint: after as many iterations as messages, none of them interrupted, the thread has connected, received
  every message and refused none, and is still listening; the counters tell their number;
  waiting for as many messages as the queue then holds returns, without waiting, the newest \<open>k\<close> messages in order, with the ids, times and values
  sent, and the number of the older ones is what \<open>dropped\<close> tells (modulo \<open>2 ^ 32\<close>).
\<close>

theorem sent_is_consumed:
  assumes "byteorder_ok L" and "json_num_ok L" and "chs \<noteq> []" and "distinct (map ch_name chs)"
    and "header_ready L chs htext s" and "\<forall>x \<in> set items. list_all2 (sendable L) chs (snd x)"
    and "\<forall>i < length items. \<exists>text. json_map_ok L (sent_header L s (fst (items ! i)) (id_from (sd_pulse_id s) i)) text"
    and "uint (sd_pulse_id s) + int (length items) \<le> 2 ^ 63" and "sd_socket s = []"
    and "send_all L chs s items = (rs, s')" and "ep \<in> E" and "hash_md5 L (sd_buffer s) \<notin> E"
    and "H (hash_md5 L (sd_buffer s)) = Some (create_data_header L chs)"
    and "net ep = multipart [] (sd_socket s')"
    and "rv_endpoints outer = [ep]" and "rv_connection_mode outer = IndividualMode" and "\<not> rv_monitored outer"
    and "\<not> rv_raw outer" and "rv_start outer k = (Ok (), outer')" and "0 < k"
    and "listen_task_receiver (net_zmq net) index counter (handed_over outer outer') = Ok r"
    and "length is = length items"
    and "\<forall>i < length items. quiet (is ! i) \<and> id_limits CHECK_ALL (li_sim (is ! i)) None (id_from (sd_pulse_id s) i)"
    and "length ws = min k (length items)"
  shows "\<exists>r'. listen L (net_zmq net) app None r env is = Some (None, [], r')
    \<and> message_count r' = word_of_nat (length items) \<and> error_count r' = 0
    \<and> rv_dropped r' = word_of_nat (length items - k)
    \<and> (\<exists>ms r2. wait_messages (outer'\<lparr>rv_fifo := rv_fifo r'\<rparr>) ws
          = (Ok (map (\<lambda>m. \<lparr>rm_endpoint = Some ep, rm_message = m\<rparr>) ms), r2)
        \<and> length ms = min k (length items)
        \<and> (\<forall>j < length ms. let i = length items - k + j in
             delivered chs (fst (items ! i)) (id_from (sd_pulse_id s) i) (snd (items ! i)) (ms ! j)))"
proof -
  let ?p = "sd_pulse_id s" and ?n = "length items" and ?mk = "\<lambda>m. \<lparr>rm_endpoint = Some ep, rm_message = m\<rparr>"
  obtain xs where x: "net ep = map fst xs" "length xs = ?n" "\<forall>x \<in> set xs. parses_to L H E ep x"
      "\<forall>i < ?n. delivered chs (fst (items ! i)) (id_from ?p i) (snd (items ! i)) (snd (xs ! i))"
    using send_all_frames [where H = H, OF assms(1-4,11,5-8,12,13)] assms(9,10,14) by auto
  have ids: "m_id (snd (xs ! i)) = id_from ?p i" if "i < ?n" for i
    using x(4) that by (simp add: delivered_def)
  have inc: "sorted_wrt (<) (map (m_id \<circ> snd) xs)"
    using id_from_less [OF _ _ assms(8)] by (simp add: sorted_wrt_iff_nth_less x(2) ids)
  have d: "distinct (rv_endpoints outer)" using assms(15) by simp
  note t = thread_idle [OF assms(19,21,16,17) d]
  obtain r1 where b: "listen_begin (net_zmq net) app env r = Some (Ok (), r1)" "opened net [ep] r1" "rv_endpoints r1 = [ep]"
      "\<not> rv_raw r1" "rv_check_mask r1 = CHECK_ALL" "rv_id_buffer r1 = Map.empty" "rv_fifo r1 = Some (fifo_new k)"
      "rv_stats r1 = stats_reset (rv_stats r)"
    using net_listen_begin [OF t(1), of net app env] t(2-6) assms(15,18) by auto
  have c: "message_count r1 = 0" "error_count r1 = 0"
    using b(8) by (simp_all add: message_count_def error_count_def stats_reset_def)
  have lim: "list_all2 (\<lambda>i x. quiet i \<and> id_limits (rv_check_mask r1) (li_sim i) (rv_id_buffer r1 ep) (m_id (snd x))) is xs"
    using assms(22,23) b(5,6) by (simp add: list_all2_conv_all_nth x(2) ids)
  have li: "listening_on ns_in ep (map fst xs) r1" "cache_sound L False H E (rv_header_buffer r1)"
    using opened_listening [OF b(2-4)] x(1) by simp_all
  obtain ms r2 where l: "listen_loop L (net_zmq net) None r1 is = Some ([], Continue, r2)"
      "map strip_changed ms = map (strip_changed \<circ> snd) xs" "rv_fifo r2 = Some (queue_all (fifo_new k) (map ?mk ms))"
      "message_count r2 = word_of_nat ?n" "error_count r2 = 0"
    using net.loop_queues_all [OF li x(3) inc lim b(7), of net] c x(2) by auto
  let ?ms = "drop (?n - k) ms"
  have len: "length ms = ?n" using map_eq_imp_length_eq [OF l(2)] x(2) by simp
  let ?q = "queue_all (fifo_new k) (map ?mk ms)"
  have q: "fq_queue ?q = map ?mk ?ms" using queue_all_items [OF assms(20), of "map ?mk ms"] len by (simp add: drop_map)
  have "fq_dropped ?q = word_of_nat (?n - k)"
    using queue_all_dropped [of "fifo_new k" k "map ?mk ms"] assms(20) len by (simp add: fifo_new_def)
  then have dr: "rv_dropped r2 = word_of_nat (?n - k)"
    by (simp add: rv_dropped_def l(3) fifo_dropped_count_def)
  have "length ws = length (fq_queue ?q)" using assms(24) len by (simp add: q)
  then have w: "fst (wait_messages (outer'\<lparr>rv_fifo := rv_fifo r2\<rparr>) ws) = Ok (map ?mk ?ms)"
    using wait_messages_drain [of "outer'\<lparr>rv_fifo := rv_fifo r2\<rparr>" ?q ws] by (simp add: l(3) q)
  have "delivered chs (fst (items ! i)) (id_from ?p i) (snd (items ! i)) (ms ! i)" if "i < ?n" for i
  proof -
    have "strip_changed (ms ! i) = strip_changed (snd (xs ! i))"
      using arg_cong [OF l(2), of "\<lambda>ys. ys ! i"] that by (simp add: len x(2))
    then show ?thesis using x(4) that delivered_strip by blast
  qed
  then have "\<forall>j < length ?ms. let i = ?n - k + j in
      delivered chs (fst (items ! i)) (id_from ?p i) (snd (items ! i)) (?ms ! j)"
    by (simp add: len Let_def)
  moreover have "listen L (net_zmq net) app None r env is = Some (None, [], r2)"
    using b(1) l(1) by (simp add: listen_def)
  moreover note l(4,5)
  moreover have "length ?ms = min k ?n" using len by simp
  ultimately show ?thesis using dr w by (metis prod.collapse)
qed

text \<open>Two messages for a queue of one: the second is consumed, the first counts as dropped.\<close>

theorem sent_is_consumed_witness:
  "\<exists>s' outer outer' r r' m r2. send_all str_ext [wit_ch] str_sender str_items = ([Ok 7, Ok 8], s')
    \<and> receiver_new (net_zmq (\<lambda>_. multipart [] (sd_socket s'))) 1 0 (Some [''tcp'']) SUB IndividualMode = Ok outer
    \<and> rv_start outer 1 = (Ok (), outer')
    \<and> listen_task_receiver (net_zmq (\<lambda>_. multipart [] (sd_socket s'))) 2 0 (handed_over outer outer') = Ok r
    \<and> listen str_ext (net_zmq (\<lambda>_. multipart [] (sd_socket s'))) None None r demo_env [demo_turn, demo_turn] = Some (None, [], r')
    \<and> message_count r' = 2 \<and> rv_dropped r' = 1
    \<and> wait_messages (outer'\<lparr>rv_fifo := rv_fifo r'\<rparr>) [(\<lambda>q. q, True)] = (Ok [\<lparr>rm_endpoint = Some ''tcp'', rm_message = m\<rparr>], r2)
    \<and> m_id m = 8 \<and> message_channel_value m ''a'' = Some (AU8 [7, 8])"
proof -
  obtain rs s' where s: "send_all str_ext [wit_ch] str_sender str_items = (rs, s')"
    by (cases "send_all str_ext [wit_ch] str_sender str_items")
  let ?E = "{''tcp'', ''hop''}" and ?net = "\<lambda>_::string. multipart [] (sd_socket s')" and ?is = "[demo_turn, demo_turn]"
  have E: "''tcp'' \<in> ?E" by simp
  have rs: "rs = [Ok 7, Ok 8]"
    using send_all_frames [where H = str_headers and E = ?E, OF str_laws str_sending(1,2) E str_ready str_sending(3-5) str_md5_free str_sending(6)] s
    by (auto simp: str_sender_fields str_items_def str_ids upt_rec)
  obtain outer where ou: "receiver_new (net_zmq ?net) 1 0 (Some [''tcp'']) SUB IndividualMode = Ok outer"
    by (simp add: receiver_new_def)
  then have f: "rv_endpoints outer = [''tcp'']" "rv_connection_mode outer = IndividualMode" "\<not> rv_monitored outer"
      "\<not> rv_raw outer" "rv_fifo outer = None"
    by (auto simp: receiver_new_def)
  then obtain outer' where st: "rv_start outer 1 = (Ok (), outer')" by (simp add: rv_start_def)
  then have "rv_connection_mode outer' = IndividualMode" using f(2) by (auto simp: rv_start_def reset_counters_def f(5))
  then obtain r where r: "listen_task_receiver (net_zmq ?net) 2 0 (handed_over outer outer') = Ok r"
    by (auto simp: listen_task_receiver_def receiver_new_def)
  have q: "length ?is = length str_items" "length [(\<lambda>q. q :: received_message fifo, True)] = min 1 (length str_items)"
      "(0 :: nat) < 1"
    by (simp_all add: str_items_def)
  have lim: "\<forall>i < length str_items. quiet (?is ! i) \<and> id_limits CHECK_ALL (li_sim (?is ! i)) None (id_from (sd_pulse_id str_sender) i)"
    unfolding str_all str_sender_fields
    by (simp add: str_ids demo_turn_def quiet_def id_limits_def)
  from sent_is_consumed [where H = str_headers and net = ?net, OF str_laws str_sending(1,2) str_ready str_sending(3-5)
      str_sender_fields(2) s E str_md5_free str_sending(6) refl f(1-4) st q(3) r q(1) lim q(2), of None demo_env]
  obtain r' ms r2 where o: "listen str_ext (net_zmq ?net) None None r demo_env ?is = Some (None, [], r')"
      "message_count r' = word_of_nat (length str_items)" "rv_dropped r' = word_of_nat (length str_items - 1)"
      "wait_messages (outer'\<lparr>rv_fifo := rv_fifo r'\<rparr>) [(\<lambda>q. q, True)]
         = (Ok (map (\<lambda>m. \<lparr>rm_endpoint = Some ''tcp'', rm_message = m\<rparr>) ms), r2)"
      "length ms = min 1 (length str_items)"
      "\<forall>j < length ms. let i = length str_items - 1 + j in
         delivered [wit_ch] (fst (str_items ! i)) (id_from (sd_pulse_id str_sender) i) (snd (str_items ! i)) (ms ! j)"
    by blast
  obtain m where m: "ms = [m]" using o(5) by (auto simp: str_items_def length_Suc_conv)
  have "delivered [wit_ch] (3, 4) 8 [\<lparr>cd_value = AU8 [7, 8], cd_timestamp = (9, 9)\<rparr>] m"
    using o(6) by (simp add: m str_sender_fields str_items_def str_ids Let_def)
  from str_value [OF this] o(1-4) show ?thesis using s ou st r rs by (auto simp: m str_items_def)
qed

end
