(* ===== verification/Bs_Pool.thy ===== *)
theory Bs_Pool
  imports Bs_Supervision
begin

section \<open>The pool of receivers (src/src/pool.rs)\<close>

text \<open>
  A pool holds a fixed list of receivers and distributes endpoints over them.
  \<open>pl_commands\<close> lists what was sent to the pool's own endpoint monitor, \<open>envs\<close> gives the
  environment of each socket's registration, as in \<open>Bs_Supervision\<close>, and \<open>remote\<close> what the
  thread of a receiver (by its number) answers to a command, when it has one.
\<close>

subsection \<open>Construction\<close>

record 's pool =
  pl_socket_type :: socket_type
  pl_threads :: nat
  pl_connected :: bool
  pl_receivers :: "'s receiver list"
  pl_monitored :: bool
  pl_commands :: "monitor_command list"

text \<open>
  The receivers of a new pool, unwrapped; \<open>index\<close> and \<open>counter\<close> are the last numbers given
  to receivers and sockets.
\<close>

fun new_receivers ::
  "'s zmq \<Rightarrow> u32 \<Rightarrow> u32 \<Rightarrow> socket_type \<Rightarrow> connection_mode \<Rightarrow> nat \<Rightarrow> 's receiver list res" where
  "new_receivers z index counter st cm 0 = Ok []"
| "new_receivers z index counter st cm (Suc n) =
     res_bind (unwrap (receiver_new z (index + 1) counter None st cm)) (\<lambda>r.
     res_map ((#) r) (new_receivers z (index + 1) (rv_counter r) st cm n))"

text \<open>\<open>receivers[index].add_endpoint(endpoint)\<close>; an index out of range panics.\<close>

definition add_at ::
  "'s zmq \<Rightarrow> mon_env \<Rightarrow> 's receiver list \<Rightarrow> nat \<Rightarrow> string \<Rightarrow> (unit res \<times> 's receiver list) option" where
  "add_at z env rs i ep =
     (if i < length rs
      then map_option (\<lambda>(x, r). (x, rs[i := r])) (add_endpoint z env (\<lambda>_. Ok ()) (rs ! i) ep)
      else Some (Panic, rs))"

text \<open>The round robin of \<open>new\<close>: the outcome of each \<open>add_endpoint\<close> is ignored.\<close>

fun distribute ::
  "'s zmq \<Rightarrow> mon_env \<Rightarrow> nat \<Rightarrow> nat \<Rightarrow> 's receiver list \<Rightarrow> string list \<Rightarrow> 's receiver list res option" where
  "distribute z env threads index rs [] = Some (Ok rs)"
| "distribute z env threads index rs (ep # eps) =
     (case add_at z env rs index ep of
        None \<Rightarrow> None
      | Some (Panic, rs') \<Rightarrow> Some Panic
      | Some (_, rs') \<Rightarrow> distribute z env threads (if threads \<le> index + 1 then 0 else index + 1) rs' eps)"

definition mk_pool :: "socket_type \<Rightarrow> nat \<Rightarrow> 's receiver list \<Rightarrow> 's pool" where
  "mk_pool st threads rs = \<lparr>pl_socket_type = st, pl_threads = threads, pl_connected = False, pl_receivers = rs,
     pl_monitored = False, pl_commands = []\<rparr>"

definition pool_new ::
  "'s zmq \<Rightarrow> mon_env \<Rightarrow> u32 \<Rightarrow> u32 \<Rightarrow> string list \<Rightarrow> socket_type \<Rightarrow> nat \<Rightarrow> connection_mode \<Rightarrow> 's pool res option" where
  "pool_new z env index counter endpoints st threads cm =
     (if threads \<le> 0 then Some (Err (InvalidInput, ''Invalid number of threads''))
      else case new_receivers z index counter st cm threads of
        Ok rs \<Rightarrow> map_option (res_map (mk_pool st threads)) (distribute z env threads 0 rs endpoints)
      | Err e \<Rightarrow> Some (Err e)
      | Panic \<Rightarrow> Some Panic)"

text \<open>\<open>new_grouped\<close>: one receiver per group.\<close>

fun add_group ::
  "'s zmq \<Rightarrow> mon_env \<Rightarrow> nat \<Rightarrow> 's receiver list \<Rightarrow> string list \<Rightarrow> 's receiver list res option" where
  "add_group z env index rs [] = Some (Ok rs)"
| "add_group z env index rs (ep # eps) =
     (case add_at z env rs index ep of
        None \<Rightarrow> None
      | Some (Panic, rs') \<Rightarrow> Some Panic
      | Some (_, rs') \<Rightarrow> add_group z env index rs' eps)"

fun distribute_groups ::
  "'s zmq \<Rightarrow> mon_env \<Rightarrow> nat \<Rightarrow> nat \<Rightarrow> 's receiver list \<Rightarrow> string list list \<Rightarrow> 's receiver list res option" where
  "distribute_groups z env threads index rs [] = Some (Ok rs)"
| "distribute_groups z env threads index rs (g # gs) =
     (case add_group z env index rs g of
        Some (Ok rs') \<Rightarrow> distribute_groups z env threads (if threads \<le> index + 1 then 0 else index + 1) rs' gs
      | x \<Rightarrow> x)"

definition pool_new_grouped ::
  "'s zmq \<Rightarrow> mon_env \<Rightarrow> u32 \<Rightarrow> u32 \<Rightarrow> string list list \<Rightarrow> socket_type \<Rightarrow> connection_mode \<Rightarrow> 's pool res option" where
  "pool_new_grouped z env index counter groups st cm =
     (let threads = length groups in
      if threads = 0 then Some (Err (InvalidInput, ''Invalid configuration''))
      else case new_receivers z index counter st cm threads of
        Ok rs \<Rightarrow> map_option (res_map (mk_pool st threads)) (distribute_groups z env threads 0 rs groups)
      | Err e \<Rightarrow> Some (Err e)
      | Panic \<Rightarrow> Some Panic)"

subsection \<open>Endpoints\<close>

definition holds :: "string \<Rightarrow> 's receiver \<Rightarrow> bool" where
  "holds ep r \<longleftrightarrow> ep \<in> set (rv_endpoints r)"

text \<open>\<open>endpoint_receiver\<close>: the index of the first receiver with the endpoint.\<close>

fun find_index :: "('a \<Rightarrow> bool) \<Rightarrow> 'a list \<Rightarrow> nat option" where
  "find_index P [] = None"
| "find_index P (x # xs) = (if P x then Some 0 else map_option Suc (find_index P xs))"

definition endpoint_receiver :: "'s pool \<Rightarrow> string \<Rightarrow> nat option" where
  "endpoint_receiver p ep = find_index (holds ep) (pl_receivers p)"

definition pool_has_endpoint :: "'s pool \<Rightarrow> string \<Rightarrow> bool" where
  "pool_has_endpoint p ep \<longleftrightarrow> endpoint_receiver p ep \<noteq> None"

text \<open>\<open>min_by_key\<close>: the first index of the smallest key.\<close>

fun min_index :: "nat list \<Rightarrow> nat option" where
  "min_index [] = None"
| "min_index (k # ks) =
     (case min_index ks of
        None \<Rightarrow> Some 0
      | Some j \<Rightarrow> if k \<le> ks ! j then Some 0 else Some (Suc j))"

text \<open>
  \<open>add_endpoint\<close>.  Without an index the least loaded receiver is taken (a pool without
  receivers gives \<open>-1 as usize\<close>).  When the endpoint exists the chosen receiver is indexed
  before its index has been checked.
\<close>

definition pool_index :: "'s pool \<Rightarrow> nat option \<Rightarrow> nat" where
  "pool_index p i =
     (case i of
        Some i \<Rightarrow> i
      | None \<Rightarrow> (case min_index (map connections (pl_receivers p)) of Some i \<Rightarrow> i | None \<Rightarrow> 2 ^ 64 - 1))"

definition pool_add_endpoint ::
  "'s zmq \<Rightarrow> mon_env \<Rightarrow> (u32 \<Rightarrow> receiver_command \<Rightarrow> unit res) \<Rightarrow> 's pool \<Rightarrow> string \<Rightarrow> nat option
   \<Rightarrow> (unit res \<times> 's pool) option" where
  "pool_add_endpoint z env remote p ep i =
     (let index = pool_index p i; rs = pl_receivers p in
      case endpoint_receiver p ep of
        Some j \<Rightarrow>
          Some (if length rs \<le> index then Panic
                else if rv_index (rs ! index) = rv_index (rs ! j) then Ok ()
                else Err (InvalidInput, ''endpoint already exists''), p)
      | None \<Rightarrow>
          if length rs \<le> index then Some (Err (OtherError, ''Invalid receiver index: '' @ show_nat index), p)
          else (case add_endpoint z env (remote (rv_index (rs ! index))) (rs ! index) ep of
             None \<Rightarrow> None
           | Some (Ok _, r) \<Rightarrow>
               (if pl_monitored p
                then (case enable_shared_monitoring_socket z env r ep of
                        (_, r', cs) \<Rightarrow> Some (Ok (), p\<lparr>pl_receivers := rs[index := r'], pl_commands := pl_commands p @ cs\<rparr>))
                else Some (Ok (), p\<lparr>pl_receivers := rs[index := r]\<rparr>))
           | Some (x, r) \<Rightarrow> Some (x, p\<lparr>pl_receivers := rs[index := r]\<rparr>)))"

definition pool_remove_endpoint :: "'s zmq \<Rightarrow> 's pool \<Rightarrow> string \<Rightarrow> 's pool" where
  "pool_remove_endpoint z p ep =
     (case endpoint_receiver p ep of
        None \<Rightarrow> p
      | Some j \<Rightarrow>
          (let (r, cs) =
             (if pl_monitored p
              then (case disable_shared_monitoring_socket z (pl_receivers p ! j) ep of (_, r, cs) \<Rightarrow> (r, cs))
              else (pl_receivers p ! j, []))
           in p\<lparr>pl_receivers := (pl_receivers p)[j := remove_endpoint z r ep],
                pl_commands := pl_commands p @ cs\<rparr>))"

subsection \<open>Connections\<close>

text \<open>The loops over the receivers, with \<open>?\<close> after each step of \<open>connect\<close>.\<close>

fun connect_receivers ::
  "'s zmq \<Rightarrow> mon_env \<Rightarrow> (string option \<Rightarrow> mon_env) \<Rightarrow> (u32 \<Rightarrow> receiver_command \<Rightarrow> unit res) \<Rightarrow> bool
   \<Rightarrow> 's receiver list \<Rightarrow> (unit res \<times> 's receiver list \<times> monitor_command list) option" where
  "connect_receivers z env envs remote mon [] = Some (Ok (), [], [])"
| "connect_receivers z env envs remote mon (r # rs) =
     (case rv_connect z env (remote (rv_index r)) r of
        None \<Rightarrow> None
      | Some (Ok _, r1) \<Rightarrow>
          (case (if mon then enable_shared_monitoring z envs r1 else (Ok (), r1, [])) of
             (Ok _, r2, c) \<Rightarrow>
               map_option (\<lambda>(x, rs', cs). (x, r2 # rs', c @ cs)) (connect_receivers z env envs remote mon rs)
           | (x, r2, c) \<Rightarrow> Some (x, r2 # rs, c))
      | Some (x, r1) \<Rightarrow> Some (x, r1 # rs, []))"

definition pool_connect ::
  "'s zmq \<Rightarrow> mon_env \<Rightarrow> (string option \<Rightarrow> mon_env) \<Rightarrow> (u32 \<Rightarrow> receiver_command \<Rightarrow> unit res) \<Rightarrow> 's pool
   \<Rightarrow> (unit res \<times> 's pool) option" where
  "pool_connect z env envs remote p =
     (if pl_connected p then Some (Ok (), p)
      else map_option (\<lambda>(x, rs, cs).
             (x, p\<lparr>pl_receivers := rs, pl_commands := pl_commands p @ cs, pl_connected := (x = Ok ())\<rparr>))
           (connect_receivers z env envs remote (pl_monitored p) (pl_receivers p)))"

definition disconnect_receiver :: "'s zmq \<Rightarrow> bool \<Rightarrow> 's receiver \<Rightarrow> 's receiver \<times> monitor_command list" where
  "disconnect_receiver z mon r =
     (case (if mon then disable_shared_monitoring z r else (Ok (), r, [])) of
        (_, r1, cs) \<Rightarrow> (rv_disconnect z r1, cs))"

definition pool_disconnect :: "'s zmq \<Rightarrow> 's pool \<Rightarrow> 's pool" where
  "pool_disconnect z p =
     (if pl_connected p
      then (let ps = map (disconnect_receiver z (pl_monitored p)) (pl_receivers p)
            in p\<lparr>pl_connected := False, pl_receivers := map fst ps, pl_commands := pl_commands p @ concat (map snd ps)\<rparr>)
      else p)"

text \<open>\<open>enable_monitoring\<close> ignores the outcome of each receiver.\<close>

definition pool_enable_monitoring :: "'s zmq \<Rightarrow> (string option \<Rightarrow> mon_env) \<Rightarrow> 's pool \<Rightarrow> unit res \<times> 's pool" where
  "pool_enable_monitoring z envs p =
     (if pl_monitored p then (Ok (), p)
      else (let qs = map (enable_shared_monitoring z envs) (pl_receivers p)
            in (Ok (), p\<lparr>pl_receivers := map (fst \<circ> snd) qs, pl_commands := concat (map (snd \<circ> snd) qs),
                  pl_monitored := True\<rparr>)))"

subsection \<open>Reception\<close>

definition pool_receive :: "ext \<Rightarrow> 's zmq \<Rightarrow> u64 res \<Rightarrow> 's pool \<Rightarrow> nat \<Rightarrow> received_message res \<times> 's pool" where
  "pool_receive L z sim p i =
     (if i < length (pl_receivers p)
      then (case receive L z sim (pl_receivers p ! i) of
              (x, r) \<Rightarrow> (x, p\<lparr>pl_receivers := (pl_receivers p)[i := r]\<rparr>))
      else (Panic, p))"

definition pool_connections :: "'s pool \<Rightarrow> nat" where
  "pool_connections p = sum_list (map connections (pl_receivers p))"

definition pool_available :: "'s pool \<Rightarrow> u32" where
  "pool_available p = sum_list (map rv_available (pl_receivers p))"

definition pool_dropped :: "'s pool \<Rightarrow> u32" where
  "pool_dropped p = sum_list (map rv_dropped (pl_receivers p))"

definition pool_message_count :: "'s pool \<Rightarrow> u32" where
  "pool_message_count p = sum_list (map message_count (pl_receivers p))"

definition pool_error_count :: "'s pool \<Rightarrow> u32" where
  "pool_error_count p = sum_list (map error_count (pl_receivers p))"

definition pool_reset_counters :: "'s pool \<Rightarrow> 's pool" where
  "pool_reset_counters p = p\<lparr>pl_receivers := map reset_counters (pl_receivers p)\<rparr>"

text \<open>The diagnostics of the receivers, merged by \<open>HashMap::extend\<close>: a later receiver wins.\<close>

definition pool_diagnostics :: "'s pool \<Rightarrow> string \<Rightarrow> (endpoint_diag \<Rightarrow> u32 option) option" where
  "pool_diagnostics p = fold (\<lambda>r d. d ++ st_diagnostics (rv_stats r)) (pl_receivers p) Map.empty"

definition pool_endpoint_diagnostic :: "'s pool \<Rightarrow> string \<Rightarrow> endpoint_diag \<Rightarrow> u32 option" where
  "pool_endpoint_diagnostic p ep d =
     (case endpoint_receiver p ep of None \<Rightarrow> None | Some j \<Rightarrow> endpoint_diagnostic (pl_receivers p ! j) ep d)"

definition pool_header_changes :: "'s pool \<Rightarrow> string \<Rightarrow> u32" where
  "pool_header_changes p ep =
     (case endpoint_receiver p ep of None \<Rightarrow> 0 | Some j \<Rightarrow> header_changes (pl_receivers p ! j) ep)"

definition pool_enable_check :: "'s pool \<Rightarrow> u64 \<Rightarrow> 's pool" where
  "pool_enable_check p chk = p\<lparr>pl_receivers := map (\<lambda>r. enable_check r chk) (pl_receivers p)\<rparr>"

definition pool_disable_check :: "'s pool \<Rightarrow> u64 \<Rightarrow> 's pool" where
  "pool_disable_check p chk = p\<lparr>pl_receivers := map (\<lambda>r. disable_check r chk) (pl_receivers p)\<rparr>"

definition pool_set_raw :: "'s pool \<Rightarrow> bool \<Rightarrow> 's pool" where
  "pool_set_raw p raw = p\<lparr>pl_receivers := map (\<lambda>r. set_raw r raw) (pl_receivers p)\<rparr>"

text \<open>
  The loop of \<open>listen\<close>: one input (the clock, and whether the first receiver is interrupted)
  per turn; the receivers take turns in order.
\<close>

fun pool_listen_loop ::
  "ext \<Rightarrow> 's zmq \<Rightarrow> u32 option \<Rightarrow> nat \<Rightarrow> 's pool \<Rightarrow> (u64 res \<times> bool) list
   \<Rightarrow> unit res option \<times> received_message list \<times> 's pool" where
  "pool_listen_loop L z num i p [] = (None, [], p)"
| "pool_listen_loop L z num i p ((sim, stopped) # ins) =
     (case pool_receive L z sim p i of
        (Panic, p1) \<Rightarrow> (Some Panic, [], p1)
      | (x, p1) \<Rightarrow>
          (let out = (case x of Ok m \<Rightarrow> [m] | _ \<Rightarrow> []) in
           if (case num of Some n \<Rightarrow> n \<le> pool_message_count p1 | None \<Rightarrow> False) then (Some (Ok ()), out, p1)
           else if stopped then (Some (Err (ConnectionAborted, ''Pool stopped'')), out, p1)
           else
             (case pool_listen_loop L z num (if i + 1 < length (pl_receivers p1) then i + 1 else 0) p1 ins of
                (y, out', p2) \<Rightarrow> (y, out @ out', p2))))"

definition pool_listen ::
  "ext \<Rightarrow> 's zmq \<Rightarrow> mon_env \<Rightarrow> (string option \<Rightarrow> mon_env) \<Rightarrow> (u32 \<Rightarrow> receiver_command \<Rightarrow> unit res)
   \<Rightarrow> u32 option \<Rightarrow> 's pool \<Rightarrow> (u64 res \<times> bool) list
   \<Rightarrow> (unit res option \<times> received_message list \<times> 's pool) option" where
  "pool_listen L z env envs remote num p ins =
     (case pool_connect z env envs remote (pool_reset_counters p) of
        None \<Rightarrow> None
      | Some (Ok _, p1) \<Rightarrow> Some (pool_listen_loop L z num 0 p1 ins)
      | Some (x, p1) \<Rightarrow> Some (Some x, [], p1))"

subsection \<open>Buffered mode\<close>

text \<open>\<open>start\<close> ignores the outcome of each receiver.\<close>

definition pool_start :: "'s pool \<Rightarrow> nat \<Rightarrow> unit res \<times> 's pool" where
  "pool_start p n = (Ok (), p\<lparr>pl_receivers := map (\<lambda>r. snd (rv_start r n)) (pl_receivers p)\<rparr>)"

fun get_first :: "'s receiver list \<Rightarrow> received_message option \<times> 's receiver list" where
  "get_first [] = (None, [])"
| "get_first (r # rs) =
     (case rv_get r of
        (Some m, r') \<Rightarrow> (Some m, r' # rs)
      | (None, r') \<Rightarrow> (case get_first rs of (x, rs') \<Rightarrow> (x, r' # rs')))"

definition pool_get :: "'s pool \<Rightarrow> received_message option \<times> 's pool" where
  "pool_get p = (case get_first (pl_receivers p) of (x, rs) \<Rightarrow> (x, p\<lparr>pl_receivers := rs\<rparr>))"

text \<open>\<open>wait\<close> polls until the timeout; \<open>envs\<close> is what the threads do before each poll.\<close>

fun pool_wait :: "('s pool \<Rightarrow> 's pool) list \<Rightarrow> 's pool \<Rightarrow> received_message res \<times> 's pool" where
  "pool_wait [] p = (Err (TimedOut, ''Timeout waiting for message''), p)"
| "pool_wait (env # envs) p =
     (case pool_get (env p) of
        (Some m, p') \<Rightarrow> (Ok m, p')
      | (None, p') \<Rightarrow> pool_wait envs p')"

fun pool_wait_messages :: "('s pool \<Rightarrow> 's pool) list list \<Rightarrow> 's pool \<Rightarrow> received_message list res \<times> 's pool" where
  "pool_wait_messages [] p = (Ok [], p)"
| "pool_wait_messages (w # ws) p =
     (case pool_wait w p of
        (Ok m, p1) \<Rightarrow> (case pool_wait_messages ws p1 of (x, p2) \<Rightarrow> (res_map ((#) m) x, p2))
      | (Err e, p1) \<Rightarrow> (Err e, p1)
      | (Panic, p1) \<Rightarrow> (Panic, p1))"

subsection \<open>Lemmas on distribution\<close>

definition fresh :: "'s receiver \<Rightarrow> bool" where
  "fresh r \<longleftrightarrow> acts_locally r \<and> \<not> rv_connected r"

lemma add_endpoint_fresh:
  assumes "fresh r"
  shows "add_endpoint z env remote r ep = Some (Ok (), if ep \<in> set (rv_endpoints r) then r
           else r\<lparr>rv_endpoints := rv_endpoints r @ [ep]\<rparr>)"
  using assms by (simp add: add_endpoint_def fresh_def)

lemma fresh_endpoints [simp]: "fresh (r\<lparr>rv_endpoints := eps\<rparr>) = fresh r"
  by (simp add: fresh_def acts_locally_def)

lemma receiver_new_individual:
  "\<exists>r. receiver_new z index counter None st IndividualMode = Ok r \<and> fresh r \<and> rv_endpoints r = []"
  by (simp add: receiver_new_def fresh_def acts_locally_def is_threaded_def)

lemma new_receivers_fresh: "\<exists>rs. new_receivers z index counter st IndividualMode n = Ok rs"
proof (induction n arbitrary: index counter)
  case (Suc n)
  obtain r where r: "receiver_new z (index + 1) counter None st IndividualMode = Ok r"
    using receiver_new_individual by blast
  obtain rs where "new_receivers z (index + 1) (rv_counter r) st IndividualMode n = Ok rs" using Suc by blast
  with r show ?case by simp
qed simp

lemma new_receivers_Ok:
  "new_receivers z index counter st cm n = Ok rs \<Longrightarrow> length rs = n \<and> (\<forall>r \<in> set rs. fresh r \<and> rv_endpoints r = [])"
proof (induction n arbitrary: index counter rs)
  case (Suc n)
  then obtain r rs' where r: "receiver_new z (index + 1) counter None st cm = Ok r"
      "new_receivers z (index + 1) (rv_counter r) st cm n = Ok rs'" "rs = r # rs'"
    by (auto simp: res_simps)
  have "fresh r \<and> rv_endpoints r = []"
    using r(1) by (cases cm) (auto simp: receiver_new_def fresh_def acts_locally_def is_threaded_def res_simps split: prod.splits)
  with Suc.IH [OF r(2)] r(3) show ?case by simp
qed simp

text \<open>The same distribution over lists of endpoints only.\<close>

definition put :: "string \<Rightarrow> string list \<Rightarrow> string list" where
  "put ep eps = (if ep \<in> set eps then eps else eps @ [ep])"

fun deal :: "nat \<Rightarrow> nat \<Rightarrow> string list list \<Rightarrow> string list \<Rightarrow> string list list" where
  "deal n i ls [] = ls"
| "deal n i ls (ep # eps) = deal n (if n \<le> i + 1 then 0 else i + 1) (ls[i := put ep (ls ! i)]) eps"

lemma add_at_fresh:
  assumes "i < length rs" and "\<forall>r \<in> set rs. fresh r"
  shows "\<exists>rs'. add_at z env rs i ep = Some (Ok (), rs') \<and> (\<forall>r \<in> set rs'. fresh r) \<and> length rs' = length rs
    \<and> map rv_endpoints rs' = (map rv_endpoints rs)[i := put ep (map rv_endpoints rs ! i)]"
proof -
  have f: "fresh (rs ! i)" using assms by simp
  let ?r = "if ep \<in> set (rv_endpoints (rs ! i)) then rs ! i else (rs ! i)\<lparr>rv_endpoints := rv_endpoints (rs ! i) @ [ep]\<rparr>"
  have "fresh ?r" using f by simp
  then have "\<forall>r \<in> set (rs[i := ?r]). fresh r" using assms(2) set_update_subset_insert [of rs i ?r] by auto
  moreover have "map rv_endpoints (rs[i := ?r]) = (map rv_endpoints rs)[i := put ep (map rv_endpoints rs ! i)]"
    using assms(1) by (simp add: map_update put_def)
  ultimately show ?thesis using assms(1) by (simp add: add_at_def Let_def add_endpoint_fresh [OF f [unfolded One_nat_def]])
qed

lemma distribute_deal:
  assumes "i < n" and "length rs = n" and "\<forall>r \<in> set rs. fresh r"
  shows "\<exists>rs'. distribute z env n i rs eps = Some (Ok rs') \<and> (\<forall>r \<in> set rs'. fresh r) \<and> length rs' = n
    \<and> map rv_endpoints rs' = deal n i (map rv_endpoints rs) eps"
  using assms
proof (induction eps arbitrary: i rs)
  case (Cons ep eps)
  obtain rs1 where a: "add_at z env rs i ep = Some (Ok (), rs1)" "\<forall>r \<in> set rs1. fresh r" "length rs1 = length rs"
      "map rv_endpoints rs1 = (map rv_endpoints rs)[i := put ep (map rv_endpoints rs ! i)]"
    using add_at_fresh [of i rs z env ep] Cons.prems by auto
  let ?i = "if n \<le> i + 1 then 0 else i + 1"
  have "?i < n" using Cons.prems(1) by auto
  from Cons.IH [OF this, of rs1] a Cons.prems show ?case by (cases "n \<le> i + 1") auto
qed simp

lemma deal_nth:
  assumes "0 < n" and "length ls = n" and "distinct (eps)" and "\<forall>l \<in> set ls. set l \<inter> set eps = {}" and "j < n"
  shows "deal n (m mod n) ls eps ! j = ls ! j @ map ((!) eps) (filter (\<lambda>k. (m + k) mod n = j) [0..<length eps])"
  using assms
proof (induction eps arbitrary: m ls)
  case (Cons ep eps)
  let ?i = "m mod n"
  have i: "?i < n" using Cons.prems(1) by simp
  let ?ls = "ls[?i := put ep (ls ! ?i)]"
  have nin: "ep \<notin> set (ls ! ?i)" using Cons.prems(2,4) i by (auto simp: disjoint_iff)
  have step: "(if n \<le> ?i + 1 then 0 else ?i + 1) = Suc m mod n"
    using i by (auto simp: mod_Suc)
  have "\<forall>l \<in> set ?ls. set l \<inter> set eps = {}"
  proof
    fix l assume "l \<in> set ?ls"
    then have "l \<in> insert (put ep (ls ! ?i)) (set ls)" using set_update_subset_insert by fast
    moreover have "set (put ep (ls ! ?i)) \<inter> set eps = {}"
      using Cons.prems(2,3,4) i by (auto simp: put_def disjoint_iff)
    ultimately show "set l \<inter> set eps = {}" using Cons.prems(4) by auto
  qed
  moreover have "distinct eps" "length ?ls = n" using Cons.prems by simp_all
  ultimately have IH: "deal n (Suc m mod n) ?ls eps ! j = ?ls ! j @ map ((!) eps) (filter (\<lambda>k. (Suc m + k) mod n = j) [0..<length eps])"
    using Cons.IH [OF Cons.prems(1), of ?ls "Suc m"] Cons.prems(5) by blast
  have up: "[0..<length (ep # eps)] = 0 # map Suc [0..<length eps]"
    using upt_conv_Cons [of 0 "Suc (length eps)"] by (simp add: map_Suc_upt del: upt_Suc)
  have "map ((!) (ep # eps)) (filter (\<lambda>k. (m + k) mod n = j) [0..<length (ep # eps)])
      = (if ?i = j then [ep] else []) @ map ((!) eps) (filter (\<lambda>k. (Suc m + k) mod n = j) [0..<length eps])"
    unfolding up by (simp add: filter_map comp_def)
  moreover have "?ls ! j = ls ! j @ (if ?i = j then [ep] else [])"
    using i Cons.prems(2,5) nin by (auto simp: put_def nth_list_update)
  ultimately show ?case using IH step by simp
qed simp

lemma turns_count:
  assumes "j < n"
  shows "length (filter (\<lambda>k. k mod n = j) [0..<m]) = (m + (n - 1 - j)) div n"
proof (induction m)
  case (Suc m)
  have "(Suc (m + (n - 1 - j)) mod n = 0) = (m mod n = j)"
  proof -
    have "Suc (m + (n - 1 - j)) = m + (n - j)" using assms by simp
    moreover have "((m + (n - j)) mod n = 0) = (m mod n = j)"
    proof -
      have "(m + (n - j)) mod n = (m mod n + (n - j)) mod n" by (simp add: mod_add_left_eq)
      moreover have "((q + (n - j)) mod n = 0) = (q = j)" if "q < n" for q
      proof (cases "j \<le> q")
        case True
        then have "q + (n - j) = (q - j) + n" using assms by simp
        then have "(q + (n - j)) mod n = (q - j) mod n" by (simp only: mod_add_self2)
        then have "(q + (n - j)) mod n = q - j" using that by simp
        then show ?thesis using True by auto
      next
        case False
        then have "q + (n - j) < n" using assms by simp
        then show ?thesis using False assms by auto
      qed
      moreover have "m mod n < n" using assms by simp
      ultimately show ?thesis by (simp only:)
    qed
    ultimately show ?thesis by (simp only:)
  qed
  with Suc show ?case by (simp add: div_Suc)
qed (use assms in simp)

lemma map_eq_const: "length xs = n \<Longrightarrow> \<forall>x \<in> set xs. P x \<and> f x = c \<Longrightarrow> map f xs = replicate n c"
  by (induction xs arbitrary: n) auto

lemma pool_new_deal:
  assumes "0 < n" and "new_receivers z index counter st cm n = Ok rs"
  shows "\<exists>rs'. pool_new z env index counter eps st n cm = Some (Ok (mk_pool st n rs')) \<and> length rs' = n
    \<and> (\<forall>r \<in> set rs'. fresh r) \<and> map rv_endpoints rs' = deal n 0 (replicate n []) eps"
proof -
  have rs: "length rs = n" "\<forall>r \<in> set rs. fresh r \<and> rv_endpoints r = []" using new_receivers_Ok [OF assms(2)] by auto
  then have "map rv_endpoints rs = replicate n []" by (rule map_eq_const)
  moreover obtain rs' where "distribute z env n 0 rs eps = Some (Ok rs')" "\<forall>r \<in> set rs'. fresh r" "length rs' = n"
      "map rv_endpoints rs' = deal n 0 (map rv_endpoints rs) eps"
    using distribute_deal [of 0 n rs z env eps] rs assms(1) by auto
  ultimately show ?thesis using assms by (auto simp: pool_new_def)
qed

subsection \<open>Lemmas on the endpoints of a pool\<close>

text \<open>No endpoint twice: neither in one receiver nor in two.\<close>

definition unique_endpoints :: "string list list \<Rightarrow> bool" where
  "unique_endpoints ls \<longleftrightarrow> distinct (concat ls)"

lemma connect_endpoint_endpoints:
  "connect_endpoint z env r ep = Some (x, r') \<Longrightarrow> rv_endpoints r' = rv_endpoints r"
  by (auto simp: connect_endpoint_def set_header_buffer_size_def split: prod.splits res.splits if_splits
      dest: connect_socket_frame(2))

lemma connect_all_endpoints:
  "connect_all z env r eps = Some (x, r') \<Longrightarrow> rv_endpoints r' = rv_endpoints r"
proof (induction eps arbitrary: r)
  case (Cons ep eps)
  then show ?case
    by (auto split: option.splits prod.splits res.splits dest!: connect_endpoint_endpoints)
qed simp

lemma rv_connect_endpoints:
  "rv_connect z env remote r = Some (x, r') \<Longrightarrow> rv_endpoints r' = rv_endpoints r"
  by (auto simp: rv_connect_def split: if_splits option.splits prod.splits res.splits dest: connect_all_endpoints)

lemma add_endpoint_endpoints:
  "add_endpoint z env remote r ep = Some (x, r') \<Longrightarrow>
   rv_endpoints r' = (if acts_locally r then put ep (rv_endpoints r) else rv_endpoints r)"
  by (auto simp: add_endpoint_def put_def Let_def split: if_splits dest!: connect_endpoint_endpoints)

lemma fold_disconnect_endpoints [simp]:
  "rv_endpoints (fold (\<lambda>ep r. rv_disconnect_endpoint z r ep) eps r) = rv_endpoints r"
  by (induction eps arbitrary: r) simp_all

lemma rv_disconnect_endpoints [simp]: "rv_endpoints (rv_disconnect z r) = rv_endpoints r"
  by (simp add: rv_disconnect_def)

lemma remove_endpoint_endpoints:
  "rv_endpoints (remove_endpoint z r ep) = (if acts_locally r then filter (\<lambda>e. e \<noteq> ep) (rv_endpoints r) else rv_endpoints r)"
  by (simp add: remove_endpoint_def remove_stats_def Let_def)

lemma monitoring_endpoints [simp]:
  "rv_endpoints (fst (snd (enable_shared_monitoring z envs r))) = rv_endpoints r"
  "rv_endpoints (fst (snd (disable_shared_monitoring z r))) = rv_endpoints r"
  "rv_endpoints (fst (snd (enable_shared_monitoring_socket z env r ep))) = rv_endpoints r"
  "rv_endpoints (fst (snd (disable_shared_monitoring_socket z r ep))) = rv_endpoints r"
  by (auto simp: enable_shared_monitoring_def disable_shared_monitoring_def enable_shared_monitoring_socket_def
      disable_shared_monitoring_socket_def Let_def split: connection_sockets.split prod.split option.split)

lemma connect_receivers_endpoints:
  "connect_receivers z env envs remote mon rs = Some (x, rs', cs) \<Longrightarrow> map rv_endpoints rs' = map rv_endpoints rs"
proof (induction rs arbitrary: x rs' cs)
  case (Cons r rs)
  obtain y r1 where c: "rv_connect z env (remote (rv_index r)) r = Some (y, r1)"
    using Cons.prems by (auto split: option.splits)
  obtain w r2 d where m: "(if mon then enable_shared_monitoring z envs r1 else (Ok (), r1, [])) = (w, r2, d)"
    by (cases "if mon then enable_shared_monitoring z envs r1 else (Ok (), r1, [])")
  have "rv_endpoints (fst (snd (if mon then enable_shared_monitoring z envs r1 else (Ok (), r1, [])))) = rv_endpoints r1"
    by simp
  then have e: "rv_endpoints r1 = rv_endpoints r" "rv_endpoints r2 = rv_endpoints r1"
    using rv_connect_endpoints [OF c] by (simp_all only: m fst_conv snd_conv)
  show ?case
  proof (cases y)
    case (Ok u)
    then show ?thesis
      using Cons.prems c m e Cons.IH by (cases w) (auto simp del: monitoring_endpoints)
  qed (use Cons.prems c e in auto)
qed simp


lemma new_receivers_outcome: "(\<exists>rs. new_receivers z index counter st cm n = Ok rs) \<or> new_receivers z index counter st cm n = Panic"
proof (induction n arbitrary: index counter)
  case (Suc n)
  then show ?case
    by (cases "receiver_new z (index + 1) counter None st cm") (auto simp: res_simps split: res.splits)
qed simp

lemma connections_map: "connections r = length (rv_endpoints r)"
  by (simp add: connections_def)

subsection \<open>Properties\<close>

text \<open>
  C26. The round robin of \<open>new\<close>: for distinct endpoints, receiver \<open>j\<close> of \<open>n\<close> gets the
  endpoints whose position is \<open>j\<close> modulo \<open>n\<close>, in their order, so that no two receivers differ
  by more than one endpoint and none is connected.  \<open>new\<close> fails for no threads only, and
  panics only where zmq refuses the socket of a receiver in shared mode.
\<close>

theorem pool_new_distributes:
  assumes "distinct eps"
  shows "(if n = 0 then pool_new z env i c eps st n cm = Some (Err (InvalidInput, ''Invalid number of threads''))
    else pool_new z env i c eps st n cm = Some Panic \<and> cm = SharedMode
      \<or> (\<exists>p. pool_new z env i c eps st n cm = Some (Ok p) \<and> length (pl_receivers p) = n
         \<and> (\<forall>j < n. rv_endpoints (pl_receivers p ! j) = map ((!) eps) (filter (\<lambda>k. k mod n = j) [0..<length eps])
              \<and> connections (pl_receivers p ! j) = (length eps + (n - 1 - j)) div n
              \<and> \<not> rv_connected (pl_receivers p ! j))))"
proof (cases "n = 0")
  case True
  then show ?thesis by (simp add: pool_new_def)
next
  case False
  then have n: "0 < n" by simp
  show ?thesis
  proof (cases "new_receivers z i c st cm n")
    case (Ok rs)
    from pool_new_deal [OF n Ok] obtain rs' where p: "pool_new z env i c eps st n cm = Some (Ok (mk_pool st n rs'))"
        "length rs' = n" "\<forall>r \<in> set rs'. fresh r" "map rv_endpoints rs' = deal n 0 (replicate n []) eps" by blast
    have "rv_endpoints (rs' ! j) = map ((!) eps) (filter (\<lambda>k. k mod n = j) [0..<length eps])" if "j < n" for j
    proof -
      have "rv_endpoints (rs' ! j) = deal n (0 mod n) (replicate n []) eps ! j"
        using p(2) that nth_map [of j rs' rv_endpoints] by (simp add: p(4))
      then show ?thesis using deal_nth [OF n _ assms _ that, of "replicate n []" 0] that by simp
    qed
    then have "\<forall>j < n. rv_endpoints (rs' ! j) = map ((!) eps) (filter (\<lambda>k. k mod n = j) [0..<length eps])
        \<and> connections (rs' ! j) = (length eps + (n - 1 - j)) div n \<and> \<not> rv_connected (rs' ! j)"
      using p(2,3) by (simp add: connections_map turns_count fresh_def)
    with p False show ?thesis by (auto simp: mk_pool_def)
  next
    case Panic
    moreover have "cm = SharedMode" using new_receivers_fresh [of z i c st n] Panic by (cases cm) auto
    ultimately show ?thesis using False by (simp add: pool_new_def)
  next
    case (Err e)
    then show ?thesis using new_receivers_outcome [of z i c st cm n] by simp
  qed
qed

theorem pool_new_distributes_witness:
  "\<exists>p. pool_new demo_zmq demo_env 0 0 [''a'', ''b'', ''c'', ''d'', ''e''] SUB 2 IndividualMode = Some (Ok p)
     \<and> rv_endpoints (pl_receivers p ! 0) = [''a'', ''c'', ''e''] \<and> rv_endpoints (pl_receivers p ! 1) = [''b'', ''d'']"
  using pool_new_distributes [of "[''a'', ''b'', ''c'', ''d'', ''e'']" 2 demo_zmq demo_env 0 0 SUB IndividualMode]
  by (auto simp: upt_rec less_2_cases_iff all_conj_distrib)


text \<open>The pools of the inline mode: made from distinct endpoints and managed by any operations.\<close>

inductive pooled :: "ext \<Rightarrow> 's zmq \<Rightarrow> 's pool \<Rightarrow> bool" for L z where
  made: "distinct eps \<Longrightarrow> pool_new z env i c eps st n cm = Some (Ok p) \<Longrightarrow> pooled L z p"
| grouped: "distinct (concat gs) \<Longrightarrow> pool_new_grouped z env i c gs st cm = Some (Ok p) \<Longrightarrow> pooled L z p"
| connected: "pooled L z p \<Longrightarrow> pool_connect z env envs remote p = Some (x, p') \<Longrightarrow> pooled L z p'"
| disconnected: "pooled L z p \<Longrightarrow> pooled L z (pool_disconnect z p)"
| added: "pooled L z p \<Longrightarrow> pool_add_endpoint z env remote p ep i = Some (x, p') \<Longrightarrow> pooled L z p'"
| removed: "pooled L z p \<Longrightarrow> pooled L z (pool_remove_endpoint z p ep)"
| monitored: "pooled L z p \<Longrightarrow> pooled L z (snd (pool_enable_monitoring z envs p))"
| received: "pooled L z p \<Longrightarrow> pooled L z (snd (pool_receive L z sim p k))"
| counted: "pooled L z p \<Longrightarrow> pooled L z (pool_reset_counters p)"
| checks_on: "pooled L z p \<Longrightarrow> pooled L z (pool_enable_check p chk)"
| checks_off: "pooled L z p \<Longrightarrow> pooled L z (pool_disable_check p chk)"
| raw: "pooled L z p \<Longrightarrow> pooled L z (pool_set_raw p b)"
| listened: "pooled L z p \<Longrightarrow> pool_listen L z env envs remote num p ins = Some (x, out, p') \<Longrightarrow> pooled L z p'"

abbreviation pool_lists :: "'s pool \<Rightarrow> string list list" where
  "pool_lists p \<equiv> map rv_endpoints (pl_receivers p)"

lemma concat_update:
  "i < length ls \<Longrightarrow> set (concat (ls[i := l])) \<subseteq> set (concat ls) \<union> set l"
  using set_update_subset_insert [of ls i l] by auto

lemma unique_put:
  assumes "unique_endpoints ls" and "i < length ls" and "\<forall>l \<in> set ls. ep \<notin> set l"
  shows "unique_endpoints (ls[i := put ep (ls ! i)])"
proof -
  have split: "ls = take i ls @ ls ! i # drop (Suc i) ls" using assms(2) by (rule id_take_nth_drop)
  have "ep \<notin> set (concat ls)" using assms(3) by simp
  then have nin: "ep \<notin> set (concat (take i ls))" "ep \<notin> set (ls ! i)" "ep \<notin> set (concat (drop (Suc i) ls))"
    by (subst (asm) split, simp)+
  have "distinct (concat (take i ls @ ls ! i # drop (Suc i) ls))" using assms(1) split by (simp add: unique_endpoints_def)
  with nin have "distinct (concat (take i ls @ put ep (ls ! i) # drop (Suc i) ls))" by (auto simp: put_def)
  with assms(2) show ?thesis by (simp add: unique_endpoints_def upd_conv_take_nth_drop)
qed

lemma unique_filter:
  assumes "unique_endpoints ls" and "i < length ls"
  shows "unique_endpoints (ls[i := filter P (ls ! i)])"
proof -
  have split: "ls = take i ls @ ls ! i # drop (Suc i) ls" using assms(2) by (rule id_take_nth_drop)
  have "distinct (concat (take i ls @ ls ! i # drop (Suc i) ls))" using assms(1) split by (simp add: unique_endpoints_def)
  then have "distinct (concat (take i ls @ filter P (ls ! i) # drop (Suc i) ls))" by auto
  with assms(2) show ?thesis by (simp add: unique_endpoints_def upd_conv_take_nth_drop)
qed

text \<open>Endpoints \<open>eps\<close> that are still to be placed.\<close>

definition to_place :: "string list list \<Rightarrow> string list \<Rightarrow> bool" where
  "to_place ls eps \<longleftrightarrow> unique_endpoints ls \<and> distinct eps \<and> set (concat ls) \<inter> set eps = {}"

lemma to_place_put:
  assumes "to_place ls (ep # eps)" and "i < length ls"
  shows "to_place (ls[i := put ep (ls ! i)]) eps"
proof -
  let ?ls = "ls[i := put ep (ls ! i)]"
  have pl: "unique_endpoints ls" "distinct (ep # eps)" "set (concat ls) \<inter> set (ep # eps) = {}"
    using assms(1) by (simp_all only: to_place_def)
  have nin: "\<forall>l \<in> set ls. ep \<notin> set l" using pl(3) by auto
  have "set (concat ?ls) \<subseteq> set (concat ls) \<union> set (put ep (ls ! i))" using assms(2) by (rule concat_update)
  moreover have "set (put ep (ls ! i)) \<subseteq> insert ep (set (concat ls))" using assms(2) by (auto simp: put_def)
  moreover have "insert ep (set (concat ls)) \<inter> set eps = {}" using pl(2,3) by auto
  ultimately have "set (concat ?ls) \<inter> set eps = {}" by blast
  then show ?thesis using pl(2) unique_put [OF pl(1) assms(2) nin] by (simp only: to_place_def distinct.simps)
qed

lemma unique_deal:
  "i < n \<Longrightarrow> length ls = n \<Longrightarrow> to_place ls eps \<Longrightarrow> unique_endpoints (deal n i ls eps)"
proof (induction eps arbitrary: i ls)
  case (Cons ep eps)
  let ?i = "if n \<le> i + 1 then 0 else i + 1" and ?ls = "ls[i := put ep (ls ! i)]"
  have "?i < n" "length ?ls = n" "to_place ?ls eps" using Cons.prems to_place_put [of ls ep eps i] by auto
  from Cons.IH [OF this] show ?case by simp
qed (simp add: to_place_def)

lemma add_group_places:
  assumes "i < length rs" and "\<forall>r \<in> set rs. fresh r" and "to_place (map rv_endpoints rs) (g @ rest)"
  shows "\<exists>rs'. add_group z env i rs g = Some (Ok rs') \<and> (\<forall>r \<in> set rs'. fresh r) \<and> length rs' = length rs
    \<and> to_place (map rv_endpoints rs') rest"
  using assms
proof (induction g arbitrary: rs)
  case (Cons ep eps)
  obtain rs1 where a: "add_at z env rs i ep = Some (Ok (), rs1)" "\<forall>r \<in> set rs1. fresh r" "length rs1 = length rs"
      "map rv_endpoints rs1 = (map rv_endpoints rs)[i := put ep (map rv_endpoints rs ! i)]"
    using add_at_fresh [of i rs z env ep] Cons.prems by auto
  have "to_place (map rv_endpoints rs1) (eps @ rest)"
    using to_place_put [of "map rv_endpoints rs" ep "eps @ rest" i] Cons.prems a(4) by simp
  from Cons.IH [OF _ a(2) this] Cons.prems(1) a show ?case by simp
qed simp

lemma groups_place:
  assumes "i < n" and "length rs = n" and "\<forall>r \<in> set rs. fresh r" and "to_place (map rv_endpoints rs) (concat gs)"
  shows "\<exists>rs'. distribute_groups z env n i rs gs = Some (Ok rs') \<and> (\<forall>r \<in> set rs'. fresh r) \<and> length rs' = n
    \<and> unique_endpoints (map rv_endpoints rs')"
  using assms
proof (induction gs arbitrary: i rs)
  case (Cons g gs)
  have "i < length rs" "to_place (map rv_endpoints rs) (g @ concat gs)" using Cons.prems by simp_all
  from add_group_places [OF this(1) Cons.prems(3) this(2), of z env] obtain rs1
    where a: "add_group z env i rs g = Some (Ok rs1)" "\<forall>r \<in> set rs1. fresh r" "length rs1 = n"
      "to_place (map rv_endpoints rs1) (concat gs)" using Cons.prems(2) by auto
  have "(if n \<le> i + 1 then 0 else i + 1) < n" using Cons.prems(1) by auto
  from Cons.IH [OF this a(3,2,4)] a(1) show ?case by simp
qed (simp add: to_place_def)

lemma empty_to_place: "distinct eps \<Longrightarrow> to_place (replicate n []) eps"
  by (induction n) (simp_all add: to_place_def unique_endpoints_def)

lemma new_receivers_lists:
  "new_receivers z i c st cm n = Ok rs \<Longrightarrow> length rs = n \<and> (\<forall>r \<in> set rs. fresh r) \<and> map rv_endpoints rs = replicate n []"
  using new_receivers_Ok [of z i c st cm n rs] map_eq_const [of rs n fresh rv_endpoints "[]"] by simp

lemma pool_new_unique:
  assumes "distinct eps" and "pool_new z env i c eps st n cm = Some (Ok p)"
  shows "unique_endpoints (pool_lists p)"
proof -
  have n: "0 < n" using assms(2) by (cases n) (simp_all add: pool_new_def)
  from assms(2) n obtain rs where "new_receivers z i c st cm n = Ok rs"
    by (cases "new_receivers z i c st cm n") (simp_all add: pool_new_def)
  from pool_new_deal [OF n this, of env eps] assms(2) have "pool_lists p = deal n 0 (replicate n []) eps"
    by (auto simp: mk_pool_def)
  then show ?thesis using unique_deal [OF n _ empty_to_place [OF assms(1)], of n] by simp
qed

lemma pool_new_grouped_unique:
  assumes "distinct (concat gs)" and "pool_new_grouped z env i c gs st cm = Some (Ok p)"
  shows "unique_endpoints (pool_lists p)"
proof -
  let ?n = "length gs"
  have n: "0 < ?n" using assms(2) by (cases "?n = 0") (simp_all add: pool_new_grouped_def)
  from assms(2) n obtain rs where r: "new_receivers z i c st cm ?n = Ok rs"
    by (cases "new_receivers z i c st cm ?n") (simp_all add: pool_new_grouped_def)
  from groups_place [OF n, of rs gs z env] new_receivers_lists [OF r] empty_to_place [OF assms(1)]
  show ?thesis using assms(2) n r by (auto simp: pool_new_grouped_def mk_pool_def)
qed

lemma find_index_Some:
  "find_index P xs = Some j \<Longrightarrow> j < length xs \<and> P (xs ! j) \<and> (\<forall>k < j. \<not> P (xs ! k))"
proof (induction xs arbitrary: j)
  case (Cons x xs)
  show ?case
  proof (cases "P x")
    case False
    with Cons.prems obtain k where k: "find_index P xs = Some k" "j = Suc k" by auto
    from Cons.IH [OF k(1)] False show ?thesis by (auto simp: k(2) less_Suc_eq_0_disj)
  qed (use Cons.prems in auto)
qed simp

lemma find_index_None: "find_index P xs = None \<longleftrightarrow> (\<forall>x \<in> set xs. \<not> P x)"
  by (induction xs) auto

lemma unique_find:
  assumes "unique_endpoints (pool_lists p)" and "j < length (pl_receivers p)" and "ep \<in> set (rv_endpoints (pl_receivers p ! j))"
  shows "endpoint_receiver p ep = Some j"
proof -
  let ?rs = "pl_receivers p"
  have "find_index (holds ep) ?rs \<noteq> None" using assms(2,3) by (auto simp: find_index_None holds_def)
  then obtain i where i: "find_index (holds ep) ?rs = Some i" by blast
  from find_index_Some [OF i] have i': "i < length ?rs" "ep \<in> set (rv_endpoints (?rs ! i))" by (auto simp: holds_def)
  have "i = j"
  proof (rule ccontr)
    assume "i \<noteq> j"
    have d: "distinct (concat (pool_lists p))" using assms(1) by (simp add: unique_endpoints_def)
    have "set (pool_lists p ! a) \<inter> set (pool_lists p ! b) = {}" if "a < b" "b < length ?rs" for a b
    proof -
      have "pool_lists p = take b (pool_lists p) @ pool_lists p ! b # drop (Suc b) (pool_lists p)"
        using that by (intro id_take_nth_drop) simp
      then have "distinct (concat (take b (pool_lists p) @ pool_lists p ! b # drop (Suc b) (pool_lists p)))" using d by metis
      moreover have "pool_lists p ! a \<in> set (take b (pool_lists p))"
        using that in_set_conv_nth [of "pool_lists p ! a" "take b (pool_lists p)"] by (auto intro: exI [of _ a])
      ultimately show ?thesis by auto
    qed
    from this [of i j] this [of j i] show False using \<open>i \<noteq> j\<close> i' assms(2,3) by (cases "i < j") auto
  qed
  with i show ?thesis by (simp add: endpoint_receiver_def)
qed

lemma pool_connect_lists:
  "pool_connect z env envs remote p = Some (x, p') \<Longrightarrow> pool_lists p' = pool_lists p"
  by (auto simp: pool_connect_def split: if_splits dest: connect_receivers_endpoints)

lemma pool_disconnect_lists [simp]: "pool_lists (pool_disconnect z p) = pool_lists p"
proof -
  have "rv_endpoints (fst (disconnect_receiver z mon r)) = rv_endpoints r" for mon r
    using monitoring_endpoints(2) [of z r] by (auto simp: disconnect_receiver_def simp del: monitoring_endpoints split: prod.split)
  then show ?thesis by (simp add: pool_disconnect_def Let_def comp_def)
qed

lemma pool_receive_lists [simp]: "pool_lists (snd (pool_receive L z sim p i)) = pool_lists p"
  using receive_frame(3) [of L z sim "pl_receivers p ! i"]
  by (cases "receive L z sim (pl_receivers p ! i)") (simp add: pool_receive_def map_update list_update_same_conv)

lemma pool_settings_lists [simp]:
  "pool_lists (pool_reset_counters p) = pool_lists p" "pool_lists (pool_enable_check p chk) = pool_lists p"
  "pool_lists (pool_disable_check p chk) = pool_lists p" "pool_lists (pool_set_raw p b) = pool_lists p"
  "pool_lists (snd (pool_enable_monitoring z envs p)) = pool_lists p"
  by (simp_all add: pool_reset_counters_def pool_enable_check_def pool_disable_check_def pool_set_raw_def
      reset_counters_def enable_check_def disable_check_def set_raw_def pool_enable_monitoring_def Let_def comp_def)

lemma pool_listen_loop_lists:
  "pool_listen_loop L z num i p ins = (x, out, p') \<Longrightarrow> pool_lists p' = pool_lists p"
proof (induction ins arbitrary: i p x out p')
  case (Cons a ins)
  obtain sim stopped where a: "a = (sim, stopped)" by (cases a)
  obtain y p1 where r: "pool_receive L z sim p i = (y, p1)" by (cases "pool_receive L z sim p i")
  have "pool_lists p1 = pool_lists p" using pool_receive_lists [of L z sim p i] r by simp
  with Cons a r show ?case by (auto simp: Let_def split: res.splits prod.splits if_splits option.splits)
qed simp

lemma pool_add_put:
  assumes "pool_add_endpoint z env remote p ep i = Some (x, p')"
    and "endpoint_receiver p ep = None" and "pool_index p i < length (pl_receivers p)"
  shows "pool_lists p' = (if acts_locally (pl_receivers p ! pool_index p i)
    then (pool_lists p)[pool_index p i := put ep (pool_lists p ! pool_index p i)] else pool_lists p)"
proof -
  let ?k = "pool_index p i" and ?rs = "pl_receivers p"
  obtain y r where a: "add_endpoint z env (remote (rv_index (?rs ! ?k))) (?rs ! ?k) ep = Some (y, r)"
    using assms by (auto simp: pool_add_endpoint_def Let_def split: option.splits if_splits)
  let ?r' = "fst (snd (enable_shared_monitoring_socket z env r ep))"
  have e: "rv_endpoints ?r' = rv_endpoints r" by simp
  have "pl_receivers p' = ?rs[?k := r] \<or> pl_receivers p' = ?rs[?k := ?r']"
    using assms a
    by (cases y) (auto simp: pool_add_endpoint_def Let_def split: if_splits prod.splits)
  then have "pool_lists p' = (pool_lists p)[?k := rv_endpoints r]" using e by (auto simp: map_update)
  with assms(3) show ?thesis using add_endpoint_endpoints [OF a]
    by (cases "acts_locally (?rs ! ?k)") (auto simp: list_update_same_conv)
qed

lemma pool_add_lists:
  assumes "pool_add_endpoint z env remote p ep i = Some (x, p')"
  shows "pool_lists p' = pool_lists p
    \<or> endpoint_receiver p ep = None \<and> pool_index p i < length (pl_receivers p)
      \<and> pool_lists p' = (pool_lists p)[pool_index p i := put ep (pool_lists p ! pool_index p i)]"
proof (cases "endpoint_receiver p ep = None \<and> pool_index p i < length (pl_receivers p)")
  case False
  with assms show ?thesis by (auto simp: pool_add_endpoint_def Let_def split: option.splits if_splits)
next
  case True
  with pool_add_put [OF assms] show ?thesis by auto
qed

lemma disable_socket_frame:
  assumes "disable_shared_monitoring_socket z r ep = (x, r', cs)"
  shows "rv_endpoints r' = rv_endpoints r" "acts_locally r' = acts_locally r"
  using assms by (auto simp: disable_shared_monitoring_socket_def acts_locally_def split: option.splits prod.splits)

lemma pool_remove_lists:
  assumes "endpoint_receiver p ep = Some j"
  shows "pool_lists (pool_remove_endpoint z p ep) = (pool_lists p)[j :=
    (if acts_locally (pl_receivers p ! j) then filter (\<lambda>e. e \<noteq> ep) (pool_lists p ! j) else pool_lists p ! j)]"
proof -
  have j: "j < length (pl_receivers p)" using find_index_Some assms by (fastforce simp: endpoint_receiver_def)
  obtain x r cs where d: "disable_shared_monitoring_socket z (pl_receivers p ! j) ep = (x, r, cs)"
    by (cases "disable_shared_monitoring_socket z (pl_receivers p ! j) ep")
  note f = disable_socket_frame [OF d]
  show ?thesis using assms j d f by (auto simp: pool_remove_endpoint_def map_update remove_endpoint_endpoints)
qed

lemma pool_remove_unique:
  assumes "unique_endpoints (pool_lists p)"
  shows "unique_endpoints (pool_lists (pool_remove_endpoint z p ep))"
proof (cases "endpoint_receiver p ep")
  case (Some j)
  have j: "j < length (pool_lists p)" using find_index_Some Some by (fastforce simp: endpoint_receiver_def)
  then have "pool_lists p = (pool_lists p)[j := pool_lists p ! j]" by (simp only: list_update_id)
  then show ?thesis using pool_remove_lists [OF Some, of z] unique_filter [OF assms j, of "\<lambda>e. e \<noteq> ep"] assms
    by (cases "acts_locally (pl_receivers p ! j)") simp_all
qed (use assms in \<open>simp add: pool_remove_endpoint_def\<close>)

lemma pool_add_unique:
  assumes "unique_endpoints (pool_lists p)" and "pool_add_endpoint z env remote p ep i = Some (x, p')"
  shows "unique_endpoints (pool_lists p')"
  using pool_add_lists [OF assms(2)]
proof
  assume "endpoint_receiver p ep = None \<and> pool_index p i < length (pl_receivers p)
    \<and> pool_lists p' = (pool_lists p)[pool_index p i := put ep (pool_lists p ! pool_index p i)]"
  moreover from this have "\<forall>l \<in> set (pool_lists p). ep \<notin> set l"
    by (simp add: endpoint_receiver_def find_index_None holds_def)
  ultimately show ?thesis using unique_put [OF assms(1)] by simp
qed (use assms in simp)

lemma pooled_unique: "pooled L z p \<Longrightarrow> unique_endpoints (pool_lists p)"
proof (induction rule: pooled.induct)
  case (listened p env envs remote num ins x out p')
  then obtain y p1 where c: "pool_connect z env envs remote (pool_reset_counters p) = Some (y, p1)"
    by (auto simp: pool_listen_def split: option.splits)
  note l = pool_connect_lists [OF c]
  have "pool_lists p' = pool_lists p1"
    using listened.hyps c by (cases y) (auto simp: pool_listen_def dest: pool_listen_loop_lists)
  with l listened.IH show ?case by simp
qed (use pool_new_unique pool_new_grouped_unique pool_connect_lists pool_add_unique pool_remove_unique in \<open>fastforce+\<close>)

text \<open>
  C25. In every pool made from distinct endpoints, with \<open>new\<close> or grouped, and managed by any
  operations in inline mode, no endpoint is held twice, so each is found on the receiver that
  holds it, and removing an endpoint takes it, and no other, from the pool.
\<close>

theorem pool_endpoints_unique:
  assumes "pooled L z p"
  shows "distinct (concat (map rv_endpoints (pl_receivers p)))
    \<and> (\<forall>j ep. j < length (pl_receivers p) \<and> ep \<in> set (rv_endpoints (pl_receivers p ! j)) \<longrightarrow> endpoint_receiver p ep = Some j)
    \<and> (list_all acts_locally (pl_receivers p) \<longrightarrow>
        (\<forall>ep e. pool_has_endpoint (pool_remove_endpoint z p ep) e = (pool_has_endpoint p e \<and> e \<noteq> ep)))"
proof (intro conjI impI allI)
  note u = pooled_unique [OF assms]
  show "distinct (concat (pool_lists p))" using u by (simp add: unique_endpoints_def)
  show "endpoint_receiver p ep = Some j" if "j < length (pl_receivers p) \<and> ep \<in> set (rv_endpoints (pl_receivers p ! j))" for j ep
    using unique_find [OF u] that by simp
  have has: "pool_has_endpoint q e = (\<exists>l \<in> set (pool_lists q). e \<in> set l)" for q :: "'a pool" and e
    by (auto simp: pool_has_endpoint_def endpoint_receiver_def find_index_None holds_def)
  have at: "(\<exists>l \<in> set ls. e \<in> set l) = (\<exists>k < length ls. e \<in> set (ls ! k))" for ls :: "string list list" and e
    by (metis in_set_conv_nth)
  fix ep e
  assume l: "list_all acts_locally (pl_receivers p)"
  show "pool_has_endpoint (pool_remove_endpoint z p ep) e = (pool_has_endpoint p e \<and> e \<noteq> ep)"
  proof (cases "endpoint_receiver p ep")
    case None
    then show ?thesis by (auto simp: pool_remove_endpoint_def pool_has_endpoint_def)
  next
    case (Some j)
    have j: "j < length (pl_receivers p)" using find_index_Some Some by (fastforce simp: endpoint_receiver_def)
    have r: "pool_lists (pool_remove_endpoint z p ep) = (pool_lists p)[j := filter (\<lambda>e. e \<noteq> ep) (pool_lists p ! j)]"
      using pool_remove_lists [OF Some, of z] l j by (simp add: list_all_length)
    have only: "k = j" if "k < length (pl_receivers p)" "ep \<in> set (rv_endpoints (pl_receivers p ! k))" for k
      using unique_find [OF u that] Some by simp
    show ?thesis unfolding has r at using only j by (auto simp: nth_list_update)
  qed
qed

definition demo_pool :: "unit pool res option" where
  "demo_pool = pool_new demo_zmq demo_env 0 0 [''a'', ''b'', ''c''] SUB 2 IndividualMode"

lemma demo_pool_fresh:
  obtains p where "demo_pool = Some (Ok p)" "pool_lists p = [[''a'', ''c''], [''b'']]" "\<forall>r \<in> set (pl_receivers p). fresh r"
proof -
  obtain rs where r: "new_receivers demo_zmq 0 0 SUB IndividualMode 2 = Ok rs" using new_receivers_fresh by blast
  obtain rs' where p: "pool_new demo_zmq demo_env 0 0 [''a'', ''b'', ''c''] SUB 2 IndividualMode = Some (Ok (mk_pool SUB 2 rs'))"
      "\<forall>r \<in> set rs'. fresh r" "map rv_endpoints rs' = deal 2 0 (replicate 2 []) [''a'', ''b'', ''c'']"
    using pool_new_deal [OF _ r, of demo_env "[''a'', ''b'', ''c'']"] by auto
  have "deal 2 0 (replicate 2 []) [''a'', ''b'', ''c''] = [[''a'', ''c''], [''b'']]" by code_simp
  with p show ?thesis using that [of "mk_pool SUB 2 rs'"] by (simp add: demo_pool_def mk_pool_def)
qed

theorem pool_endpoints_unique_witness:
  "\<exists>p. demo_pool = Some (Ok p) \<and> endpoint_receiver p ''b'' = Some 1
     \<and> \<not> pool_has_endpoint (pool_remove_endpoint demo_zmq p ''b'') ''b''"
proof -
  obtain p where p: "demo_pool = Some (Ok p)" "pool_lists p = [[''a'', ''c''], [''b'']]" "\<forall>r \<in> set (pl_receivers p). fresh r"
    by (rule demo_pool_fresh)
  have "pooled demo_ext demo_zmq p" by (rule pooled.made [OF _ p(1) [unfolded demo_pool_def]]) simp
  note u = pool_endpoints_unique [OF this]
  have "length (pool_lists p) = 2" "pool_lists p ! 1 = [''b'']" by (simp_all only: p(2)) simp_all
  then have "1 < length (pl_receivers p) \<and> ''b'' \<in> set (rv_endpoints (pl_receivers p ! 1))" by simp
  moreover have "list_all acts_locally (pl_receivers p)" using p(3) by (simp add: list_all_iff fresh_def)
  ultimately show ?thesis using p(1) u by blast
qed

lemma min_index_Some:
  "min_index ks = Some j \<Longrightarrow> j < length ks \<and> (\<forall>k < length ks. ks ! j \<le> ks ! k) \<and> (\<forall>k < j. ks ! j < ks ! k)"
proof (induction ks arbitrary: j)
  case (Cons a ks)
  show ?case
  proof (cases "min_index ks")
    case None
    then have "ks = []" by (cases ks) (auto split: option.splits if_splits)
    with Cons.prems show ?thesis by simp
  next
    case (Some i)
    from Cons.IH [OF Some] Cons.prems Some show ?thesis
      by (auto simp: less_Suc_eq_0_disj split: if_splits intro: order_trans)
  qed
qed simp

lemma min_index_None: "min_index ks = None \<longleftrightarrow> ks = []"
  by (cases ks) (auto split: option.split)

text \<open>Loads that differ by at most one.\<close>

definition even_loads :: "nat list \<Rightarrow> bool" where
  "even_loads ns \<longleftrightarrow> (\<forall>a \<in> set ns. \<forall>b \<in> set ns. a \<le> b + 1)"

lemma even_loads_least:
  assumes "even_loads ns" and "j < length ns" and "\<forall>k < length ns. ns ! j \<le> ns ! k"
  shows "even_loads (ns[j := Suc (ns ! j)])"
  unfolding even_loads_def
proof (intro ballI)
  fix a b
  assume "a \<in> set (ns[j := Suc (ns ! j)])" "b \<in> set (ns[j := Suc (ns ! j)])"
  then have ab: "a = Suc (ns ! j) \<or> a \<in> set ns" "b = Suc (ns ! j) \<or> b \<in> set ns"
    using set_update_subset_insert by fast+
  have m: "ns ! j \<in> set ns" "\<And>x. x \<in> set ns \<Longrightarrow> ns ! j \<le> x" using assms(2,3) by (auto simp: in_set_conv_nth)
  show "a \<le> b + 1" using ab m assms(1) by (fastforce simp: even_loads_def)
qed

lemma receiver_loads:
  "(\<forall>r \<in> set rs. \<forall>s \<in> set rs. connections r \<le> connections s + 1) = even_loads (map length (map rv_endpoints rs))"
  by (simp add: even_loads_def connections_def)

text \<open>
  C31. Adding an endpoint without an index, in inline mode: the first of the least loaded
  receivers takes it and the others are unchanged, also when connecting it then fails; so a
  pool whose receivers differ by at most one endpoint stays so.
\<close>

theorem pool_add_balanced:
  assumes "\<not> pool_has_endpoint p ep" and "pl_receivers p \<noteq> []" and "list_all acts_locally (pl_receivers p)"
    and "pool_add_endpoint z env remote p ep None = Some (x, p')"
  shows "(\<exists>j < length (pl_receivers p). (\<forall>k < length (pl_receivers p). connections (pl_receivers p ! j) \<le> connections (pl_receivers p ! k))
      \<and> (\<forall>k < j. connections (pl_receivers p ! j) < connections (pl_receivers p ! k))
      \<and> map rv_endpoints (pl_receivers p') = (map rv_endpoints (pl_receivers p))[j := rv_endpoints (pl_receivers p ! j) @ [ep]])
    \<and> ((\<forall>r \<in> set (pl_receivers p). \<forall>s \<in> set (pl_receivers p). connections r \<le> connections s + 1) \<longrightarrow>
       (\<forall>r \<in> set (pl_receivers p'). \<forall>s \<in> set (pl_receivers p'). connections r \<le> connections s + 1))"
proof -
  let ?rs = "pl_receivers p"
  let ?ns = "map length (pool_lists p)"
  have ns: "map connections ?rs = ?ns" by (simp add: connections_map)
  obtain j where j: "min_index ?ns = Some j" using assms(2) min_index_None [of ?ns] by (cases "min_index ?ns") auto
  note least = min_index_Some [OF j]
  have ij: "pool_index p None = j" by (simp add: pool_index_def ns j del: map_map)
  have none: "endpoint_receiver p ep = None" using assms(1) by (simp add: pool_has_endpoint_def)
  have nin: "\<forall>r \<in> set ?rs. ep \<notin> set (rv_endpoints r)"
    using none by (simp add: endpoint_receiver_def find_index_None holds_def)
  have loc: "acts_locally (?rs ! j)" using assms(3) least by (simp add: list_all_length)
  have lists: "pool_lists p' = (pool_lists p)[j := rv_endpoints (?rs ! j) @ [ep]]"
    using pool_add_put [OF assms(4) none] nin loc least by (simp add: ij put_def)
  then have "map length (pool_lists p') = ?ns[j := Suc (?ns ! j)]" using least by (simp add: map_update)
  then have "even_loads ?ns \<longrightarrow> even_loads (map length (pool_lists p'))" using even_loads_least [of ?ns j] least by metis
  then show ?thesis using lists least unfolding receiver_loads by (auto simp: connections_map)
qed

theorem pool_add_balanced_witness:
  "\<exists>p p'. demo_pool = Some (Ok p) \<and> pool_add_endpoint demo_zmq demo_env (\<lambda>_ _. Ok ()) p ''d'' None = Some (Ok (), p')
     \<and> map rv_endpoints (pl_receivers p') = [[''a'', ''c''], [''b'', ''d'']]"
proof -
  obtain p where p: "demo_pool = Some (Ok p)" "pool_lists p = [[''a'', ''c''], [''b'']]" "\<forall>r \<in> set (pl_receivers p). fresh r"
    by (rule demo_pool_fresh)
  have "pl_monitored p = False"
    using p(1) by (auto simp: demo_pool_def pool_new_def mk_pool_def res_simps split: res.splits)
  have len: "length (pl_receivers p) = 2" using arg_cong [OF p(2), of length] by simp
  have "\<forall>l \<in> set (pool_lists p). ''d'' \<notin> set l" by (simp add: p(2))
  then have nin: "\<not> pool_has_endpoint p ''d''"
    by (simp add: pool_has_endpoint_def endpoint_receiver_def find_index_None holds_def)
  have loads: "map connections (pl_receivers p) = [2, 1]"
  proof -
    have "map connections (pl_receivers p) = map length (pool_lists p)" by (simp add: connections_map)
    also have "\<dots> = [2, 1]" by (simp only: p(2)) simp
    finally show ?thesis .
  qed
  have idx: "pool_index p None = 1" by (simp add: pool_index_def loads)
  have f: "fresh (pl_receivers p ! 1)" using p(3) len by simp
  obtain p' where a: "pool_add_endpoint demo_zmq demo_env (\<lambda>_ _. Ok ()) p ''d'' None = Some (Ok (), p')"
    using nin idx len \<open>pl_monitored p = False\<close>
    by (auto simp: pool_add_endpoint_def pool_has_endpoint_def Let_def add_endpoint_fresh [OF f [unfolded One_nat_def]])
  have ne: "pl_receivers p \<noteq> []" using len by auto
  have loc: "list_all acts_locally (pl_receivers p)" using p(3) by (simp add: list_all_iff fresh_def)
  from pool_add_balanced [OF nin ne loc a] obtain j where
    j: "j < 2" "\<forall>k < 2. map connections (pl_receivers p) ! j \<le> map connections (pl_receivers p) ! k"
      "pool_lists p' = (pool_lists p)[j := pool_lists p ! j @ [''d'']]" using len by auto
  have "j = 1" using j(1,2) by (auto simp: loads less_2_cases_iff all_conj_distrib)
  with p a j(3) show ?thesis by (auto simp: p(2))
qed

text \<open>
  An endpoint that is already there: the chosen receiver's number decides, and an index out
  of range panics, where a new endpoint gives an error.
\<close>

lemma pool_add_existing:
  assumes "endpoint_receiver p ep = Some j" and "distinct (map rv_index (pl_receivers p))"
  shows "pool_add_endpoint z env remote p ep i = Some
    (if length (pl_receivers p) \<le> pool_index p i then Panic
     else if pool_index p i = j then Ok () else Err (InvalidInput, ''endpoint already exists''), p)"
proof -
  have j: "j < length (pl_receivers p)" using find_index_Some assms(1) by (fastforce simp: endpoint_receiver_def)
  have "rv_index (pl_receivers p ! k) = rv_index (pl_receivers p ! j) \<longleftrightarrow> k = j" if "k < length (pl_receivers p)" for k
    using nth_eq_iff_index_eq [OF assms(2), of k j] that j by simp
  then show ?thesis using assms(1) by (simp add: pool_add_endpoint_def Let_def not_le)
qed

end
