(* ===== verification/Bs_PoolLife.thy ===== *)
theory Bs_PoolLife
  imports Bs_Pool
begin

section \<open>Options and life cycle of a pool (src/src/pool.rs)\<close>

text \<open>
  The operations of a pool that go through all its receivers and stop at the first that
  fails (socket options, joining), its sockets and diagnostics, and the life cycle of the
  receivers' threads: the pool's receivers with their threads are a list of
  \<open>supervised\<close> receivers.
\<close>

subsection \<open>Loops over the receivers\<close>

text \<open>\<open>for receiver in &mut self.receivers { f(receiver)?; }\<close>\<close>

fun try_each :: "('r \<Rightarrow> unit res \<times> 'r) \<Rightarrow> 'r list \<Rightarrow> unit res \<times> 'r list" where
  "try_each f [] = (Ok (), [])"
| "try_each f (r # rs) =
     (case f r of
        (Ok _, r') \<Rightarrow> (case try_each f rs of (x, rs') \<Rightarrow> (x, r' # rs'))
      | (x, r') \<Rightarrow> (x, r' # rs))"

definition pool_each :: "('s receiver \<Rightarrow> unit res \<times> 's receiver) \<Rightarrow> 's pool \<Rightarrow> unit res \<times> 's pool" where
  "pool_each f p = (case try_each f (pl_receivers p) of (x, rs) \<Rightarrow> (x, p\<lparr>pl_receivers := rs\<rparr>))"

definition pool_set_linger :: "'s zmq \<Rightarrow> 's pool \<Rightarrow> i32 \<Rightarrow> unit res \<times> 's pool" where
  "pool_set_linger z p v = pool_each (\<lambda>r. rv_set_linger z r v) p"

definition pool_set_rcvhwm :: "'s zmq \<Rightarrow> 's pool \<Rightarrow> i32 \<Rightarrow> unit res \<times> 's pool" where
  "pool_set_rcvhwm z p v = pool_each (\<lambda>r. rv_set_rcvhwm z r v) p"

definition pool_set_sndhwm :: "'s zmq \<Rightarrow> 's pool \<Rightarrow> i32 \<Rightarrow> unit res \<times> 's pool" where
  "pool_set_sndhwm z p v = pool_each (\<lambda>r. rv_set_sndhwm z r v) p"

definition pool_set_keepalive :: "'s zmq \<Rightarrow> 's pool \<Rightarrow> i32 \<Rightarrow> i32 \<Rightarrow> i32 \<Rightarrow> unit res \<times> 's pool" where
  "pool_set_keepalive z p idle intvl cnt = pool_each (\<lambda>r. rv_set_keepalive z r idle intvl cnt) p"

definition pool_set_heartbeat :: "'s zmq \<Rightarrow> 's pool \<Rightarrow> i32 \<Rightarrow> i32 \<Rightarrow> i32 \<Rightarrow> unit res \<times> 's pool" where
  "pool_set_heartbeat z p ivl timeout ttl = pool_each (\<lambda>r. rv_set_heartbeat z r ivl timeout ttl) p"

definition pool_socket :: "'s pool \<Rightarrow> string \<Rightarrow> 's tracked_socket option" where
  "pool_socket p ep =
     (case endpoint_receiver p ep of None \<Rightarrow> None | Some j \<Rightarrow> rv_socket (pl_receivers p ! j) ep)"

definition pool_sockets :: "'s pool \<Rightarrow> 's tracked_socket list" where
  "pool_sockets p = concat (map all_sockets (pl_receivers p))"

definition pool_zmq_sockets :: "'s pool \<Rightarrow> 's list" where
  "pool_zmq_sockets p = concat (map zmq_sockets (pl_receivers p))"

definition pool_endpoint_diagnostics :: "'s pool \<Rightarrow> string \<Rightarrow> (endpoint_diag \<Rightarrow> u32 option) option" where
  "pool_endpoint_diagnostics p ep =
     (case endpoint_receiver p ep of None \<Rightarrow> None | Some j \<Rightarrow> st_diagnostics (rv_stats (pl_receivers p ! j)) ep)"

text \<open>\<open>m\<close> is the pool's monitor, if it has one.\<close>

definition pool_endpoint_state :: "'s pool \<Rightarrow> monitor_sys \<Rightarrow> string \<Rightarrow> endpoint_state option" where
  "pool_endpoint_state p m ep = (if pl_monitored p then ms_states m ep else None)"

subsection \<open>The threads\<close>

text \<open>\<open>fork\<close> of a receiver; \<open>ending\<close> is how its thread will end.\<close>

definition sv_fork :: "'s supervised \<Rightarrow> thread_result \<Rightarrow> 's supervised" where
  "sv_fork s ending =
     s\<lparr>sv_receiver := (sv_receiver s)\<lparr>rv_monitored := False, rv_delivery_mode := Threaded\<rparr>, sv_handle := Some ending\<rparr>"

text \<open>\<open>finished\<close> tells of a thread whether it has ended.\<close>

definition sv_is_running :: "(thread_result \<Rightarrow> bool) \<Rightarrow> 's supervised \<Rightarrow> bool" where
  "sv_is_running finished s \<longleftrightarrow> (case sv_handle s of None \<Rightarrow> False | Some t \<Rightarrow> \<not> finished t)"

definition pool_fork :: "'s supervised list \<Rightarrow> thread_result list \<Rightarrow> unit res \<times> 's supervised list" where
  "pool_fork ss endings = (Ok (), map2 sv_fork ss endings)"

definition pool_start_threads :: "'s supervised list \<Rightarrow> nat \<Rightarrow> thread_result list \<Rightarrow> unit res \<times> 's supervised list" where
  "pool_start_threads ss n endings = (Ok (), map2 (\<lambda>s ending. snd (sv_start s n ending)) ss endings)"

definition pool_stop :: "'s supervised list \<Rightarrow> unit res \<times> 's supervised list" where
  "pool_stop ss = try_each sv_join (map sv_interrupt ss)"

definition pool_is_stopped :: "'s supervised list \<Rightarrow> bool res" where
  "pool_is_stopped ss = (case ss of [] \<Rightarrow> Panic | s # _ \<Rightarrow> Ok (sv_is_interrupted s))"

definition pool_is_running :: "(thread_result \<Rightarrow> bool) \<Rightarrow> 's supervised list \<Rightarrow> bool" where
  "pool_is_running finished ss \<longleftrightarrow> list_ex (sv_is_running finished) ss"

text \<open>\<open>Drop\<close>: the threads are stopped, whatever \<open>stop\<close> returns, and the monitor is shut down.\<close>

definition pool_drop :: "'s supervised list \<Rightarrow> bool \<Rightarrow> monitor_command list \<Rightarrow> 's supervised list \<times> bool \<times> monitor_command list" where
  "pool_drop ss monitored cs =
     (snd (pool_stop ss), False, if monitored then cs @ [MonShutdown] else cs)"

subsection \<open>Lemmas\<close>

lemma try_each_Ok:
  "(try_each f rs = (Ok (), rs')) \<longleftrightarrow> list_all (\<lambda>r. fst (f r) = Ok ()) rs \<and> rs' = map (snd \<circ> f) rs"
proof (induction rs arbitrary: rs')
  case (Cons r rs)
  then show ?case by (cases "f r"; cases "fst (f r)"; cases "try_each f rs") auto
qed auto

text \<open>A failure: those before it succeeded, those after it are untouched.\<close>

lemma try_each_fails:
  assumes "try_each f rs = (x, rs')" and "x \<noteq> Ok ()"
  shows "\<exists>k < length rs. fst (f (rs ! k)) = x \<and> (\<forall>j < k. fst (f (rs ! j)) = Ok ())
    \<and> rs' = map (snd \<circ> f) (take (Suc k) rs) @ drop (Suc k) rs"
  using assms
proof (induction rs arbitrary: rs')
  case (Cons r rs)
  obtain y r' where f: "f r = (y, r')" by (cases "f r")
  show ?case
  proof (cases y)
    case (Ok u)
    with Cons.prems f obtain rs1 where "try_each f rs = (x, rs1)" "rs' = r' # rs1" by (auto split: prod.splits)
    with Cons.IH [of rs1] Cons.prems(2) obtain k where k: "k < length rs" "fst (f (rs ! k)) = x" "\<forall>j < k. fst (f (rs ! j)) = Ok ()"
        "rs' = r' # map (snd \<circ> f) (take (Suc k) rs) @ drop (Suc k) rs" by auto
    then show ?thesis using f Ok by (intro exI [of _ "Suc k"]) (auto simp: less_Suc_eq_0_disj)
  qed (use Cons.prems f in \<open>auto intro!: exI [of _ 0]\<close>)
qed simp

lemma sv_join_handle [simp]: "sv_handle (snd (sv_join s)) = None"
  by (simp add: sv_join_def Let_def split: option.split thread_result.split res.split)

lemma sv_join_interrupt [simp]: "fst (sv_join (sv_interrupt s)) = fst (sv_join s)"
  by (simp add: sv_join_def sv_interrupt_def Let_def split: option.split thread_result.split res.split)

lemma sv_interrupt_fields [simp]:
  "sv_handle (sv_interrupt s) = sv_handle s" "sv_interrupted (sv_interrupt s)" "sv_receiver (sv_interrupt s) = sv_receiver s"
  by (simp_all add: sv_interrupt_def)


lemma pool_stop_interrupts: "pool_stop ss = (x, ss') \<Longrightarrow> length ss' = length ss \<and> (\<forall>s \<in> set ss'. sv_interrupted s)"
proof -
  assume st: "pool_stop ss = (x, ss')"
  let ?is = "map sv_interrupt ss"
  have "\<exists>k. ss' = map (snd \<circ> sv_join) (take k ?is) @ drop k ?is"
  proof (cases "x = Ok ()")
    case True
    then show ?thesis using st try_each_Ok [of sv_join ?is ss'] by (auto simp: pool_stop_def intro!: exI [of _ "length ss"])
  next
    case False
    with st try_each_fails [of sv_join ?is x ss'] show ?thesis by (auto simp: pool_stop_def)
  qed
  then obtain k where "ss' = map (snd \<circ> sv_join) (take k ?is) @ drop k ?is" by blast
  then show ?thesis by (auto dest!: in_set_takeD in_set_dropD)
qed

lemma pool_stop_joins: "pool_stop ss = (Ok (), ss') \<Longrightarrow> \<forall>s \<in> set ss'. sv_handle s = None"
  using try_each_Ok [of sv_join "map sv_interrupt ss" ss'] by (auto simp: pool_stop_def)

subsection \<open>Properties\<close>

text \<open>
  C29. Stopping a pool: every receiver is interrupted, whatever the threads' outcomes.  The
  result is \<open>Ok\<close> exactly when no thread failed, and then every thread was joined; otherwise
  it is the error (or panic) of the first thread that failed, and the threads after it are
  not joined.
\<close>

theorem pool_stop_spec:
  assumes "pool_stop ss = (x, ss')"
  shows "length ss' = length ss \<and> (\<forall>s \<in> set ss'. sv_interrupted s)
    \<and> (x = Ok () \<longleftrightarrow> (\<forall>s \<in> set ss. fst (sv_join s) = Ok ()))
    \<and> (if x = Ok () then \<forall>s \<in> set ss'. sv_handle s = None
       else \<exists>k < length ss. x = fst (sv_join (ss ! k)) \<and> (\<forall>j < k. fst (sv_join (ss ! j)) = Ok ())
              \<and> (\<forall>j < length ss. sv_handle (ss' ! j) = (if j \<le> k then None else sv_handle (ss ! j))))"
proof -
  let ?is = "map sv_interrupt ss"
  have st: "try_each sv_join ?is = (x, ss')" using assms by (simp add: pool_stop_def)
  note len = pool_stop_interrupts [OF assms]
  show ?thesis
  proof (cases "x = Ok ()")
    case True
    with st have ok: "\<forall>s \<in> set ss. fst (sv_join s) = Ok ()" "ss' = map (snd \<circ> sv_join) ?is"
      using try_each_Ok [of sv_join ?is ss'] by (simp_all add: list_all_iff)
    then have "\<forall>s \<in> set ss'. sv_handle s = None" by simp
    with True ok len show ?thesis by simp
  next
    case False
    from try_each_fails [OF st False] obtain k where k: "k < length ss" "fst (sv_join (ss ! k)) = x"
        "\<forall>j < k. fst (sv_join (ss ! j)) = Ok ()" "ss' = map (snd \<circ> sv_join) (take (Suc k) ?is) @ drop (Suc k) ?is"
      by auto
    have "sv_handle (ss' ! j) = (if j \<le> k then None else sv_handle (ss ! j))" if "j < length ss" for j
      using that k(1) by (simp add: k(4) nth_append min_def del: take_Suc)
    with k have "\<exists>k < length ss. x = fst (sv_join (ss ! k)) \<and> (\<forall>j < k. fst (sv_join (ss ! j)) = Ok ())
        \<and> (\<forall>j < length ss. sv_handle (ss' ! j) = (if j \<le> k then None else sv_handle (ss ! j)))"
      by (intro exI [of _ k]) simp
    moreover have "\<not> (\<forall>s \<in> set ss. fst (sv_join s) = Ok ())" using k(1,2) False nth_mem by force
    ultimately show ?thesis using len False by simp
  qed
qed

definition demo_svs :: "unit supervised list" where
  "demo_svs = [demo_sv Finished, demo_sv (Failed ''timed out|x''), demo_sv Finished]"

theorem pool_stop_spec_witness:
  "\<exists>x ss'. pool_stop demo_svs = (x, ss') \<and> x \<noteq> Ok () \<and> sv_interrupted (ss' ! 2)"
proof -
  obtain x ss' where st: "pool_stop demo_svs = (x, ss')" by (cases "pool_stop demo_svs")
  note p = pool_stop_spec [OF st]
  have "fst (sv_join (demo_sv (Failed ''timed out|x''))) \<noteq> Ok ()"
    by (simp add: sv_join_def demo_sv_def Let_def split: res.split)
  then have "x \<noteq> Ok ()" using p by (auto simp: demo_svs_def)
  moreover have "ss' ! 2 \<in> set ss'" using p by (simp add: demo_svs_def)
  ultimately show ?thesis using p st by blast
qed

text \<open>
  A stopped pool cannot be started again: unlike the receiver's, the pool's \<open>stop\<close> leaves
  the queues in place, so every receiver refuses to start, and \<open>start\<close> returns \<open>Ok\<close> having
  changed nothing: no thread runs.
\<close>

lemma pool_restart_void:
  assumes "pool_start_threads ss n endings = (Ok (), ss1)" and "length endings = length ss"
    and "pool_stop ss1 = (Ok (), ss2)" and "length endings' = length ss"
  shows "pool_start_threads ss2 m endings' = (Ok (), ss2) \<and> \<not> pool_is_running finished ss2"
proof -
  have ss2: "ss2 = map (snd \<circ> sv_join) (map sv_interrupt ss1)"
    using assms(3) try_each_Ok [of sv_join "map sv_interrupt ss1" ss2] by (simp add: pool_stop_def)
  have len: "length ss1 = length ss" using assms(1,2) by (auto simp: pool_start_threads_def)
  have "rv_fifo (sv_receiver (snd (sv_start s n e))) \<noteq> None" for s :: "'a supervised" and e
    by (auto simp: sv_start_def rv_start_def reset_counters_def)
  then have "\<forall>s \<in> set ss1. rv_fifo (sv_receiver s) \<noteq> None"
    using assms(1) by (fastforce simp: pool_start_threads_def in_set_zip)
  then have fifo: "\<forall>s \<in> set ss2. rv_fifo (sv_receiver s) \<noteq> None" by (auto simp: ss2)
  have same: "snd (sv_start s m e) = s" if "rv_fifo (sv_receiver s) \<noteq> None" for s :: "'a supervised" and e
    using that by (simp add: sv_start_def rv_start_def)
  have "map2 (\<lambda>s e. snd (sv_start s m e)) ss2 endings' = ss2"
    using fifo assms(4) len ss2 by (intro nth_equalityI) (auto simp: same)
  moreover have "\<forall>s \<in> set ss2. sv_handle s = None"
    using pool_stop_joins [OF assms(3)] .
  ultimately show ?thesis
    by (simp add: pool_start_threads_def pool_is_running_def sv_is_running_def list_ex_iff)
qed

lemma pool_restart_void_instance:
  "\<exists>ss1 ss2. pool_start_threads [demo_sv Finished\<lparr>sv_receiver := demo_receiver\<rparr>] 5 [Finished] = (Ok (), ss1)
     \<and> pool_stop ss1 = (Ok (), ss2) \<and> pool_start_threads ss2 5 [Finished] = (Ok (), ss2)"
proof -
  obtain ss1 where s1: "pool_start_threads [demo_sv Finished\<lparr>sv_receiver := demo_receiver\<rparr>] 5 [Finished] = (Ok (), ss1)"
    by (simp add: pool_start_threads_def)
  then have "list_all (\<lambda>s. fst (sv_join s) = Ok ()) (map sv_interrupt ss1)"
    by (auto simp: pool_start_threads_def sv_start_def rv_start_def sv_join_def demo_sv_def demo_receiver_def)
  then obtain ss2 where s2: "pool_stop ss1 = (Ok (), ss2)" by (simp add: pool_stop_def try_each_Ok)
  from pool_restart_void [OF s1 _ s2, of "[Finished]" 5] s1 s2 show ?thesis by auto
qed

end
