(* ===== verification/Bs_Async.thy ===== *)
theory Bs_Async
  imports Bs_PoolLife "HOL-Library.Multiset"
begin

section \<open>Asynchronous delivery (src/src/receiver.rs, src/src/pool.rs)\<close>

text \<open>
  \<open>start_async\<close> listens in a blocking task of a tokio runtime.  In sequential mode each
  endpoint gets a bounded channel and a task that awaits the callback for one message of the
  channel after the other; in concurrent mode each message gets a task of its own.

  \<^item> The tasks run under any scheduler: their steps, and those of the listener that hands
    over messages, are interleaved in any order.
  \<^item> tokio is a third-party library; of its \<open>mpsc\<close> channel the code relies on first-in
    first-out order, the bound (\<open>blocking_send\<close> waits while the channel is full), and an
    error of \<open>blocking_send\<close> once the receiving end is dropped.
\<close>

subsection \<open>Sequential delivery\<close>

definition ASYNC_BOUND :: nat where
  "ASYNC_BOUND = 1000"

text \<open>The channel of an endpoint and its task: what it is awaiting, and whether it lives.\<close>

record endpoint_task =
  et_queue :: "received_message list"
  et_running :: "received_message option"
  et_alive :: bool

definition task_new :: endpoint_task where
  "task_new = \<lparr>et_queue = [], et_running = None, et_alive = True\<rparr>"

text \<open>\<open>ad_sent\<close> lists the messages handed over, \<open>ad_called\<close> the callbacks started.\<close>

record async_delivery =
  ad_tasks :: "string \<Rightarrow> endpoint_task option"
  ad_sent :: "received_message list"
  ad_called :: "received_message list"

definition async_new :: async_delivery where
  "async_new = \<lparr>ad_tasks = Map.empty, ad_sent = [], ad_called = []\<rparr>"

definition async_endpoint :: "received_message \<Rightarrow> string" where
  "async_endpoint rm = (case rm_endpoint rm of Some e \<Rightarrow> e | None \<Rightarrow> [])"

text \<open>
  The callback given to \<open>listen_task\<close>: the endpoint's sender is looked up or made, and the
  message sent.  \<open>Ok None\<close> is a full channel (the listener waits and tries again), \<open>Panic\<close> the
  \<open>unwrap\<close> of the error of a channel whose task is gone.
\<close>

definition async_push :: "async_delivery \<Rightarrow> received_message \<Rightarrow> async_delivery option res" where
  "async_push ad rm =
     (let ep = async_endpoint rm;
          t = (case ad_tasks ad ep of Some t \<Rightarrow> t | None \<Rightarrow> task_new)
      in if \<not> et_alive t then Panic
         else if ASYNC_BOUND \<le> length (et_queue t) then Ok None
         else Ok (Some (ad\<lparr>ad_tasks := (ad_tasks ad)(ep \<mapsto> t\<lparr>et_queue := et_queue t @ [rm]\<rparr>),
                           ad_sent := ad_sent ad @ [rm]\<rparr>)))"

text \<open>The task: \<open>rx.recv\<close> hands out the next message, whose callback starts.\<close>

definition task_next :: "async_delivery \<Rightarrow> string \<Rightarrow> async_delivery option" where
  "task_next ad ep =
     (case ad_tasks ad ep of
        None \<Rightarrow> None
      | Some t \<Rightarrow>
          (if et_alive t \<and> et_running t = None
           then (case et_queue t of
                   [] \<Rightarrow> None
                 | rm # q \<Rightarrow> Some (ad\<lparr>ad_tasks := (ad_tasks ad)(ep \<mapsto> t\<lparr>et_queue := q, et_running := Some rm\<rparr>),
                                     ad_called := ad_called ad @ [rm]\<rparr>))
           else None))"

text \<open>The callback's future completes, or panics; then the task ends and drops its channel.\<close>

definition task_done :: "async_delivery \<Rightarrow> string \<Rightarrow> bool \<Rightarrow> async_delivery option" where
  "task_done ad ep panics =
     (case ad_tasks ad ep of
        None \<Rightarrow> None
      | Some t \<Rightarrow>
          (if et_running t = None then None
           else Some (ad\<lparr>ad_tasks := (ad_tasks ad)(ep \<mapsto>
             (if panics then t\<lparr>et_queue := [], et_running := None, et_alive := False\<rparr>
              else t\<lparr>et_running := None\<rparr>))\<rparr>)))"

inductive async_run :: "bool \<Rightarrow> async_delivery \<Rightarrow> bool" for crashes where
  start: "async_run crashes async_new"
| push: "async_run crashes ad \<Longrightarrow> async_push ad rm = Ok (Some ad') \<Longrightarrow> async_run crashes ad'"
| take: "async_run crashes ad \<Longrightarrow> task_next ad ep = Some ad' \<Longrightarrow> async_run crashes ad'"
| finish: "async_run crashes ad \<Longrightarrow> (p \<longrightarrow> crashes) \<Longrightarrow> task_done ad ep p = Some ad' \<Longrightarrow> async_run crashes ad'"

subsection \<open>Concurrent delivery\<close>

text \<open>Every message is spawned as a task at once; the tasks start in any order.\<close>

record spawned =
  sp_sent :: "received_message list"
  sp_pending :: "received_message list"
  sp_called :: "received_message list"

definition concurrent_push :: "spawned \<Rightarrow> received_message \<Rightarrow> spawned" where
  "concurrent_push s rm = s\<lparr>sp_sent := sp_sent s @ [rm], sp_pending := sp_pending s @ [rm]\<rparr>"

definition spawned_start :: "spawned \<Rightarrow> nat \<Rightarrow> spawned option" where
  "spawned_start s i =
     (if i < length (sp_pending s)
      then Some (s\<lparr>sp_pending := take i (sp_pending s) @ drop (Suc i) (sp_pending s),
                   sp_called := sp_called s @ [sp_pending s ! i]\<rparr>)
      else None)"

subsection \<open>Life cycle\<close>

record 's async_receiver =
  ar_base :: "'s supervised"
  ar_handle :: "thread_result option"

text \<open>\<open>ending\<close> is how the listening task will end.  A task that runs already is let go.\<close>

definition start_async :: "'s async_receiver \<Rightarrow> thread_result \<Rightarrow> 's async_receiver" where
  "start_async a ending =
     a\<lparr>ar_base := (ar_base a)\<lparr>sv_receiver := (reset_counters (sv_receiver (ar_base a)))
         \<lparr>rv_monitored := False, rv_delivery_mode := Async\<rparr>\<rparr>,
       ar_handle := Some ending\<rparr>"

text \<open>The receiver of the task has no queue, whatever the outer one has.\<close>

definition async_task_receiver :: "'s zmq \<Rightarrow> u32 \<Rightarrow> u32 \<Rightarrow> 's receiver \<Rightarrow> 's receiver res" where
  "async_task_receiver z index counter outer = listen_task_receiver z index counter (outer\<lparr>rv_fifo := None\<rparr>)"

definition join_async :: "'s async_receiver \<Rightarrow> unit res \<times> 's async_receiver" where
  "join_async a =
     (case ar_handle a of
        None \<Rightarrow> (Ok (), a)
      | Some t \<Rightarrow>
          ((case t of
              Finished \<Rightarrow> Ok ()
            | Failed desc \<Rightarrow> Err (OtherError, desc)
            | Crashed payload \<Rightarrow> Err (OtherError, ''Tokio join error: '' @ payload)),
           a\<lparr>ar_handle := None\<rparr>))"

definition ar_interrupt :: "'s async_receiver \<Rightarrow> 's async_receiver" where
  "ar_interrupt a = a\<lparr>ar_base := sv_interrupt (ar_base a)\<rparr>"

definition ar_is_running :: "(thread_result \<Rightarrow> bool) \<Rightarrow> 's async_receiver \<Rightarrow> bool" where
  "ar_is_running finished a \<longleftrightarrow>
     sv_is_running finished (ar_base a) \<or> (case ar_handle a of None \<Rightarrow> False | Some t \<Rightarrow> \<not> finished t)"

definition pool_start_async :: "'s async_receiver list \<Rightarrow> thread_result list \<Rightarrow> unit res \<times> 's async_receiver list" where
  "pool_start_async as endings = (Ok (), map2 start_async as endings)"

definition pool_stop_async :: "'s async_receiver list \<Rightarrow> unit res \<times> 's async_receiver list" where
  "pool_stop_async as = try_each join_async (map ar_interrupt as)"

subsection \<open>What is delivered\<close>

definition at_endpoint :: "string \<Rightarrow> received_message list \<Rightarrow> received_message list" where
  "at_endpoint ep ms = filter (\<lambda>m. async_endpoint m = ep) ms"

lemma at_endpoint_simps [simp]:
  "at_endpoint ep [] = []" "at_endpoint ep (xs @ ys) = at_endpoint ep xs @ at_endpoint ep ys"
  "at_endpoint ep (m # ms) = (if async_endpoint m = ep then m # at_endpoint ep ms else at_endpoint ep ms)"
  by (simp_all add: at_endpoint_def)

text \<open>
  The state of one endpoint: the messages called back are the first of those handed over,
  the others wait in the queue, and at most the last one called back is being awaited.
\<close>

definition endpoint_ok :: "bool \<Rightarrow> string \<Rightarrow> endpoint_task option \<Rightarrow> received_message list \<Rightarrow> received_message list \<Rightarrow> bool" where
  "endpoint_ok crashes ep task sent called \<longleftrightarrow>
     (case task of
        None \<Rightarrow> sent = [] \<and> called = []
      | Some t \<Rightarrow>
          length (et_queue t) \<le> ASYNC_BOUND \<and> set (et_queue t) \<subseteq> {m. async_endpoint m = ep}
          \<and> (if et_alive t then sent = called @ et_queue t
             else crashes \<and> et_queue t = [] \<and> et_running t = None \<and> (\<exists>lost. sent = called @ lost))
          \<and> (\<forall>m. et_running t = Some m \<longrightarrow> et_alive t \<and> called \<noteq> [] \<and> last called = m))"

definition async_inv :: "bool \<Rightarrow> async_delivery \<Rightarrow> bool" where
  "async_inv crashes ad \<longleftrightarrow>
     (\<forall>ep. endpoint_ok crashes ep (ad_tasks ad ep) (at_endpoint ep (ad_sent ad)) (at_endpoint ep (ad_called ad)))"

lemma async_inv_push:
  assumes "async_inv crashes ad" and "async_push ad rm = Ok (Some ad')"
  shows "async_inv crashes ad'"
proof -
  let ?ep = "async_endpoint rm"
  have i: "endpoint_ok crashes ?ep (ad_tasks ad ?ep) (at_endpoint ?ep (ad_sent ad)) (at_endpoint ?ep (ad_called ad))"
    using assms(1) by (simp add: async_inv_def)
  have "endpoint_ok crashes ?ep (ad_tasks ad' ?ep) (at_endpoint ?ep (ad_sent ad')) (at_endpoint ?ep (ad_called ad'))"
    using i assms(2)
    by (cases "ad_tasks ad ?ep") (auto simp: async_push_def Let_def endpoint_ok_def task_new_def split: if_splits)
  moreover have "ad_tasks ad' ep = ad_tasks ad ep" "at_endpoint ep (ad_sent ad') = at_endpoint ep (ad_sent ad)"
    "at_endpoint ep (ad_called ad') = at_endpoint ep (ad_called ad)" if "ep \<noteq> ?ep" for ep
    using assms(2) that by (auto simp: async_push_def Let_def split: if_splits)
  moreover have "endpoint_ok crashes ep (ad_tasks ad ep) (at_endpoint ep (ad_sent ad)) (at_endpoint ep (ad_called ad))" for ep
    using assms(1) by (simp add: async_inv_def)
  ultimately show ?thesis unfolding async_inv_def by metis
qed

lemma async_inv_next:
  assumes "async_inv crashes ad" and "task_next ad ep = Some ad'"
  shows "async_inv crashes ad'"
proof -
  from assms(2) obtain t rm q where t: "ad_tasks ad ep = Some t" "et_alive t" "et_running t = None" "et_queue t = rm # q"
      and ad': "ad' = ad\<lparr>ad_tasks := (ad_tasks ad)(ep \<mapsto> t\<lparr>et_queue := q, et_running := Some rm\<rparr>),
        ad_called := ad_called ad @ [rm]\<rparr>"
    by (auto simp: task_next_def split: option.splits if_splits list.splits)
  have i: "endpoint_ok crashes e (ad_tasks ad e) (at_endpoint e (ad_sent ad)) (at_endpoint e (ad_called ad))" for e
    using assms(1) by (simp add: async_inv_def)
  from i [of ep] t have "async_endpoint rm = ep" by (auto simp: endpoint_ok_def)
  then have "endpoint_ok crashes ep (ad_tasks ad' ep) (at_endpoint ep (ad_sent ad')) (at_endpoint ep (ad_called ad'))"
    using i [of ep] t by (simp add: endpoint_ok_def ad')
  moreover have "endpoint_ok crashes e (ad_tasks ad' e) (at_endpoint e (ad_sent ad')) (at_endpoint e (ad_called ad'))"
    if "e \<noteq> ep" for e
    using i [of e] that \<open>async_endpoint rm = ep\<close> by (simp add: ad')
  ultimately show ?thesis unfolding async_inv_def by metis
qed

lemma async_inv_done:
  assumes "async_inv crashes ad" and "p \<longrightarrow> crashes" and "task_done ad ep p = Some ad'"
  shows "async_inv crashes ad'"
proof -
  from assms(3) obtain t m where t: "ad_tasks ad ep = Some t" "et_running t = Some m"
      and ad': "ad' = ad\<lparr>ad_tasks := (ad_tasks ad)(ep \<mapsto>
        (if p then t\<lparr>et_queue := [], et_running := None, et_alive := False\<rparr> else t\<lparr>et_running := None\<rparr>))\<rparr>"
    by (auto simp: task_done_def split: option.splits if_splits)
  have i: "endpoint_ok crashes e (ad_tasks ad e) (at_endpoint e (ad_sent ad)) (at_endpoint e (ad_called ad))" for e
    using assms(1) by (simp add: async_inv_def)
  from i [of ep] t have a: "et_alive t" "at_endpoint ep (ad_sent ad) = at_endpoint ep (ad_called ad) @ et_queue t"
      "length (et_queue t) \<le> ASYNC_BOUND" "set (et_queue t) \<subseteq> {m. async_endpoint m = ep}"
    by (auto simp: endpoint_ok_def split: if_splits)
  have "endpoint_ok crashes ep (ad_tasks ad' ep) (at_endpoint ep (ad_sent ad')) (at_endpoint ep (ad_called ad'))"
    using a assms(2) by (auto simp: endpoint_ok_def ad')
  moreover have "endpoint_ok crashes e (ad_tasks ad' e) (at_endpoint e (ad_sent ad')) (at_endpoint e (ad_called ad'))"
    if "e \<noteq> ep" for e
    using i [of e] that by (simp add: ad')
  ultimately show ?thesis unfolding async_inv_def by metis
qed

lemma async_run_inv: "async_run crashes ad \<Longrightarrow> async_inv crashes ad"
proof (induction rule: async_run.induct)
  case start
  then show ?case by (simp add: async_inv_def async_new_def endpoint_ok_def)
next
  case (push ad rm ad')
  then show ?case by (blast intro: async_inv_push)
next
  case (take ad ep ad')
  then show ?case by (blast intro: async_inv_next)
next
  case (finish ad p ep ad')
  then show ?case by (blast intro: async_inv_done)
qed

text \<open>The tasks of an endpoint run to the end of its queue.\<close>

fun drain :: "nat \<Rightarrow> string \<Rightarrow> async_delivery \<Rightarrow> async_delivery" where
  "drain 0 ep ad = ad"
| "drain (Suc n) ep ad =
     (case task_done ad ep False of
        Some ad' \<Rightarrow> drain n ep ad'
      | None \<Rightarrow> (case task_next ad ep of Some ad' \<Rightarrow> drain n ep ad' | None \<Rightarrow> ad))"

lemma drain_all:
  assumes "ad_tasks ad ep = Some t" and "et_alive t"
    and "2 * length (et_queue t) + (if et_running t = None then 0 else 1) \<le> n"
  shows "ad_called (drain n ep ad) = ad_called ad @ et_queue t \<and> ad_sent (drain n ep ad) = ad_sent ad"
  using assms
proof (induction n arbitrary: ad t)
  case 0
  then show ?case by (auto split: if_splits)
next
  case (Suc n)
  show ?case
  proof (cases "et_running t")
    case None
    show ?thesis
    proof (cases "et_queue t")
      case Nil
      with Suc.prems None show ?thesis by (simp add: task_done_def task_next_def)
    next
      case (Cons rm q)
      let ?t = "t\<lparr>et_queue := q, et_running := Some rm\<rparr>"
      let ?ad = "ad\<lparr>ad_tasks := (ad_tasks ad)(ep \<mapsto> ?t), ad_called := ad_called ad @ [rm]\<rparr>"
      have "drain (Suc n) ep ad = drain n ep ?ad"
        using Suc.prems None Cons by (simp add: task_done_def task_next_def)
      moreover have "ad_called (drain n ep ?ad) = ad_called ?ad @ et_queue ?t \<and> ad_sent (drain n ep ?ad) = ad_sent ?ad"
        using Suc.prems None Cons by (intro Suc.IH) simp_all
      ultimately show ?thesis using Cons by simp
    qed
  next
    case (Some m)
    let ?t = "t\<lparr>et_running := None\<rparr>"
    let ?ad = "ad\<lparr>ad_tasks := (ad_tasks ad)(ep \<mapsto> ?t)\<rparr>"
    have "drain (Suc n) ep ad = drain n ep ?ad"
      using Suc.prems Some by (simp add: task_done_def)
    moreover have "ad_called (drain n ep ?ad) = ad_called ?ad @ et_queue ?t \<and> ad_sent (drain n ep ?ad) = ad_sent ?ad"
      using Suc.prems Some by (intro Suc.IH) simp_all
    ultimately show ?thesis by simp
  qed
qed

text \<open>
  C27. Sequential asynchronous delivery, under any scheduling of the listener and the tasks:
  while no callback panics, the messages called back for an endpoint are a prefix of those
  handed over for it, in order; one callback of an endpoint runs at a time; a channel holds
  at most 1000 messages; and nothing is lost, since running the endpoint's task calls back all
  that was handed over.  A push never panics, and waits only while its channel is full.
\<close>

theorem async_in_order:
  assumes "async_run False ad"
  shows "(\<forall>ep t. ad_tasks ad ep = Some t \<longrightarrow>
        at_endpoint ep (ad_sent ad) = at_endpoint ep (ad_called ad) @ et_queue t \<and> length (et_queue t) \<le> 1000
        \<and> (\<forall>m. et_running t = Some m \<longrightarrow> last (at_endpoint ep (ad_called ad)) = m \<and> task_next ad ep = None)
        \<and> at_endpoint ep (ad_called (drain (2 * length (et_queue t) + 1) ep ad)) = at_endpoint ep (ad_sent ad))
    \<and> (\<forall>ep. ad_tasks ad ep = None \<longrightarrow> at_endpoint ep (ad_sent ad) = [])
    \<and> (\<forall>rm. async_push ad rm \<noteq> Panic
        \<and> (async_push ad rm = Ok None \<longrightarrow>
            (\<exists>t. ad_tasks ad (async_endpoint rm) = Some t \<and> length (et_queue t) = 1000)))"
proof -
  have i: "endpoint_ok False ep (ad_tasks ad ep) (at_endpoint ep (ad_sent ad)) (at_endpoint ep (ad_called ad))" for ep
    using async_run_inv [OF assms] by (simp add: async_inv_def)
  have t: "et_alive t \<and> at_endpoint ep (ad_sent ad) = at_endpoint ep (ad_called ad) @ et_queue t \<and> length (et_queue t) \<le> 1000
      \<and> set (et_queue t) \<subseteq> {m. async_endpoint m = ep}
      \<and> (\<forall>m. et_running t = Some m \<longrightarrow> last (at_endpoint ep (ad_called ad)) = m)"
    if "ad_tasks ad ep = Some t" for ep t
    using i [of ep] that by (auto simp: endpoint_ok_def ASYNC_BOUND_def split: if_splits)
  have "at_endpoint ep (ad_called (drain (2 * length (et_queue t) + 1) ep ad)) = at_endpoint ep (ad_sent ad)"
    if "ad_tasks ad ep = Some t" for ep t
  proof -
    have "at_endpoint ep (et_queue t) = et_queue t"
      using t [OF that] by (auto simp: at_endpoint_def intro!: filter_True)
    then show ?thesis using drain_all [OF that, of "2 * length (et_queue t) + 1"] t [OF that] by simp
  qed
  moreover have "task_next ad ep = None" if "ad_tasks ad ep = Some t" "et_running t = Some m" for ep t m
    using that by (simp add: task_next_def)
  moreover have "at_endpoint ep (ad_sent ad) = []" if "ad_tasks ad ep = None" for ep
    using i [of ep] that by (simp add: endpoint_ok_def)
  moreover have "async_push ad rm \<noteq> Panic
      \<and> (async_push ad rm = Ok None \<longrightarrow> (\<exists>t. ad_tasks ad (async_endpoint rm) = Some t \<and> length (et_queue t) = 1000))" for rm
    using t [of "async_endpoint rm"]
    by (cases "ad_tasks ad (async_endpoint rm)") (auto simp: async_push_def Let_def task_new_def ASYNC_BOUND_def)
  ultimately show ?thesis using t by blast
qed

definition async_msg :: "u64 \<Rightarrow> received_message" where
  "async_msg pid = \<lparr>rm_endpoint = Some ''tcp'', rm_message = \<lparr>m_main_header = Map.empty, m_data_header = Map.empty,
     m_channels = [], m_data = im_new, m_id = pid, m_hash = [], m_htype = HTYPE, m_dh_compression = CompNone,
     m_timestamp = (0, 0), m_header_changed = None, m_raw = False\<rparr>\<rparr>"

theorem async_in_order_witness:
  "\<exists>ad t. async_run False ad \<and> ad_tasks ad ''tcp'' = Some t \<and> length (et_queue t) = 1
    \<and> at_endpoint ''tcp'' (ad_called ad) = [async_msg 1]
    \<and> at_endpoint ''tcp'' (ad_called (drain 3 ''tcp'' ad)) = [async_msg 1, async_msg 2]"
proof -
  have e: "async_endpoint (async_msg pid) = ''tcp''" for pid by (simp add: async_msg_def async_endpoint_def)
  let ?t1 = "task_new\<lparr>et_queue := [async_msg 1]\<rparr>" and ?t2 = "task_new\<lparr>et_queue := [], et_running := Some (async_msg 1)\<rparr>"
  let ?t3 = "task_new\<lparr>et_queue := [async_msg 2], et_running := Some (async_msg 1)\<rparr>"
  let ?a1 = "async_new\<lparr>ad_tasks := [''tcp'' \<mapsto> ?t1], ad_sent := [async_msg 1]\<rparr>"
  let ?a2 = "async_new\<lparr>ad_tasks := [''tcp'' \<mapsto> ?t2], ad_sent := [async_msg 1], ad_called := [async_msg 1]\<rparr>"
  let ?a3 = "async_new\<lparr>ad_tasks := [''tcp'' \<mapsto> ?t3], ad_sent := [async_msg 1, async_msg 2], ad_called := [async_msg 1]\<rparr>"
  have "async_push async_new (async_msg 1) = Ok (Some ?a1)"
    by (simp add: async_push_def e async_new_def task_new_def ASYNC_BOUND_def)
  then have "async_run False ?a1" by (rule async_run.push [OF async_run.start])
  moreover have "task_next ?a1 ''tcp'' = Some ?a2"
    by (simp add: task_next_def async_new_def task_new_def)
  ultimately have "async_run False ?a2" by (rule async_run.take)
  moreover have "async_push ?a2 (async_msg 2) = Ok (Some ?a3)"
    by (simp add: async_push_def e async_new_def task_new_def ASYNC_BOUND_def)
  ultimately have r: "async_run False ?a3" by (rule async_run.push)
  have t: "ad_tasks ?a3 ''tcp'' = Some ?t3" by simp
  have n: "2 * length (et_queue ?t3) + 1 = 3" by simp
  from async_in_order [OF r] t have "at_endpoint ''tcp'' (ad_called (drain 3 ''tcp'' ?a3)) = at_endpoint ''tcp'' (ad_sent ?a3)"
    unfolding n [symmetric] by blast
  moreover have "at_endpoint ''tcp'' (ad_sent ?a3) = [async_msg 1, async_msg 2]" "at_endpoint ''tcp'' (ad_called ?a3) = [async_msg 1]"
    by (simp_all add: e)
  ultimately show ?thesis using r t by (intro exI [of _ ?a3] exI [of _ ?t3]) simp
qed

text \<open>A callback that panicked takes the listener down with the next message of its endpoint.\<close>

lemma crashed_endpoint_panics:
  assumes "task_done ad (async_endpoint rm) True = Some ad'"
  shows "async_push ad' rm = Panic"
  using assms by (auto simp: task_done_def async_push_def split: option.splits if_splits)

text \<open>Concurrent delivery: every message is called back or pending, each as often as it came.\<close>

inductive spawned_run :: "spawned \<Rightarrow> bool" where
  start: "spawned_run \<lparr>sp_sent = [], sp_pending = [], sp_called = []\<rparr>"
| push: "spawned_run s \<Longrightarrow> spawned_run (concurrent_push s rm)"
| take: "spawned_run s \<Longrightarrow> spawned_start s i = Some s' \<Longrightarrow> spawned_run s'"

lemma spawned_all: "spawned_run s \<Longrightarrow> mset (sp_sent s) = mset (sp_called s) + mset (sp_pending s)"
proof (induction rule: spawned_run.induct)
  case (take s i s')
  then have i: "i < length (sp_pending s)"
    and s': "s' = s\<lparr>sp_pending := take i (sp_pending s) @ drop (Suc i) (sp_pending s), sp_called := sp_called s @ [sp_pending s ! i]\<rparr>"
    by (auto simp: spawned_start_def split: if_splits)
  have "mset (sp_pending s) = mset (take i (sp_pending s) @ sp_pending s ! i # drop (Suc i) (sp_pending s))"
    using id_take_nth_drop [OF i] by simp
  with take.IH show ?case by (simp add: s')
qed (simp_all add: concurrent_push_def)

subsection \<open>Lemmas on the life cycle\<close>

lemma async_task_receiver_inv:
  assumes "async_task_receiver z i c outer = Ok r"
  shows "receiver_inv r \<and> rv_fifo r = None"
  using listen_task_receiver_inv [OF assms [unfolded async_task_receiver_def]] by simp

lemma join_async_base [simp]:
  "ar_base (snd (join_async a)) = ar_base a"
  "fst (join_async (ar_interrupt a)) = fst (join_async a)"
  by (simp_all add: join_async_def ar_interrupt_def split: option.split)

lemma ar_interrupt_fields [simp]:
  "ar_handle (ar_interrupt a) = ar_handle a" "sv_interrupted (ar_base (ar_interrupt a))"
  by (simp_all add: ar_interrupt_def sv_interrupt_def)

lemma set_upto: "set (map f (take n xs) @ drop n xs) \<subseteq> f ` set xs \<union> set xs"
  by (auto dest: in_set_takeD in_set_dropD)

lemma join_async_Ok: "fst (join_async a) = Ok () \<longleftrightarrow> ar_handle a \<in> {None, Some Finished}"
  by (auto simp: join_async_def split: option.splits thread_result.splits)

text \<open>
  Stopping a pool asynchronously interrupts every receiver, and succeeds exactly when no task
  failed; the tasks after the first that failed are not joined.
\<close>

lemma pool_stop_async_spec:
  assumes "pool_stop_async as = (x, as')"
  shows "length as' = length as \<and> (\<forall>a \<in> set as'. sv_interrupted (ar_base a))
    \<and> (x = Ok () \<longleftrightarrow> (\<forall>a \<in> set as. ar_handle a \<in> {None, Some Finished}))"
proof (cases "x = Ok ()")
  case True
  then have "list_all (\<lambda>a. fst (join_async a) = Ok ()) (map ar_interrupt as)" "as' = map (snd \<circ> join_async) (map ar_interrupt as)"
    using assms unfolding pool_stop_async_def True try_each_Ok by simp_all
  with True show ?thesis by (simp add: list_all_iff join_async_Ok)
next
  case False
  then obtain k where k: "k < length (map ar_interrupt as)" "fst (join_async (map ar_interrupt as ! k)) = x"
      "as' = map (snd \<circ> join_async) (take (Suc k) (map ar_interrupt as)) @ drop (Suc k) (map ar_interrupt as)"
    using try_each_fails [OF assms [unfolded pool_stop_async_def] False] by blast
  have j: "k < length as" using k(1) by simp
  have "ar_handle (as ! k) \<notin> {None, Some Finished}"
    using k(2) False join_async_Ok [of "as ! k"] j by auto
  then have "\<not> (\<forall>a \<in> set as. ar_handle a \<in> {None, Some Finished})" using nth_mem [OF j] by blast
  moreover have "set as' \<subseteq> (snd \<circ> join_async) ` set (map ar_interrupt as) \<union> set (map ar_interrupt as)"
    unfolding k(3) by (rule set_upto)
  then have "\<forall>a \<in> set as'. sv_interrupted (ar_base a)" by auto
  moreover have "length as' = length as" using j by (simp add: k(3))
  ultimately show ?thesis using False by blast
qed

end
