(* ===== verification/Bs_Reachable.thy ===== *)
theory Bs_Reachable
  imports Bs_Async
begin

section \<open>Reachable receivers (src/src/receiver.rs)\<close>

text \<open>
  The receivers that any use of the interface can produce, on either side of a listening
  thread or task, and what holds on all of them.
\<close>

subsection \<open>Operations and the invariant\<close>

text \<open>The invariant speaks of the header cache and the sockets only.\<close>

lemma receiver_inv_same:
  "rv_header_buffer r' = rv_header_buffer r \<Longrightarrow> rv_sockets r' = rv_sockets r \<Longrightarrow> receiver_inv r' = receiver_inv r"
  by (simp add: receiver_inv_def)

lemma receiver_inv_sockets:
  "receiver_inv r \<Longrightarrow> polls_inv s \<Longrightarrow> receiver_inv (r\<lparr>rv_sockets := s\<rparr>)"
  by (simp add: receiver_inv_def)

lemma each_socket_length: "length (fst (each_socket f ss)) = length ss"
  by (induction ss) (auto simp: Let_def split: prod.split option.split)

lemma map2_keys:
  "length xs = length ss \<Longrightarrow> map fst (map2 (\<lambda>(ep, ts) x. (ep, g ts x)) ss xs) = map fst ss"
proof (induction ss arbitrary: xs)
  case (Cons s ss)
  then show ?case by (cases s; cases xs) auto
qed simp

lemma put_sockets_inv:
  assumes "polls_inv s" and "\<And>ss polls ready. s = Individual ss polls ready \<Longrightarrow> length xs = length ss"
  shows "polls_inv (put_sockets xs s)"
proof (cases s)
  case (Individual ss polls ready)
  with assms have "length xs = length ss" by simp
  from map2_keys [OF this, of "\<lambda>ts x. ts\<lparr>ts_socket := x\<rparr>"] Individual assms(1) show ?thesis by auto
qed simp

lemma apply_options_inv:
  assumes "receiver_inv r"
  shows "receiver_inv (snd (apply_options z r))"
proof -
  obtain xs e where o: "set_options z (rv_options r) (zmq_sockets r) = (xs, e)"
    by (cases "set_options z (rv_options r) (zmq_sockets r)")
  then have "length xs = length (zmq_sockets r)"
    using each_socket_length [of "socket_options_set z (rv_options r)" "zmq_sockets r"] by (simp add: set_options_def)
  then have "polls_inv (put_sockets xs (rv_sockets r))"
    using assms by (intro put_sockets_inv) (auto simp: receiver_inv_def zmq_sockets_def all_sockets_def)
  with assms show ?thesis unfolding apply_options_def o by (simp add: receiver_inv_sockets)
qed

lemma options_inv:
  assumes "receiver_inv r"
  shows "receiver_inv (snd (rv_set_linger z r v))" "receiver_inv (snd (rv_set_rcvhwm z r v))"
    "receiver_inv (snd (rv_set_sndhwm z r v))" "receiver_inv (snd (rv_set_keepalive z r v v' v''))"
    "receiver_inv (snd (rv_set_heartbeat z r v v' v''))"
  using assms unfolding rv_set_linger_def rv_set_rcvhwm_def rv_set_sndhwm_def rv_set_keepalive_def rv_set_heartbeat_def
  by (intro apply_options_inv; simp add: receiver_inv_def)+

lemma enable_each_keys: "enable_each z envs ss = (x, ss', cs) \<Longrightarrow> map fst ss' = map fst ss"
  by (induction z envs ss arbitrary: x ss' cs rule: enable_each.induct)
    (fastforce simp: Let_def split: prod.splits res.splits)+

lemma disable_each_keys: "disable_each z ss = (x, ss', cs) \<Longrightarrow> map fst ss' = map fst ss"
  by (induction z ss arbitrary: x ss' cs rule: disable_each.induct)
    (fastforce simp: Let_def split: prod.splits res.splits)+

lemma set_socket_inv: "polls_inv s \<Longrightarrow> polls_inv (set_socket ep ts s)"
  by (cases s) auto

lemma shared_monitoring_inv:
  assumes "receiver_inv r"
  shows "enable_shared_monitoring z envs r = (x, r', cs) \<Longrightarrow> receiver_inv r'"
    and "disable_shared_monitoring z r = (x, r', cs) \<Longrightarrow> receiver_inv r'"
  using assms
  by (auto simp: enable_shared_monitoring_def disable_shared_monitoring_def receiver_inv_def Let_def
      dest!: enable_each_keys disable_each_keys split: connection_sockets.splits prod.splits)

lemma socket_monitoring_inv:
  assumes "receiver_inv r"
  shows "enable_shared_monitoring_socket z env r ep = (x, r', cs) \<Longrightarrow> receiver_inv r'"
    and "disable_shared_monitoring_socket z r ep = (x, r', cs) \<Longrightarrow> receiver_inv r'"
  using assms
  by (auto simp: enable_shared_monitoring_socket_def disable_shared_monitoring_socket_def receiver_inv_def
      intro: set_socket_inv split: option.splits prod.splits)

lemma enable_monitoring_inv:
  assumes "receiver_inv r"
  shows "receiver_inv (snd (rv_enable_monitoring z envs r))"
proof -
  obtain x r' cs where m: "enable_shared_monitoring z envs r = (x, r', cs)"
    by (cases "enable_shared_monitoring z envs r")
  from shared_monitoring_inv(1) [OF assms this] assms m show ?thesis
    by (auto simp: rv_enable_monitoring_def receiver_inv_def split: res.split)
qed

lemma rv_wait_inv: "receiver_inv r \<Longrightarrow> rv_wait r env t = (x, r') \<Longrightarrow> receiver_inv r'"
  by (auto simp: rv_wait_def receiver_inv_def split: option.splits prod.splits)

lemma sockets_clear_inv: "polls_inv s \<Longrightarrow> polls_inv (sockets_clear s)"
  by (cases s) simp_all

lemma rv_drop_inv: "receiver_inv r \<Longrightarrow> receiver_inv (rv_drop z app r)"
  using sockets_clear_inv [of "rv_sockets r"]
  by (auto simp: rv_drop_def stop_forwarder_def receiver_inv_def Let_def)

lemma sv_stop_inv: "receiver_inv (sv_receiver s) \<Longrightarrow> receiver_inv (sv_receiver (snd (sv_stop s)))"
  using sv_stop_Ok [of s "snd (sv_stop s)"] sv_stop_other [of s "fst (sv_stop s)" "snd (sv_stop s)"]
  by (cases "fst (sv_stop s) = Ok ()") (auto simp: receiver_inv_def prod_eq_iff)

lemma task_receiver_inv: "listen_task_receiver z i c outer = Ok r \<Longrightarrow> receiver_inv r"
  using listen_task_receiver_inv by blast

subsection \<open>Reachability\<close>

text \<open>
  Made by \<open>new\<close> or by the thread or task that another one starts, then any operations of the
  interface in any order.  The rules of the second group are the operations that reach a
  receiver from elsewhere: commands that the listening thread runs, what the other side does
  to the fields behind shared pointers, and changes through a socket that \<open>socket\<close> or
  \<open>sockets\<close> has handed out.  Operations not listed change nothing, or are made of these.
\<close>

inductive managed :: "ext \<Rightarrow> 's zmq \<Rightarrow> 's receiver \<Rightarrow> bool" for L z where
  created: "receiver_new z i c eps st cm = Ok r \<Longrightarrow> managed L z r"
| received: "managed L z r \<Longrightarrow> receive L z sim r = (res, r') \<Longrightarrow> managed L z r'"
| listened: "managed L z r \<Longrightarrow> listen L z app n r env inputs = Some (lres, out, r') \<Longrightarrow> managed L z r'"
| connected: "managed L z r \<Longrightarrow> rv_connect z env remote r = Some (x, r') \<Longrightarrow> managed L z r'"
| disconnected: "managed L z r \<Longrightarrow> managed L z (rv_disconnect z r)"
| added: "managed L z r \<Longrightarrow> add_endpoint z env remote r ep = Some (x, r') \<Longrightarrow> managed L z r'"
| removed: "managed L z r \<Longrightarrow> managed L z (remove_endpoint z r ep)"
| started: "managed L z r \<Longrightarrow> managed L z (snd (rv_start r n))"
| forked: "managed L z (sv_receiver s) \<Longrightarrow> managed L z (sv_receiver (sv_fork s ending))"
| stopped: "managed L z (sv_receiver s) \<Longrightarrow> managed L z (sv_receiver (snd (sv_stop s)))"
| started_async: "managed L z (sv_receiver (ar_base a)) \<Longrightarrow> managed L z (sv_receiver (ar_base (start_async a ending)))"
| got: "managed L z r \<Longrightarrow> managed L z (snd (rv_get r))"
| waited: "managed L z r \<Longrightarrow> rv_wait r wenv t = (wres, r') \<Longrightarrow> managed L z r'"
| counters_reset: "managed L z r \<Longrightarrow> managed L z (reset_counters r)"
| checks_on: "managed L z r \<Longrightarrow> managed L z (enable_check r chk)"
| checks_off: "managed L z r \<Longrightarrow> managed L z (disable_check r chk)"
| raw_set: "managed L z r \<Longrightarrow> managed L z (set_raw r b)"
| forwarder_set: "managed L z r \<Longrightarrow> managed L z (set_forwarder r f)"
| forwarder_configured: "managed L z r \<Longrightarrow> managed L z (set_forwarder_config r cfg)"
| forwarder_stopped: "managed L z r \<Longrightarrow> managed L z (stop_forwarder z app r)"
| linger_set: "managed L z r \<Longrightarrow> managed L z (snd (rv_set_linger z r v))"
| rcvhwm_set: "managed L z r \<Longrightarrow> managed L z (snd (rv_set_rcvhwm z r v))"
| sndhwm_set: "managed L z r \<Longrightarrow> managed L z (snd (rv_set_sndhwm z r v))"
| keepalive_set: "managed L z r \<Longrightarrow> managed L z (snd (rv_set_keepalive z r v v' v''))"
| heartbeat_set: "managed L z r \<Longrightarrow> managed L z (snd (rv_set_heartbeat z r v v' v''))"
| monitored: "managed L z r \<Longrightarrow> managed L z (snd (rv_enable_monitoring z envs r))"
| shared_on: "managed L z r \<Longrightarrow> enable_shared_monitoring z envs r = (x, r', cs) \<Longrightarrow> managed L z r'"
| shared_off: "managed L z r \<Longrightarrow> disable_shared_monitoring z r = (x, r', cs) \<Longrightarrow> managed L z r'"
| socket_on: "managed L z r \<Longrightarrow> enable_shared_monitoring_socket z env r ep = (x, r', cs) \<Longrightarrow> managed L z r'"
| socket_off: "managed L z r \<Longrightarrow> disable_shared_monitoring_socket z r ep = (x, r', cs) \<Longrightarrow> managed L z r'"
| dropped: "managed L z r \<Longrightarrow> managed L z (rv_drop z app r)"
| in_thread: "managed L z outer \<Longrightarrow> managed L z after
    \<Longrightarrow> listen_task_receiver z i c (handed_over outer after) = Ok r \<Longrightarrow> managed L z r"
| in_task: "managed L z outer \<Longrightarrow> async_task_receiver z i c outer = Ok r \<Longrightarrow> managed L z r"
| commanded: "managed L z r \<Longrightarrow> run_command z env r cmd = Some (x, r') \<Longrightarrow> managed L z r'"
| fields_shared: "managed L z outer \<Longrightarrow> managed L z (share_fields inner outer)"
| queue_shared: "managed L z r \<Longrightarrow> managed L z (r\<lparr>rv_fifo := q\<rparr>)"
| socket_used: "managed L z r \<Longrightarrow> managed L z (r\<lparr>rv_sockets := set_socket ep ts (rv_sockets r)\<rparr>)"

lemma run_command_inv: "receiver_inv r \<Longrightarrow> run_command z env r cmd = Some (x, r') \<Longrightarrow> receiver_inv r'"
  using run_commands_keeps [of r z env "[cmd]"] by (cases x) (auto simp: keeps_def)

lemma plain_ops_inv:
  assumes "receiver_inv r"
  shows "receiver_inv (snd (rv_start r n))" "receiver_inv (snd (rv_get r))" "receiver_inv (reset_counters r)"
    "receiver_inv (enable_check r chk)" "receiver_inv (disable_check r chk)" "receiver_inv (set_raw r b)"
    "receiver_inv (set_forwarder r f)" "receiver_inv (set_forwarder_config r cfg)" "receiver_inv (stop_forwarder z app r)"
    "receiver_inv (share_fields inner r)" "receiver_inv (r\<lparr>rv_fifo := q\<rparr>)"
  using assms
  by (auto simp: rv_start_def rv_get_def reset_counters_def enable_check_def disable_check_def set_raw_def
      set_forwarder_def set_forwarder_config_def stop_forwarder_def share_fields_def receiver_inv_def
      split: option.split prod.split)

lemma managed_inv: "managed L z r \<Longrightarrow> receiver_inv r"
proof (induction rule: managed.induct)
  case (created i c eps st cm r)
  then show ?case by (rule receiver_new_inv)
next
  case (received r sim res r')
  show ?case by (rule receive_frame(1) [OF received(2,3)])
next
  case (listened r app n env inputs lres out r')
  with listen_counts [of r L z app n env inputs] show ?case by auto
next
  case (connected r env remote x r')
  with rv_connect_keeps [of r z env remote] show ?case by (auto intro: keepsD)
next
  case (disconnected r)
  with rv_disconnect_keeps [of r "Ok ()" z] show ?case by (auto intro: keepsD)
next
  case (added r env remote ep x r')
  with add_endpoint_keeps [of r z env remote ep] show ?case by (auto intro: keepsD)
next
  case (removed r ep)
  with remove_endpoint_keeps [of r "Ok ()" z ep] show ?case by (auto intro: keepsD)
next
  case (forked s ending)
  then show ?case by (simp add: sv_fork_def receiver_inv_def)
next
  case (started_async a ending)
  then show ?case by (simp add: start_async_def receiver_inv_def reset_counters_def)
next
  case (in_task outer i c r)
  from in_task(2) show ?case unfolding async_task_receiver_def by (rule task_receiver_inv)
next
  case (socket_used r ep ts)
  then show ?case by (simp add: receiver_inv_def set_socket_inv)
next
  case (waited r wenv t wres r')
  from rv_wait_inv [OF waited(3,2)] show ?case .
next
  case (shared_on r envs x r' cs)
  from shared_monitoring_inv(1) [OF shared_on(3,2)] show ?case .
next
  case (shared_off r x r' cs)
  from shared_monitoring_inv(2) [OF shared_off(3,2)] show ?case .
next
  case (socket_on r env ep x r' cs)
  from socket_monitoring_inv(1) [OF socket_on(3,2)] show ?case .
next
  case (socket_off r ep x r' cs)
  from socket_monitoring_inv(2) [OF socket_off(3,2)] show ?case .
next
  case (in_thread outer after i c r)
  from in_thread(3) show ?case by (rule task_receiver_inv)
next
  case (commanded r env cmd x r')
  from run_command_inv [OF commanded(3,2)] show ?case .
qed (simp_all add: plain_ops_inv options_inv enable_monitoring_inv sv_stop_inv rv_drop_inv)

subsection \<open>Properties\<close>

text \<open>
  C18. Invariant and termination: on every receiver reachable through the interface, on
  either side of a listening thread or task, the poll list is the list of the sockets
  without repetition and the header cache is well formed.  Therefore the loop that shrinks
  the header cache ends: \<open>connect\<close> and \<open>add_endpoint\<close> return (sent to a thread, with the
  answer it is given), and no iteration of \<open>listen\<close> gets stuck.  \<open>listen\<close> is then either
  still in its loop, which no iteration has told to stop, or has returned; it has returned
  once an iteration saw the interruption flag.
\<close>

theorem reachable_receiver_safe:
  assumes "managed L z r"
  shows "polls_inv (rv_sockets r) \<and> lhm_ok (rv_header_buffer r)
    \<and> (\<exists>res r'. rv_connect z env remote r = Some (res, r'))
    \<and> (\<exists>res r'. add_endpoint z env remote r ep = Some (res, r'))
    \<and> (\<exists>res out r'. listen L z app n r env inputs = Some (res, out, r')
        \<and> ((\<exists>i \<in> set inputs. li_interrupted i) \<longrightarrow> res \<noteq> None))"
proof -
  note inv = managed_inv [OF assms]
  show ?thesis
    using inv rv_connect_keeps [OF inv, of z env remote] add_endpoint_keeps [OF inv, of z env remote ep]
      listen_counts [OF inv, of L z app n env inputs]
    by (auto simp: receiver_inv_def keeps_def)
qed

text \<open>A new receiver whose options are set and monitoring switched on, then listening until interrupted.\<close>

theorem reachable_receiver_safe_witness:
  "\<exists>r r' res out r''. demo_new = Ok r
    \<and> r' = snd (rv_enable_monitoring demo_zmq (\<lambda>_. demo_env) (snd (rv_set_linger demo_zmq r 0)))
    \<and> listen demo_ext demo_zmq None None r' demo_env [demo_input False, demo_input True] = Some (Some res, out, r'')"
proof -
  obtain r where r: "demo_new = Ok r" by (simp add: demo_new_def receiver_new_def)
  let ?r' = "snd (rv_enable_monitoring demo_zmq (\<lambda>_. demo_env) (snd (rv_set_linger demo_zmq r 0)))"
  have "managed demo_ext demo_zmq r" using r unfolding demo_new_def by (rule managed.created)
  then have "managed demo_ext demo_zmq ?r'" by (intro managed.monitored managed.linger_set)
  from reachable_receiver_safe [OF this, of demo_env "\<lambda>_. Ok ()" "[]" None None "[demo_input False, demo_input True]"] r
  show ?thesis by (auto simp: demo_input_def)
qed

end
