(* ===== verification/Bs_Typing.thy ===== *)
theory Bs_Typing
  imports Bs_Accounting
begin

section \<open>The types of received values (src/src/channel.rs, src/src/message.rs, src/src/receiver.rs)\<close>

text \<open>
  Whatever bytes arrive, a value that is delivered has the type its channel declares: the
  variant of the channel's type, an array exactly when the shape says so, and as many
  elements as the shape.  In raw mode every value is a byte array.
\<close>

subsection \<open>Values of a channel\<close>

definition well_typed :: "channel \<Rightarrow> bvalue \<Rightarrow> bool" where
  "well_typed ch v \<longleftrightarrow>
     accepts (cfg_kind (ch_config ch)) (cfg_shape (ch_config ch)) v
     \<and> (is_array v \<longrightarrow> size_of v = cfg_elements (ch_config ch))"

lemma read_exact_length: "read_exact c n = Ok (bs, c') \<Longrightarrow> length bs = n"
  by (auto simp: read_exact_Ok_iff)

lemma read_words_length:
  assumes "read_words_into L e n c = Ok (ws :: 'a::len word list, c')" and "0 < nbytes TYPE('a)"
  shows "length ws = n"
  using assms by (auto simp: read_words_into_def res_simps length_chunks_exact dest: read_exact_length)

lemma read_bools_length: "READER_ABOOL n c = Ok (bs, c') \<Longrightarrow> length bs = n"
  by (induction n arbitrary: c bs) (auto simp: res_simps)

text \<open>The array readers fill the whole slice they are given.\<close>

lemmas words_readers = READER_AI16_def READER_AI32_def READER_AI64_def READER_AU16_def READER_AU32_def READER_AU64_def
  READER_AF32_def READER_AF64_def READER_ABI16_def READER_ABI32_def READER_ABI64_def READER_ABU16_def READER_ABU32_def
  READER_ABU64_def READER_ABF32_def READER_ABF64_def

lemma reader_lengths:
  "READER_ABOOL n c = Ok (bools, c') \<Longrightarrow> length bools = n"
  "READER_AI8 n c = Ok (i8s, c') \<Longrightarrow> length i8s = n" "READER_AU8 n c = Ok (u8s, c') \<Longrightarrow> length u8s = n"
  by (simp_all add: read_bools_length READER_AI8_def READER_AU8_def read_exact_length)

lemma word_reader_lengths:
  "READER_AI16 L n c = Ok (a, c') \<Longrightarrow> length a = n" "READER_AI32 L n c = Ok (b, c') \<Longrightarrow> length b = n"
  "READER_AI64 L n c = Ok (d, c') \<Longrightarrow> length d = n" "READER_AU16 L n c = Ok (a, c') \<Longrightarrow> length a = n"
  "READER_AU32 L n c = Ok (b, c') \<Longrightarrow> length b = n" "READER_AU64 L n c = Ok (d, c') \<Longrightarrow> length d = n"
  "READER_AF32 L n c = Ok (b, c') \<Longrightarrow> length b = n" "READER_AF64 L n c = Ok (d, c') \<Longrightarrow> length d = n"
  "READER_ABI16 L n c = Ok (a, c') \<Longrightarrow> length a = n" "READER_ABI32 L n c = Ok (b, c') \<Longrightarrow> length b = n"
  "READER_ABI64 L n c = Ok (d, c') \<Longrightarrow> length d = n" "READER_ABU16 L n c = Ok (a, c') \<Longrightarrow> length a = n"
  "READER_ABU32 L n c = Ok (b, c') \<Longrightarrow> length b = n" "READER_ABU64 L n c = Ok (d, c') \<Longrightarrow> length d = n"
  "READER_ABF32 L n c = Ok (b, c') \<Longrightarrow> length b = n" "READER_ABF64 L n c = Ok (d, c') \<Longrightarrow> length d = n"
  by (simp_all add: words_readers read_words_length nbytes_simps)

lemma array_typed:
  assumes "channel_new_array L cfg = Ok ch" and "cfg_kind cfg \<noteq> ''string''" and "ch_read ch c = Ok (v, c')"
  shows "kind v = cfg_kind cfg \<and> is_array v \<and> size_of v = cfg_elements cfg \<and> as_astr v = None"
proof -
  have "cfg_kind cfg \<in> set supported_kinds"
    using array_new_eq [of cfg L] assms(1) by (auto split: if_splits)
  from kind_cases [OF this assms(2)] assms(1,3) show ?thesis
    by (elim disjE; cases "cfg_little_endian cfg")
      (auto simp: channel_new_array_def Let_def channel_array_def res_simps dest!: reader_lengths word_reader_lengths)
qed

lemma scalar_typed:
  assumes "channel_new_scalar L cfg = Ok ch" and "cfg_kind cfg \<noteq> ''string''" and "ch_read ch c = Ok (v, c')"
  shows "kind v = cfg_kind cfg \<and> \<not> is_array v \<and> as_str_value v = None"
proof -
  have "cfg_kind cfg \<in> set supported_kinds"
    using scalar_new_eq [of cfg L] assms(1) by (auto split: if_splits)
  from kind_cases [OF this assms(2)] assms(1,3) show ?thesis
    by (elim disjE; cases "cfg_little_endian cfg")
      (auto simp: channel_new_scalar_def Let_def channel_scalar_def res_simps)
qed

lemma string_typed:
  assumes "READER_STRING L c = Ok (s, c')"
  shows "utf8_valid (str_bytes s)"
  using assms by (auto simp: READER_STRING_def Let_def split: prod.splits if_splits)

lemma channel_read_typed:
  assumes "channel_new L name typ shape le cmpr False = Ok ch" and "ch_read ch c = Ok (v, c')"
  shows "well_typed ch v"
proof -
  let ?cfg = "mk_config name typ shape le cmpr False"
  have cfg: "ch_config ch = ?cfg" using channel_new_config [OF assms(1)] by simp
  have k: "cfg_kind ?cfg = typ" "cfg_shape ?cfg = shape" by (simp_all add: mk_config_def)
  show ?thesis
  proof (cases "typ = ''string''")
    case True
    with assms channel_new_string obtain s where "v = VSTR s" "utf8_valid (str_bytes s)"
      by (fastforce simp: channel_scalar_def res_simps dest: string_typed)
    with True k show ?thesis by (simp add: well_typed_def accepts_def cfg)
  next
    case False
    note n = assms(1) [unfolded channel_new_def]
    show ?thesis
    proof (cases "shape_is_array shape")
      case True
      with n have "channel_new_array L ?cfg = Ok ch" by simp
      from array_typed [OF this _ assms(2)] False k True show ?thesis
        by (cases v) (auto simp: well_typed_def accepts_def cfg)
    next
      case sc: False
      with n have "channel_new_scalar L ?cfg = Ok ch" by simp
      from scalar_typed [OF this _ assms(2)] False k sc show ?thesis
        by (cases v) (auto simp: well_typed_def accepts_def cfg)
    qed
  qed
qed

subsection \<open>Messages\<close>

text \<open>A datum of a channel, in a message that is raw or not.\<close>

definition typed_datum :: "bool \<Rightarrow> channel list \<Rightarrow> string \<Rightarrow> channel_data \<Rightarrow> bool" where
  "typed_datum raw chs name cd \<longleftrightarrow>
     (if raw then \<exists>bs. cd_value cd = AU8 bs
      else \<exists>ch \<in> set chs. ch_name ch = name \<and> well_typed ch (cd_value cd))"

definition typed_message :: "message \<Rightarrow> bool" where
  "typed_message m \<longleftrightarrow>
     (\<forall>name cd. message_channel_data m name = Some cd \<longrightarrow> typed_datum (m_raw m) (m_channels m) name cd)"

text \<open>Channels as \<open>parse_channels\<close> makes them.\<close>

definition made :: "ext \<Rightarrow> bool \<Rightarrow> channel \<Rightarrow> bool" where
  "made L raw ch \<longleftrightarrow> (\<exists>name typ shape le cmpr. channel_new L name typ shape le cmpr raw = Ok ch)"

lemma parse_channel_made: "parse_channel L h raw = Ok ch \<Longrightarrow> made L raw ch"
  unfolding made_def by (auto simp: parse_channel_def Let_def res_simps) blast

lemma parse_channels_made:
  assumes "parse_channels L dh raw = Ok chs"
  shows "\<forall>ch \<in> set chs. made L raw ch"
proof
  fix ch
  assume "ch \<in> set chs"
  then obtain i where i: "i < length chs" "ch = chs ! i" by (auto simp: in_set_conv_nth)
  from assms obtain items where "res_mapM (\<lambda>item. res_bind (ok_or (InvalidInput, ''Invalid format: is not an object'') (json_object item))
      (\<lambda>h. unwrap (parse_channel L h raw))) items = Ok chs"
    by (auto simp: parse_channels_def res_simps)
  note m = res_mapM_length [OF this] res_mapM_nth [OF this, of i]
  with i show "made L raw ch" by (auto simp: res_simps dest: parse_channel_made)
qed

lemma parse_channel_data_typed:
  assumes "parse_channel_data L gts ch v t raw = Ok cd" and "made L raw ch"
  shows "if raw then \<exists>bs. cd_value cd = AU8 bs else well_typed ch (cd_value cd)"
proof (cases raw)
  case True
  with assms(1) show ?thesis by (auto simp: parse_channel_data_def Let_def res_simps)
next
  case False
  with assms(2) obtain name ty shape le cmpr where "channel_new L name ty shape le cmpr False = Ok ch"
    by (auto simp: made_def)
  with assms(1) False channel_read_typed [OF this] show ?thesis
    by (auto simp: parse_channel_data_def Let_def res_simps)
qed

lemma parse_frames_typed:
  assumes "parse_frames L gts raw chs frames data = Ok data'" and "\<forall>ch \<in> set chs. made L raw ch"
    and "im_map data' name = Some (Some cd)"
  shows "typed_datum raw chs name cd \<or> im_map data name = Some (Some cd)"
  using assms
proof (induction L gts raw chs frames data rule: parse_frames.induct)
  case (1 L gts raw ch chs v t rest data)
  from "1.prems"(1) obtain x where x: "res_ok (parse_channel_data L gts ch v t raw) = Ok x"
      "parse_frames L gts raw chs rest (im_insert L data (cfg_name (ch_config ch)) x) = Ok data'"
    by (auto simp: res_simps)
  have made: "made L raw ch" "\<forall>ch \<in> set chs. made L raw ch" using "1.prems"(2) by simp_all
  from "1.IH" [OF x(2) made(2) "1.prems"(3)] consider (later) "typed_datum raw chs name cd"
    | (here) "cfg_name (ch_config ch) = name" "x = Some cd"
    | (before) "im_map data name = Some (Some cd)"
    by (auto simp: im_insert_def split: if_splits)
  then show ?case
  proof cases
    case later
    then show ?thesis by (auto simp: typed_datum_def split: if_splits)
  next
    case here
    with x(1) have "parse_channel_data L gts ch v t raw = Ok cd"
      by (cases "parse_channel_data L gts ch v t raw") auto
    from parse_channel_data_typed [OF this made(1)] here(1) show ?thesis
      by (auto simp: typed_datum_def ch_name_def split: if_splits)
  next
    case before
    then show ?thesis ..
  qed
qed auto

text \<open>A cache is typed when the channels of its entries were made for the mode it is read in.\<close>

definition cache_typed :: "ext \<Rightarrow> bool \<Rightarrow> header_cache \<Rightarrow> bool" where
  "cache_typed L raw c \<longleftrightarrow>
     lhm_ok c \<and> (\<forall>k info. lhm_get c k = Some info \<longrightarrow> (\<forall>ch \<in> set (dhi_channels info). made L raw ch))"

lemma cache_typed_void: "cache_typed L raw lhm_void" and cache_typed_new: "cache_typed L raw (lhm_new n)"
  using lhm_ok_void lhm_ok_new by (simp_all add: cache_typed_def lhm_get_def) (simp_all add: lhm_void_def lhm_new_def)

lemma cache_typed_insert:
  assumes "cache_typed L raw c" and "\<forall>ch \<in> set (dhi_channels l). made L raw ch"
  shows "cache_typed L raw (lhm_insert c k l)"
  using assms lhm.put_keeps_all [of c "\<lambda>k info. \<forall>ch \<in> set (dhi_channels info). made L raw ch" k l] lhm.inv_put [of c k l]
  by (simp add: cache_typed_def)

lemma cached_header_made:
  assumes "cache_typed L raw c" and "cached_header c ep hash = Some info"
  shows "\<forall>ch \<in> set (dhi_channels info). made L raw ch"
  using assms unfolding cache_typed_def cached_header_def
  by (cases ep) (auto split: option.splits if_splits)

lemma message_headers_made:
  assumes "cache_typed L raw c" and "message_headers L mh blob ep c hash raw = Ok (dh, chs, changed)"
  shows "\<forall>ch \<in> set chs. made L raw ch"
proof (cases "cached_header c ep hash")
  case None
  with assms(2) have "decode_data_header L mh blob raw = Ok (dh, chs)" by (auto simp: message_headers_def res_simps)
  then show ?thesis by (intro parse_channels_made) (rule decode_data_header_parses)
next
  case (Some info)
  with assms show ?thesis using cached_header_made [OF assms(1) Some] by (simp add: message_headers_def)
qed

lemma parse_data_typed:
  assumes "parse_data L parts mh hash gts raw dh chs changed = Ok (m, l)" and "\<forall>ch \<in> set chs. made L raw ch"
  shows "typed_message m \<and> m_raw m = raw \<and> (\<forall>x. l = Some x \<longrightarrow> (\<forall>ch \<in> set (dhi_channels x). made L raw ch))"
proof -
  from assms(1) obtain data where d: "parse_frames L gts raw chs (drop 2 parts) im_new = Ok data"
      and m: "message_new L mh dh chs data (Some changed) raw = Ok m"
      and l: "if changed then clone_data_header_info L m hash = Ok l else l = None"
    by (auto simp: parse_data_def res_simps split: if_splits)
  note f = message_new_fields [OF m]
  have "typed_message m"
    using parse_frames_typed [OF d assms(2)] f
    by (auto simp: typed_message_def message_channel_data_def im_new_def split: option.splits)
  moreover have "\<forall>ch \<in> set (dhi_channels x). made L raw ch" if "l = Some x" for x
    using l that f
    by (auto simp: clone_data_header_info_def split: if_splits res.splits dest: parse_channels_made)
  ultimately show ?thesis using f by blast
qed

lemma parse_message_typed:
  assumes "cache_typed L raw c" and "parse_message L parts ep c raw = (r, c')"
  shows "cache_typed L raw c' \<and> (\<forall>m. r = Ok m \<longrightarrow> typed_message m \<and> m_raw m = raw)"
proof (cases "parse_body L parts ep c raw")
  case (Ok ml)
  obtain m l where ml: "ml = (m, l)" by (cases ml)
  from Ok obtain mh h ts dh chs changed where hd: "message_headers L mh (parts ! 1) ep c h raw = res.Ok (dh, chs, changed)"
      and d: "parse_data L parts mh h ts raw dh chs changed = res.Ok (m, l)"
    by (auto simp: parse_body_def res_simps ml split: if_splits)
  from parse_data_typed [OF d message_headers_made [OF assms(1) hd]] assms Ok show ?thesis
    by (auto simp: parse_message_def ml split: option.splits intro: cache_typed_insert)
qed (use assms in \<open>auto simp: parse_message_def\<close>)

subsection \<open>Reception\<close>

lemma process_message_typed:
  assumes "cache_typed L (rv_raw r) (rv_header_buffer r)" and "process_message L z sim r ep ps = (res, r')"
  shows "cache_typed L (rv_raw r) (rv_header_buffer r') \<and> rv_raw r' = rv_raw r
    \<and> (\<forall>m. res = Ok m \<longrightarrow> typed_message m \<and> m_raw m = rv_raw r)"
proof -
  obtain pm c where p: "parse_message L ps ep (rv_header_buffer r) (rv_raw r) = (pm, c)"
    by (cases "parse_message L ps ep (rv_header_buffer r) (rv_raw r)")
  note t = parse_message_typed [OF assms(1) p]
  let ?r2 = "(forward_message z r ps)\<lparr>rv_header_buffer := c\<rparr>"
  show ?thesis
  proof (cases pm)
    case (Ok m)
    with assms(2) p have c: "check_message sim ?r2 m ep = (res, r')" by (simp add: process_message_def)
    have "rv_raw r' = rv_raw r" using c by (auto simp: check_message_def Let_def split: if_splits option.splits)
    moreover have "\<forall>m'. res = res.Ok m' \<longrightarrow> m' = m" using check_message_cases [OF c] by (auto split: if_splits)
    ultimately show ?thesis using check_message_cases [OF c] t Ok by auto
  qed (use assms p t in \<open>auto simp: process_message_def\<close>)
qed

text \<open>
  C10. Type soundness of reception: from a receiver whose header cache was filled in the
  mode it reads in (a new receiver's is), whatever zmq, the third-party libraries and the senders
  do, every value of a delivered message has the type of a channel of its name: the
  channel's variant, an array exactly when the shape has more than one element in its first
  dimension, with the shape's number of elements, and strings in valid UTF-8; in raw mode
  it is a byte array.  The cache stays so.
\<close>

theorem received_values_typed:
  assumes "cache_typed L (rv_raw r) (rv_header_buffer r)" and "receive L z sim r = (res, r')"
  shows "cache_typed L (rv_raw r') (rv_header_buffer r') \<and> rv_raw r' = rv_raw r
    \<and> (\<forall>rm. res = Ok rm \<longrightarrow> typed_message (rm_message rm) \<and> m_raw (rm_message rm) = rv_raw r)"
proof (cases "connections r = 0")
  case True
  with assms show ?thesis by (auto simp: receive_def)
next
  case False
  obtain ep parts r1 where raw: "raw_receive z r = ((ep, parts), r1)" by (cases "raw_receive z r") auto
  note f = raw_receive_fields [OF raw]
  show ?thesis
  proof (cases parts)
    case (Ok ps)
    obtain pm r2 where p: "process_message L z sim r1 ep ps = (pm, r2)" by (cases "process_message L z sim r1 ep ps")
    have "cache_typed L (rv_raw r1) (rv_header_buffer r1)" using assms(1) f by simp
    from process_message_typed [OF this p] assms(2) False raw Ok p f show ?thesis
      by (cases pm) (auto simp: receive_def increse_stats_def)
  next
    case (Err e)
    with assms False raw f show ?thesis
      by (auto simp: receive_def split: if_splits)
  next
    case Panic
    with assms False raw f show ?thesis by (auto simp: receive_def)
  qed
qed

text \<open>The instance of the witness: a message with two bytes on one channel.\<close>

definition typ_ch :: channel where
  "typ_ch = channel_array (mk_config ''a'' ''uint8'' (Some [2]) True CompNone False) AU8 as_au8 READER_AU8 WRITER_AU8"

definition typ_ext :: ext where
  "typ_ext = ref_ext\<lparr>json_from_slice := (\<lambda>bs.
     if bs = [1] then Inr demo_main else if bs = [2] then Inr (create_data_header ref_ext [typ_ch])
     else Inl (InvalidData, ''expected value''))\<rparr>"

definition typ_zmq :: "unit zmq" where
  "typ_zmq = demo_zmq\<lparr>z_recv := (\<lambda>s. (s, Inr [[1], [2], [5, 6], []]))\<rparr>"

lemma typ_decode: "decode_data_header typ_ext demo_main [2] False = Ok (create_data_header ref_ext [typ_ch], [typ_ch])"
proof -
  have "channel_new typ_ext ''a'' ''uint8'' (Some [2]) True CompNone False = Ok typ_ch"
    by (simp add: channel_new_def shape_is_array_def channel_new_array_def Let_def mk_config_def typ_ch_def)
  then have "built typ_ext typ_ch" by (rule new_built)
  moreover have "json_num_ok typ_ext" using ref_json_num_ok by (simp add: json_num_ok_def typ_ext_def)
  moreover have "create_data_header typ_ext chs = create_data_header ref_ext chs" for chs
    by (simp add: create_data_header_def metadata_def json_of_u64_def typ_ext_def)
  ultimately have "parse_channels typ_ext (create_data_header ref_ext [typ_ch]) False = Ok [norm_channel typ_ch]"
    using data_header_reparse [of typ_ext "[typ_ch]"] by simp
  moreover have "norm_channel typ_ch = typ_ch"
    by (simp add: norm_channel_def set_shape_def norm_shape_def typ_ch_def channel_array_def mk_config_def)
  ultimately show ?thesis
    by (simp add: decode_data_header_def dh_compression_def demo_main_def decompress_data_def decode_json_def)
      (simp add: typ_ext_def)
qed

lemma typ_frame: "parse_channel_data typ_ext (0, 0) typ_ch [5, 6] [] False = Ok \<lparr>cd_value = AU8 [5, 6], cd_timestamp = (0, 0)\<rparr>"
  by (simp add: parse_channel_data_def Let_def typ_ch_def channel_array_def mk_config_def decompress_data_def
      READER_AU8_def read_exact_def rcursor_new_def elements_def)

lemma typ_main_facts:
  "decode_json typ_ext [1] = Ok demo_main" "msg_timestamp typ_ext demo_main = Ok (0, 0)"
  "msg_id typ_ext demo_main = Ok 7" "msg_htype demo_main = Ok HTYPE" "dh_compression demo_main = Ok CompNone"
  by (simp_all add: decode_json_def typ_ext_def ref_ext_def msg_timestamp_def msg_id_def msg_htype_def
      dh_compression_def demo_main_def get_str_def HTYPE_def)

lemma typ_parse:
  "\<exists>m c'. parse_message typ_ext [[1], [2], [5, 6], []] (Some ''tcp'') (lhm_new 1) False = (Ok m, c')
    \<and> m_id m = 7 \<and> m_channels m = [typ_ch] \<and> message_channel_value m ''a'' = Some (AU8 [5, 6])"
proof -
  have c: "cached_header (lhm_new (Suc 0)) (Some ''tcp'') ''h'' = None"
    by (simp add: cached_header_def lhm_get_def lhm_new_def)
  have n: "cfg_name (ch_config typ_ch) = ''a''" by (simp add: typ_ch_def channel_array_def mk_config_def)
  have p: "parse_channels typ_ext (create_data_header ref_ext [typ_ch]) False = Ok [typ_ch]"
    using typ_decode by (rule decode_data_header_parses)
  have "\<exists>m l. parse_body typ_ext [[1], [2], [5, 6], []] (Some ''tcp'') (lhm_new 1 :: header_cache) False = (Ok (m, Some l))
      \<and> m_id m = 7 \<and> m_channels m = [typ_ch] \<and> message_channel_value m ''a'' = Some (AU8 [5, 6])"
    by (simp add: parse_body_def typ_main_facts c demo_hash message_headers_def typ_decode parse_data_def message_new_def
        clone_data_header_info_def typ_frame n p message_channel_value_def message_channel_data_def im_insert_def im_new_def)
  then show ?thesis by (auto simp: parse_message_def)
qed

lemma typ_receive:
  "\<exists>rm r'. receive typ_ext typ_zmq (Err (InvalidData, [])) demo_receiver = (Ok rm, r')
     \<and> m_channels (rm_message rm) = [typ_ch] \<and> message_channel_value (rm_message rm) ''a'' = Some (AU8 [5, 6])"
proof -
  let ?fs = "[[1], [2], [5, 6], []] :: byte list list"
  let ?r1 = "demo_receiver\<lparr>rv_sockets := Individual [(''tcp'', demo_socket)] [''tcp''] []\<rparr>"
  obtain m c' where m: "parse_message typ_ext ?fs (Some ''tcp'') (lhm_new 1) False = (Ok m, c')" "m_id m = 7"
      "m_channels m = [typ_ch]" "message_channel_value m ''a'' = Some (AU8 [5, 6])"
    using typ_parse by blast
  have raw: "raw_receive typ_zmq demo_receiver = ((Some ''tcp'', Ok ?fs), ?r1)"
    by (simp add: raw_receive_def demo_receiver_def typ_zmq_def demo_zmq_def receive_ready_def readable_def
        tracked_receive_def demo_socket_def)
  let ?r2 = "(forward_message typ_zmq ?r1 ?fs)\<lparr>rv_header_buffer := c'\<rparr>"
  obtain res r3 where c: "check_message (Err (InvalidData, [])) ?r2 m (Some ''tcp'') = (res, r3)"
    by (cases "check_message (Err (InvalidData, [])) ?r2 m (Some ''tcp'')")
  have "res = Ok m"
    using check_message_cases [OF c] m(2) by (simp add: id_limits_def demo_receiver_def)
  moreover have "process_message typ_ext typ_zmq (Err (InvalidData, [])) ?r1 (Some ''tcp'') ?fs = (res, r3)"
    using m(1) c by (simp add: process_message_def demo_receiver_def)
  ultimately show ?thesis using raw m(3,4) by (simp add: receive_def connections_def demo_receiver_def)
qed

theorem received_values_typed_witness:
  "\<exists>rm r'. receive typ_ext typ_zmq (Err (InvalidData, [])) demo_receiver = (Ok rm, r')
    \<and> message_channel_value (rm_message rm) ''a'' = Some (AU8 [5, 6])
    \<and> typed_message (rm_message rm) \<and> cache_typed typ_ext False (rv_header_buffer r')"
proof -
  obtain rm r' where r: "receive typ_ext typ_zmq (Err (InvalidData, [])) demo_receiver = (Ok rm, r')"
      "message_channel_value (rm_message rm) ''a'' = Some (AU8 [5, 6])"
    using typ_receive by blast
  have d: "rv_raw demo_receiver = False" "rv_header_buffer demo_receiver = lhm_new 1" by (simp_all add: demo_receiver_def)
  then have "cache_typed typ_ext (rv_raw demo_receiver) (rv_header_buffer demo_receiver)"
    by (simp add: cache_typed_new)
  from received_values_typed [OF this r(1)] r d show ?thesis by auto
qed

end
