(* ===== verification/Bs_Context.thy ===== *)
theory Bs_Context
  imports Bs_PoolLife
begin

section \<open>The context (src/src/bsread.rs)\<close>

text \<open>
  The context makes receivers, pools and senders, and holds the interruption flag they all
  share.  The zmq context inside it is the parameter \<open>z\<close> of its operations; numbers for new
  receivers and sockets are arguments, as in \<open>receiver_new\<close>.
\<close>

record bsread =
  bs_interrupted :: bool

definition bsread_new :: "bsread res" where
  "bsread_new = Ok \<lparr>bs_interrupted = False\<rparr>"

text \<open>\<open>flag\<close> is what the shared flag holds.\<close>

definition bsread_new_with_interrupted :: "bool \<Rightarrow> bsread res" where
  "bsread_new_with_interrupted flag = Ok \<lparr>bs_interrupted = flag\<rparr>"

definition bsread_receiver ::
  "'s zmq \<Rightarrow> u32 \<Rightarrow> u32 \<Rightarrow> bsread \<Rightarrow> string list option \<Rightarrow> socket_type \<Rightarrow> connection_mode \<Rightarrow> 's supervised res" where
  "bsread_receiver z index counter ctx endpoints st cm =
     res_map (\<lambda>r. \<lparr>sv_receiver = r, sv_interrupted = False, sv_context_interrupted = bs_interrupted ctx, sv_handle = None\<rparr>)
       (receiver_new z index counter endpoints st cm)"

definition bsread_pool ::
  "'s zmq \<Rightarrow> mon_env \<Rightarrow> u32 \<Rightarrow> u32 \<Rightarrow> string list \<Rightarrow> socket_type \<Rightarrow> connection_mode \<Rightarrow> nat \<Rightarrow> 's pool res option" where
  "bsread_pool z env index counter endpoints st cm threads = pool_new z env index counter endpoints st threads cm"

definition bsread_pool_grouped ::
  "'s zmq \<Rightarrow> mon_env \<Rightarrow> u32 \<Rightarrow> u32 \<Rightarrow> string list list \<Rightarrow> socket_type \<Rightarrow> connection_mode \<Rightarrow> 's pool res option" where
  "bsread_pool_grouped z env index counter endpoints st cm = pool_new_grouped z env index counter endpoints st cm"

definition bsread_sender ::
  "'s zmq \<Rightarrow> socket_type \<Rightarrow> transport \<Rightarrow> bool option \<Rightarrow> u64 option \<Rightarrow> compression option \<Rightarrow> 's sender res" where
  "bsread_sender z st tr block start_id header_compression =
     sender_new z (z_new z st) st tr block start_id header_compression"

text \<open>The flag is shared: raising it shows on every receiver linked to the context.\<close>

definition bsread_interrupt :: "bsread \<Rightarrow> 's supervised list \<Rightarrow> bsread \<times> 's supervised list" where
  "bsread_interrupt ctx ss =
     (ctx\<lparr>bs_interrupted := True\<rparr>, map (\<lambda>s. s\<lparr>sv_context_interrupted := True\<rparr>) ss)"

definition bsread_is_interrupted :: "bsread \<Rightarrow> bool" where
  "bsread_is_interrupted ctx \<longleftrightarrow> bs_interrupted ctx"

text \<open>\<open>e\<close> is the error of zmq's \<open>set_io_threads\<close>, if any.\<close>

definition set_io_threads :: "io_error option \<Rightarrow> unit res" where
  "set_io_threads e = (case e of Some e \<Rightarrow> Err e | None \<Rightarrow> Ok ())"

subsection \<open>Interruption\<close>

lemma interrupted_outcome:
  assumes "li_interrupted i" and "listen_step L z n r i = Some (out, o', r')"
  shows "o' \<noteq> Continue"
  using assms by (auto simp: listen_step_def split: res.splits prod.splits if_splits)

lemma linked_interrupted:
  "bsread_interrupt ctx ss = (ctx', ss') \<Longrightarrow> bsread_is_interrupted ctx' \<and> (\<forall>s \<in> set ss'. sv_is_interrupted s)"
  by (auto simp: bsread_interrupt_def bsread_is_interrupted_def sv_is_interrupted_def)

text \<open>
  C30. Interruption ends a listening.  Once the context of a receiver is interrupted, its
  loop ends with the first iteration that looks at the flag, whatever the messages, commands
  and later inputs are: it returns or panics, and nothing after that iteration is read.
\<close>

theorem interrupt_ends_listen:
  assumes "receiver_inv r" and "bsread_interrupt ctx ss = (ctx', ss')" and "s \<in> set ss'"
    and "li_interrupted i = sv_is_interrupted s"
  shows "\<exists>out o' r'. listen_loop L z n r (pre @ i # post) = Some (out, o', r') \<and> o' \<noteq> Continue
    \<and> listen_loop L z n r (pre @ [i]) = Some (out, o', r')"
proof -
  have i: "li_interrupted i" using assms(3,4) linked_interrupted [OF assms(2)] by simp
  show ?thesis
    using assms(1)
  proof (induction pre arbitrary: r)
    case Nil
    obtain out o' r1 where s: "listen_step L z n r i = Some (out, o', r1)"
      using listen_step_counts [OF Nil.prems, of L z n i] by blast
    with interrupted_outcome [OF i s] show ?case by (cases o') auto
  next
    case (Cons j pre)
    obtain out o' r1 where s: "listen_step L z n r j = Some (out, o', r1)" "counts r out r1"
      using listen_step_counts [OF Cons.prems, of L z n j] by blast
    from s(2) have "receiver_inv r1" by (simp add: counts_def)
    from Cons.IH [OF this] s(1) show ?case by (cases o') auto
  qed
qed

theorem interrupt_ends_listen_witness:
  "\<exists>out o' r'. listen_loop demo_ext demo_zmq None demo_receiver
     [\<lparr>li_sim = Err (InvalidData, []), li_interrupted = True, li_commands = [], li_env = demo_env\<rparr>]
     = Some (out, o', r') \<and> o' \<noteq> Continue"
proof -
  let ?i = "\<lparr>li_sim = Err (InvalidData, []), li_interrupted = True, li_commands = [], li_env = demo_env\<rparr>"
  obtain ctx' ss' where b: "bsread_interrupt \<lparr>bs_interrupted = False\<rparr> [demo_sv Finished] = (ctx', ss')"
    by (simp add: bsread_interrupt_def)
  then obtain s where s: "s \<in> set ss'" by (auto simp: bsread_interrupt_def)
  then have "li_interrupted ?i = sv_is_interrupted s" using linked_interrupted [OF b] by simp
  from interrupt_ends_listen [OF demo_receiver_inv b s this, of demo_ext demo_zmq None "[]" "[]"] show ?thesis by auto
qed

end
