(* ===== verification/Bs_Debug.thy ===== *)
theory Bs_Debug
  imports Bs_Sender
begin

section \<open>The test sender and the check of its messages (src/src/debug.rs)\<close>

text \<open>
  The text forms of \<open>debug.rs\<close>, the values and messages its test sender makes, the sender's
  loop as a list of turns, and the check that a receiver makes of them.
\<close>

subsection \<open>Text\<close>

definition MESSAGE_ARRAY_SIZE :: nat where
  "MESSAGE_ARRAY_SIZE = 100"

definition hex_digit :: "nat \<Rightarrow> char" where
  "hex_digit n = ''0123456789ABCDEF'' ! n"

definition vec_to_hex_string :: "byte list \<Rightarrow> string" where
  "vec_to_hex_string bs =
     join '', '' (map (\<lambda>b. ''0x'' @ [hex_digit (unat b div 16), hex_digit (unat b mod 16)]) bs)"

text \<open>\<open>LimitedDebugVec\<close>: the texts of the elements, cut at the limit.\<close>

definition limited_debug :: "string list \<Rightarrow> nat \<Rightarrow> string" where
  "limited_debug xs limit =
     (let n = length xs; display = min limit n
      in show_slice (take display xs)
         @ (if display < n then '' ... ('' @ show_nat (n - display) @ '' more elements)'' else []))"

text \<open>The line \<open>print_channel_data\<close> prints; the \<open>unwrap\<close> is of an array's text.\<close>

definition channel_data_line :: "ext \<Rightarrow> channel_data option \<Rightarrow> string \<Rightarrow> nat \<Rightarrow> string res" where
  "channel_data_line L cd pre max_elements =
     (case cd of
        None \<Rightarrow> Ok (pre @ ''<None>'')
      | Some d \<Rightarrow>
          if is_array (cd_value d)
          then res_map (\<lambda>xs. pre @ limited_debug (map (str_debug L) xs) max_elements)
                 (opt_unwrap (to_astr L (cd_value d)))
          else Ok (pre @ to_str L (cd_value d)))"

subsection \<open>The values of a test message\<close>

text \<open>
  \<open>as f32\<close> and \<open>as f64\<close> of a small natural number: the IEEE 754 bits, with \<open>m\<close> bits of
  mantissa and the exponent's bias, exact below \<open>2 ^ (m + 1)\<close>.
\<close>

fun ilog2 :: "nat \<Rightarrow> nat" where
  "ilog2 n = (if n < 2 then 0 else Suc (ilog2 (n div 2)))"

declare ilog2.simps [simp del]

definition float_bits :: "nat \<Rightarrow> nat \<Rightarrow> nat \<Rightarrow> nat" where
  "float_bits m bias n = (if n = 0 then 0 else (bias + ilog2 n) * 2 ^ m + (n * 2 ^ (m - ilog2 n) - 2 ^ m))"

definition f32_of_nat :: "nat \<Rightarrow> f32" where
  "f32_of_nat n = word_of_nat (float_bits 23 127 n)"

definition f64_of_nat :: "nat \<Rightarrow> f64" where
  "f64_of_nat n = word_of_nat (float_bits 52 1023 n)"

definition create_test_values :: "u64 \<Rightarrow> nat \<Rightarrow> bvalue list" where
  "create_test_values value0 size0 =
     (let v = (ucast (value0 mod 100) :: u8);
          b = (value0 mod 100 mod 2 = 1)
      in [VSTR (show_unsigned v),
          BOOL b, ABOOL (replicate size0 b),
          U8 v, AU8 (replicate size0 v),
          U16 (ucast v), AU16 (replicate size0 (ucast v)),
          U32 (ucast v), AU32 (replicate size0 (ucast v)),
          U64 (ucast v), AU64 (replicate size0 (ucast v)),
          I8 v, AI8 (replicate size0 v),
          I16 (ucast v), AI16 (replicate size0 (ucast v)),
          I32 (ucast v), AI32 (replicate size0 (ucast v)),
          I64 (ucast v), AI64 (replicate size0 (ucast v)),
          F32 (f32_of_nat (unat v)), AF32 (replicate size0 (f32_of_nat (unat v))),
          F64 (f64_of_nat (unat v)), AF64 (replicate size0 (f64_of_nat (unat v)))])"

text \<open>The id of a test message; a flawed sender repeats or decreases some.\<close>

definition test_id :: "bool \<Rightarrow> u64 \<Rightarrow> u64" where
  "test_id flawed index =
     (if flawed
      then (let pid = index + 1
            in if pid mod 10 = 7 then pid - 2 else if pid mod 10 = 3 then pid - 1 else pid)
      else ID_SIMULATED)"

definition test_channel :: "ext \<Rightarrow> compression \<Rightarrow> bvalue \<Rightarrow> channel res" where
  "test_channel L cmpr v =
     channel_new L (value_name v) (kind v) (if is_array v then Some [word_of_nat (size_of v)] else None) True cmpr False"

fun fill_message ::
  "ext \<Rightarrow> compression \<Rightarrow> channel list \<Rightarrow> channel_data option index_map \<Rightarrow> bvalue list
   \<Rightarrow> (channel list \<times> channel_data option index_map) res" where
  "fill_message L cmpr chs data [] = Ok (chs, data)"
| "fill_message L cmpr chs data (v # vs) =
     res_bind (test_channel L cmpr v) (\<lambda>ch.
       fill_message L cmpr (chs @ [ch])
         (im_insert L data (cfg_name (ch_config ch)) (Some \<lparr>cd_value = v, cd_timestamp = (0, 0)\<rparr>)) vs)"

definition create_message :: "ext \<Rightarrow> u64 \<Rightarrow> nat \<Rightarrow> compression option \<Rightarrow> bool \<Rightarrow> u64 \<Rightarrow> message res" where
  "create_message L v s cmpr flawed index =
     res_bind (fill_message L (opt_or CompNone cmpr) [] im_new (create_test_values v s))
       (\<lambda>(channels, data). new_from_channel_map L (test_id flawed index) TIMESTAMP_NOW channels data)"

subsection \<open>The test sender\<close>

text \<open>
  One turn of the loop of \<open>create_sender\<close>: whether it is interrupted, whether its timeout
  has passed, whether the interval to the next message has passed, and the clock.
\<close>

record sender_turn =
  st_interrupted :: bool
  st_timed_out :: bool
  st_due :: bool
  st_now :: timestamp

text \<open>The turns that leave the loop.\<close>

definition st_ends :: "sender_turn \<Rightarrow> bool" where
  "st_ends t \<longleftrightarrow> st_interrupted t \<or> st_timed_out t"

text \<open>Errors of creating or sending a message are logged; the counter goes on.\<close>

definition sender_tick ::
  "ext \<Rightarrow> 's zmq \<Rightarrow> compression option \<Rightarrow> bool \<Rightarrow> timestamp \<Rightarrow> u64 \<Rightarrow> 's sender \<Rightarrow> 's sender res" where
  "sender_tick L z cmpr flawed now count s =
     (case create_message L count MESSAGE_ARRAY_SIZE cmpr flawed count of
        Ok m \<Rightarrow> (case send_message L z now s m True of (Panic, s') \<Rightarrow> Panic | (_, s') \<Rightarrow> Ok s')
      | Err e \<Rightarrow> Ok s
      | Panic \<Rightarrow> Panic)"

text \<open>The sender after the turns made so far, or up to the one that ends the loop.\<close>

fun sender_turns ::
  "ext \<Rightarrow> 's zmq \<Rightarrow> compression option \<Rightarrow> bool \<Rightarrow> u64 \<Rightarrow> 's sender \<Rightarrow> sender_turn list \<Rightarrow> 's sender res" where
  "sender_turns L z cmpr flawed count s [] = Ok s"
| "sender_turns L z cmpr flawed count s (t # ts) =
     (if st_interrupted t \<or> st_timed_out t then Ok s
      else if st_due t
      then res_bind (sender_tick L z cmpr flawed (st_now t) count s)
             (\<lambda>s'. sender_turns L z cmpr flawed (count + 1) s' ts)
      else sender_turns L z cmpr flawed count s ts)"

text \<open>
  The sender is made, gets its socket options, is started, runs and is stopped.  The result
  is \<open>None\<close> as long as no turn has ended the loop.
\<close>

definition on_socket :: "('s list \<Rightarrow> 's list \<times> io_error option) \<Rightarrow> 's sender \<Rightarrow> 's sender res" where
  "on_socket f s =
     (case f [sd_socket s] of
        (xs, None) \<Rightarrow> Ok (s\<lparr>sd_socket := hd (xs @ [sd_socket s])\<rparr>)
      | (xs, Some e) \<Rightarrow> Err e)"

definition create_sender ::
  "ext \<Rightarrow> 's zmq \<Rightarrow> string option \<Rightarrow> io_error + 's \<Rightarrow> transport \<Rightarrow> socket_type \<Rightarrow> bool option
   \<Rightarrow> compression option \<Rightarrow> bool \<Rightarrow> sender_turn list \<Rightarrow> 's sender option res" where
  "create_sender L z app socket tr st block cmpr flawed turns =
     res_bind (sender_new z socket st tr block None None) (\<lambda>s0.
     res_bind (on_socket (set_linger z 0) s0) (\<lambda>s1.
     res_bind (on_socket (set_keepalive z \<lparr>ka_idle = 30, ka_intvl = 10, ka_cnt = 3\<rparr>) s1) (\<lambda>s2.
     res_bind (on_socket (set_heartbeat z \<lparr>hb_ivl = 5000, hb_timeout = 15000, hb_ttl = 20000\<rparr>) s2) (\<lambda>s3.
     case sender_start z app s3 of
       (Ok _, s4) \<Rightarrow>
         res_map (\<lambda>s5. if list_ex st_ends turns then Some (sender_stop z app s5) else None)
           (sender_turns L z cmpr flawed 0 s4 turns)
     | (Err e, _) \<Rightarrow> Err e
     | (Panic, _) \<Rightarrow> Panic))))"

subsection \<open>The check of a received message\<close>

text \<open>
  \<open>assert_eq!\<close> of two unwrapped options.  \<open>n.to_u8()\<close> and its kin are num-traits' casts
  of a \<open>u32\<close>, those of \<open>Value::U32\<close>; \<open>odd_i64\<close> is asked of numbers that are not negative.
  Floats are compared by their bits, which is Rust's equality on the floats made here (no
  NaN, no negative zero).
\<close>

definition same :: "'a option \<Rightarrow> 'a option \<Rightarrow> bool" where
  "same x y \<longleftrightarrow> x \<noteq> None \<and> x = y"

definition odd_i64 :: "i64 \<Rightarrow> bool" where
  "odd_i64 x \<longleftrightarrow> sint x mod 2 = 1"

definition rep :: "'a \<Rightarrow> 'a list" where
  "rep x = replicate MESSAGE_ARRAY_SIZE x"

definition raw_contents :: "ext \<Rightarrow> (string \<Rightarrow> bvalue option) \<Rightarrow> u32 \<Rightarrow> bool list" where
  "raw_contents L v n =
     (let bytes_eq = (\<lambda>name e. same (Option.bind (v name) as_bytes) (map_option (to_bytes L) e))
      in [bytes_eq ''U8'' (map_option U8 (to_u8 L (U32 n))),
          bytes_eq ''U16'' (map_option U16 (to_u16 L (U32 n))),
          bytes_eq ''U32'' (Some (U32 n)),
          bytes_eq ''U64'' (map_option U64 (to_u64 L (U32 n))),
          bytes_eq ''I8'' (map_option U8 (to_u8 L (U32 n))),
          bytes_eq ''I16'' (map_option I16 (to_i16 L (U32 n))),
          bytes_eq ''I32'' (map_option I32 (to_i32 L (U32 n))),
          bytes_eq ''I64'' (map_option I64 (to_i64 L (U32 n))),
          bytes_eq ''F32'' (map_option F32 (to_f32 L (U32 n))),
          bytes_eq ''F64'' (map_option F64 (to_f64 L (U32 n))),
          bytes_eq ''BOOL'' (map_option U8 (to_u8 L (U32 (n mod 2)))),
          bytes_eq ''STR'' (Some (VSTR (show_unsigned n))),
          bytes_eq ''AU8'' (map_option (\<lambda>x. AU8 (rep x)) (to_u8 L (U32 n))),
          bytes_eq ''AU16'' (map_option (\<lambda>x. AU16 (rep x)) (to_u16 L (U32 n))),
          bytes_eq ''AU32'' (Some (AU32 (rep n))),
          bytes_eq ''AI64'' (map_option (\<lambda>x. AU64 (rep x)) (to_u64 L (U32 n))),
          bytes_eq ''AI8'' (map_option (\<lambda>x. AI8 (rep x)) (to_i8 L (U32 n))),
          bytes_eq ''AI16'' (map_option (\<lambda>x. AI16 (rep x)) (to_i16 L (U32 n))),
          bytes_eq ''AI32'' (map_option (\<lambda>x. AI32 (rep x)) (to_i32 L (U32 n))),
          bytes_eq ''AI64'' (map_option (\<lambda>x. AI64 (rep x)) (to_i64 L (U32 n))),
          bytes_eq ''AF32'' (map_option (\<lambda>x. AF32 (rep x)) (to_f32 L (U32 n))),
          bytes_eq ''AF64'' (map_option (\<lambda>x. AF64 (rep x)) (to_f64 L (U32 n))),
          bytes_eq ''ABOOL'' (map_option (\<lambda>x. AU8 (rep x)) (to_u8 L (U32 (n mod 2))))])"

definition as_contents :: "ext \<Rightarrow> (string \<Rightarrow> bvalue option) \<Rightarrow> u32 \<Rightarrow> bool list" where
  "as_contents L v n =
     [same (Option.bind (v ''U8'') as_u8) (to_u8 L (U32 n)),
      same (Option.bind (v ''U16'') as_u16) (to_u16 L (U32 n)),
      same (Option.bind (v ''U32'') as_u32) (to_u32 L (U32 n)),
      same (Option.bind (v ''U64'') as_u64) (to_u64 L (U32 n)),
      same (Option.bind (v ''I8'') as_i8) (to_i8 L (U32 n)),
      same (Option.bind (v ''I16'') as_i16) (to_i16 L (U32 n)),
      same (Option.bind (v ''I32'') as_i32) (to_i32 L (U32 n)),
      same (Option.bind (v ''I64'') as_i64) (to_i64 L (U32 n)),
      same (Option.bind (v ''F32'') as_f32) (to_f32 L (U32 n)),
      same (Option.bind (v ''F64'') as_f64) (to_f64 L (U32 n)),
      same (Option.bind (v ''BOOL'') as_bool) (map_option odd_i64 (to_i64 L (U32 n))),
      same (Option.bind (v ''STR'') as_str_value) (Some (show_unsigned n)),
      same (Option.bind (v ''AU8'') as_au8) (map_option rep (to_u8 L (U32 n))),
      same (Option.bind (v ''AU16'') as_au16) (map_option rep (to_u16 L (U32 n))),
      same (Option.bind (v ''AU32'') as_au32) (map_option rep (to_u32 L (U32 n))),
      same (Option.bind (v ''AU64'') as_au64) (map_option rep (to_u64 L (U32 n))),
      same (Option.bind (v ''AI8'') as_ai8) (map_option rep (to_i8 L (U32 n))),
      same (Option.bind (v ''AI16'') as_ai16) (map_option rep (to_i16 L (U32 n))),
      same (Option.bind (v ''AI32'') as_ai32) (map_option rep (to_i32 L (U32 n))),
      same (Option.bind (v ''AI64'') as_ai64) (map_option rep (to_i64 L (U32 n))),
      same (Option.bind (v ''AF32'') as_af32) (map_option rep (to_f32 L (U32 n))),
      same (Option.bind (v ''AF64'') as_af64) (map_option rep (to_f64 L (U32 n))),
      same (Option.bind (v ''ABOOL'') as_abool) (map_option rep (map_option odd_i64 (to_i64 L (U32 n))))]"

definition to_contents :: "ext \<Rightarrow> (string \<Rightarrow> bvalue option) \<Rightarrow> u32 \<Rightarrow> bool list" where
  "to_contents L v n =
     [same (Option.bind (v ''U8'') (to_u8 L)) (to_u8 L (U32 n)),
      same (Option.bind (v ''U16'') (to_u16 L)) (to_u16 L (U32 n)),
      same (Option.bind (v ''U32'') (to_u32 L)) (to_u32 L (U32 n)),
      same (Option.bind (v ''U64'') (to_u64 L)) (to_u64 L (U32 n)),
      same (Option.bind (v ''I8'') (to_i8 L)) (to_i8 L (U32 n)),
      same (Option.bind (v ''I16'') (to_i16 L)) (to_i16 L (U32 n)),
      same (Option.bind (v ''I32'') (to_i32 L)) (to_i32 L (U32 n)),
      same (Option.bind (v ''I64'') (to_i64 L)) (to_i64 L (U32 n)),
      same (Option.bind (v ''F32'') (to_f32 L)) (to_f32 L (U32 n)),
      same (Option.bind (v ''F64'') (to_f64 L)) (to_f64 L (U32 n)),
      same (Option.bind (v ''BOOL'') to_bool) (map_option odd_i64 (to_i64 L (U32 n))),
      same (map_option (to_str L) (v ''STR'')) (Some (show_unsigned n)),
      same (Option.bind (v ''AU8'') (to_au8 L)) (map_option rep (to_u8 L (U32 n))),
      same (Option.bind (v ''AU16'') (to_au16 L)) (map_option rep (to_u16 L (U32 n))),
      same (Option.bind (v ''AU32'') (to_au32 L)) (map_option rep (to_u32 L (U32 n))),
      same (Option.bind (v ''AU64'') (to_au64 L)) (map_option rep (to_u64 L (U32 n))),
      same (Option.bind (v ''AI8'') (to_ai8 L)) (map_option rep (to_i8 L (U32 n))),
      same (Option.bind (v ''AI16'') (to_ai16 L)) (map_option rep (to_i16 L (U32 n))),
      same (Option.bind (v ''AI32'') (to_ai32 L)) (map_option rep (to_i32 L (U32 n))),
      same (Option.bind (v ''AI64'') (to_ai64 L)) (map_option rep (to_i64 L (U32 n))),
      same (Option.bind (v ''AF32'') (to_af32 L)) (map_option rep (to_f32 L (U32 n))),
      same (Option.bind (v ''AF64'') (to_af64 L)) (map_option rep (to_f64 L (U32 n))),
      same (Option.bind (v ''ABOOL'') (to_abool L)) (map_option rep (map_option odd_i64 (to_i64 L (U32 n))))]"

definition assert_message_contents_ok :: "ext \<Rightarrow> message \<Rightarrow> unit res" where
  "assert_message_contents_ok L m =
     res_bind (opt_unwrap (to_u32 L (U64 (m_id m)))) (\<lambda>k.
       let n = k - 1; v = message_channel_value m
       in if list_all (\<lambda>b. b) (if m_raw m then raw_contents L v n else as_contents L v n @ to_contents L v n)
          then Ok () else Panic)"

subsection \<open>Lemmas on casts\<close>

text \<open>num-traits casts small natural numbers to floats exactly, and a float to its own type.\<close>

definition float_cast_ok :: "ext \<Rightarrow> bool" where
  "float_cast_ok L \<longleftrightarrow>
     (\<forall>p k. prim_int p = Some (int k) \<longrightarrow> k < 2 ^ 24 \<longrightarrow>
        num_cast L TF32 p = Some (PF32 (f32_of_nat k)) \<and> num_cast L TF64 p = Some (PF64 (f64_of_nat k)))
     \<and> (\<forall>w. num_cast L TF32 (PF32 w) = Some (PF32 w)) \<and> (\<forall>w. num_cast L TF64 (PF64 w) = Some (PF64 w))"

lemma float_encoding: "f32_of_nat 99 = 0x42C60000" "f64_of_nat 1 = 0x3FF0000000000000"
  by (simp_all add: f32_of_nat_def f64_of_nat_def float_bits_def ilog2.simps)

lemmas to_int_defs = to_i8_def to_u8_def to_i16_def to_u16_def to_i32_def to_u32_def to_i64_def to_u64_def
  to_f32_def to_f64_def
lemmas to_arr_defs = to_ai8_def to_au8_def to_ai16_def to_au16_def to_ai32_def to_au32_def to_ai64_def to_au64_def
  to_af32_def to_af64_def

lemma small_word:
  assumes "k < 2 ^ (LENGTH('a) - 1)"
  shows "uint (word_of_nat k :: 'a::len word) = int k" "sint (word_of_nat k :: 'a word) = int k"
proof -
  have e: "(word_of_nat k :: 'a word) = word_of_int (int k)" by simp
  have k: "int k < 2 ^ (LENGTH('a) - 1)" using assms of_nat_less_iff [of k "2 ^ (LENGTH('a) - 1)"] by simp
  have "(2::int) ^ (LENGTH('a) - 1) \<le> 2 ^ LENGTH('a)" by (rule power_increasing) simp_all
  with k have "int k < 2 ^ LENGTH('a)" by (rule less_le_trans)
  then show "uint (word_of_nat k :: 'a word) = int k" unfolding e by (intro uint_word_of_int_range) simp_all
  show "sint (word_of_nat k :: 'a word) = int k"
    unfolding e using k by (intro sint_word_of_int_range) (simp_all add: order.trans [OF _ of_nat_0_le_iff])
qed

lemma small_prims:
  assumes "k < 100"
  shows "prim_int (PU8 (word_of_nat k)) = Some (int k)" "prim_int (PU16 (word_of_nat k)) = Some (int k)"
    "prim_int (PU32 (word_of_nat k)) = Some (int k)" "prim_int (PU64 (word_of_nat k)) = Some (int k)"
    "prim_int (PI8 (word_of_nat k)) = Some (int k)" "prim_int (PI16 (word_of_nat k)) = Some (int k)"
    "prim_int (PI32 (word_of_nat k)) = Some (int k)" "prim_int (PI64 (word_of_nat k)) = Some (int k)"
  using assms small_word [of k, where 'a = 8] small_word [of k, where 'a = 16]
    small_word [of k, where 'a = 32] small_word [of k, where 'a = 64] by simp_all

lemma small_cast:
  assumes "num_cast_ok L" and "k < 100" and "prim_int p = Some (int k)"
  shows "num_cast L TU8 p = Some (PU8 (word_of_nat k))" "num_cast L TU16 p = Some (PU16 (word_of_nat k))"
    "num_cast L TU32 p = Some (PU32 (word_of_nat k))" "num_cast L TU64 p = Some (PU64 (word_of_nat k))"
    "num_cast L TI8 p = Some (PI8 (word_of_nat k))" "num_cast L TI16 p = Some (PI16 (word_of_nat k))"
    "num_cast L TI32 p = Some (PI32 (word_of_nat k))" "num_cast L TI64 p = Some (PI64 (word_of_nat k))"
  using assms by (simp_all add: num_cast_ok_def)

lemma small_float_cast:
  assumes "float_cast_ok L" and "k < 100" and "prim_int p = Some (int k)"
  shows "num_cast L TF32 p = Some (PF32 (f32_of_nat k))" "num_cast L TF64 p = Some (PF64 (f64_of_nat k))"
  using assms by (simp_all add: float_cast_ok_def)

lemma float_cast_self:
  assumes "float_cast_ok L"
  shows "num_cast L TF32 (PF32 a) = Some (PF32 a)" "num_cast L TF64 (PF64 b) = Some (PF64 b)"
  using assms by (simp_all add: float_cast_ok_def)

lemma opt_mapM_replicate: "f x = Some y \<Longrightarrow> opt_mapM f (replicate n x) = Some (replicate n y)"
  by (induction n) simp_all

text \<open>The test values, by the natural number they all hold.\<close>

definition test_values :: "nat \<Rightarrow> nat \<Rightarrow> bvalue list" where
  "test_values k s =
     [VSTR (show_nat k), BOOL (odd k), ABOOL (replicate s (odd k)),
      U8 (word_of_nat k), AU8 (replicate s (word_of_nat k)), U16 (word_of_nat k), AU16 (replicate s (word_of_nat k)),
      U32 (word_of_nat k), AU32 (replicate s (word_of_nat k)), U64 (word_of_nat k), AU64 (replicate s (word_of_nat k)),
      I8 (word_of_nat k), AI8 (replicate s (word_of_nat k)), I16 (word_of_nat k), AI16 (replicate s (word_of_nat k)),
      I32 (word_of_nat k), AI32 (replicate s (word_of_nat k)), I64 (word_of_nat k), AI64 (replicate s (word_of_nat k)),
      F32 (f32_of_nat k), AF32 (replicate s (f32_of_nat k)), F64 (f64_of_nat k), AF64 (replicate s (f64_of_nat k))]"

lemma ucast_via_nat: "unat (w :: 'a::len word) = k \<Longrightarrow> (ucast w :: 'b::len word) = word_of_nat k"
  by auto

lemma create_test_values_eq: "create_test_values v s = test_values (unat v mod 100) s"
proof -
  let ?k = "unat v mod 100"
  let ?w = "word_of_nat ?k :: u8"
  have k: "unat (v mod 100) = ?k" by (simp add: unat_mod)
  note w = ucast_via_nat [OF k, where 'b = 8]
  have kw: "unat ?w = ?k" by (simp add: unsigned_of_nat take_bit_nat_eq_self_iff)
  have "unat (v mod 100 mod 2) = ?k mod 2" unfolding k [symmetric] by (simp add: unat_mod)
  moreover have "(v mod 100 mod 2 = 1) = (unat (v mod 100 mod 2) = unat (1 :: u64))" by (simp only: word_unat_eq_iff)
  ultimately have b: "(v mod 100 mod 2 = 1) = odd ?k" by (simp add: odd_iff_mod_2_eq_one)
  show ?thesis
    unfolding create_test_values_def test_values_def Let_def w b kw show_unsigned_def ucast_via_nat [OF kw] ..
qed

lemma test_value_names:
  "map value_name (test_values k s) = [''STR'', ''BOOL'', ''ABOOL'', ''U8'', ''AU8'', ''U16'', ''AU16'', ''U32'', ''AU32'',
     ''U64'', ''AU64'', ''I8'', ''AI8'', ''I16'', ''AI16'', ''I32'', ''AI32'', ''I64'', ''AI64'', ''F32'', ''AF32'', ''F64'', ''AF64'']"
  by (simp add: test_values_def)

lemma num_of_small:
  assumes "num_cast_ok L" and "float_cast_ok L" and "k < 100"
  shows "to_u8 L (U32 (word_of_nat k)) = Some (word_of_nat k)" "to_u16 L (U32 (word_of_nat k)) = Some (word_of_nat k)"
    "to_u32 L (U32 (word_of_nat k)) = Some (word_of_nat k)" "to_u64 L (U32 (word_of_nat k)) = Some (word_of_nat k)"
    "to_i8 L (U32 (word_of_nat k)) = Some (word_of_nat k)" "to_i16 L (U32 (word_of_nat k)) = Some (word_of_nat k)"
    "to_i32 L (U32 (word_of_nat k)) = Some (word_of_nat k)" "to_i64 L (U32 (word_of_nat k)) = Some (word_of_nat k)"
    "to_f32 L (U32 (word_of_nat k)) = Some (f32_of_nat k)" "to_f64 L (U32 (word_of_nat k)) = Some (f64_of_nat k)"
  using small_cast [OF assms(1,3) small_prims(3) [OF assms(3)]] small_float_cast [OF assms(2,3) small_prims(3) [OF assms(3)]]
  by (simp_all add: to_int_defs cast_def)

lemma self_of_small:
  assumes "num_cast_ok L" and "float_cast_ok L" and "k < 100"
  shows "to_u8 L (U8 (word_of_nat k)) = Some (word_of_nat k)" "to_u16 L (U16 (word_of_nat k)) = Some (word_of_nat k)"
    "to_u64 L (U64 (word_of_nat k)) = Some (word_of_nat k)"
    "to_i8 L (I8 (word_of_nat k)) = Some (word_of_nat k)" "to_i16 L (I16 (word_of_nat k)) = Some (word_of_nat k)"
    "to_i32 L (I32 (word_of_nat k)) = Some (word_of_nat k)" "to_i64 L (I64 (word_of_nat k)) = Some (word_of_nat k)"
    "to_f32 L (F32 a) = Some a" "to_f64 L (F64 b) = Some b"
  using small_cast [OF assms(1,3)] small_prims [OF assms(3)] float_cast_self [OF assms(2)]
  by (simp_all add: to_int_defs cast_def del: of_nat_unat)

lemma arr_of_small:
  assumes "num_cast_ok L" and "float_cast_ok L" and "k < 100"
  shows "to_au8 L (AU8 (replicate s (word_of_nat k))) = Some (replicate s (word_of_nat k))"
    "to_au16 L (AU16 (replicate s (word_of_nat k))) = Some (replicate s (word_of_nat k))"
    "to_au32 L (AU32 (replicate s (word_of_nat k))) = Some (replicate s (word_of_nat k))"
    "to_au64 L (AU64 (replicate s (word_of_nat k))) = Some (replicate s (word_of_nat k))"
    "to_ai8 L (AI8 (replicate s (word_of_nat k))) = Some (replicate s (word_of_nat k))"
    "to_ai16 L (AI16 (replicate s (word_of_nat k))) = Some (replicate s (word_of_nat k))"
    "to_ai32 L (AI32 (replicate s (word_of_nat k))) = Some (replicate s (word_of_nat k))"
    "to_ai64 L (AI64 (replicate s (word_of_nat k))) = Some (replicate s (word_of_nat k))"
    "to_af32 L (AF32 (replicate s a)) = Some (replicate s a)" "to_af64 L (AF64 (replicate s b)) = Some (replicate s b)"
  using small_cast [OF assms(1,3)] small_prims [OF assms(3)] float_cast_self [OF assms(2)]
  by (simp_all add: to_arr_defs cast_arr_def opt_mapM_replicate del: of_nat_unat)

lemma abool_of_small:
  assumes "num_cast_ok L"
  shows "to_abool L (ABOOL (replicate s b)) = Some (replicate s b)"
proof -
  have "num_cast L TU64 (PU32 (if b then 1 else 0)) = Some (PU64 (if b then 1 else 0))"
    using assms by (cases b) (simp_all add: num_cast_ok_def)
  then show ?thesis
    by (cases b) (simp_all add: to_abool_def to_au64_def cast_bool_arr_def cast_arr_def opt_mapM_replicate)
qed

lemma odd_of_small: "k < 100 \<Longrightarrow> odd_i64 (word_of_nat k) = odd k"
proof -
  assume "k < 100"
  then have "sint (word_of_nat k :: i64) = int k" using small_word(2) [of k, where 'a = 64] by simp
  then show ?thesis by (simp add: odd_i64_def odd_iff_mod_2_eq_one flip: of_nat_mod zmod_int) presburger
qed

lemma contents_pass:
  assumes "num_cast_ok L" and "float_cast_ok L" and "k < 100"
    and "\<forall>x \<in> set (test_values k MESSAGE_ARRAY_SIZE). v (value_name x) = Some x"
  shows "list_all (\<lambda>b. b) (as_contents L v (word_of_nat k) @ to_contents L v (word_of_nat k))"
proof -
  have u: "show_unsigned (word_of_nat k :: u32) = show_nat k"
  proof -
    have "unat (word_of_nat k :: u32) = k" using assms(3) by (simp add: unsigned_of_nat take_bit_nat_eq_self_iff)
    then show ?thesis by (simp only: show_unsigned_def)
  qed
  have vs: "v ''STR'' = Some (VSTR (show_nat k))" "v ''BOOL'' = Some (BOOL (odd k))" "v ''ABOOL'' = Some (ABOOL (rep (odd k)))"
    "v ''U8'' = Some (U8 (word_of_nat k))" "v ''AU8'' = Some (AU8 (rep (word_of_nat k)))"
    "v ''U16'' = Some (U16 (word_of_nat k))" "v ''AU16'' = Some (AU16 (rep (word_of_nat k)))"
    "v ''U32'' = Some (U32 (word_of_nat k))" "v ''AU32'' = Some (AU32 (rep (word_of_nat k)))"
    "v ''U64'' = Some (U64 (word_of_nat k))" "v ''AU64'' = Some (AU64 (rep (word_of_nat k)))"
    "v ''I8'' = Some (I8 (word_of_nat k))" "v ''AI8'' = Some (AI8 (rep (word_of_nat k)))"
    "v ''I16'' = Some (I16 (word_of_nat k))" "v ''AI16'' = Some (AI16 (rep (word_of_nat k)))"
    "v ''I32'' = Some (I32 (word_of_nat k))" "v ''AI32'' = Some (AI32 (rep (word_of_nat k)))"
    "v ''I64'' = Some (I64 (word_of_nat k))" "v ''AI64'' = Some (AI64 (rep (word_of_nat k)))"
    "v ''F32'' = Some (F32 (f32_of_nat k))" "v ''AF32'' = Some (AF32 (rep (f32_of_nat k)))"
    "v ''F64'' = Some (F64 (f64_of_nat k))" "v ''AF64'' = Some (AF64 (rep (f64_of_nat k)))"
    using assms(4) by (simp_all add: test_values_def rep_def)
  note n = num_of_small [OF assms(1-3)] and s = self_of_small [OF assms(1-3)] and a = arr_of_small [OF assms(1-3)]
  show ?thesis
    by (simp add: as_contents_def to_contents_def vs n s a u odd_of_small [OF assms(3)] abool_of_small [OF assms(1)]
        same_def rep_def)
qed

lemma contents_fail:
  assumes "num_cast_ok L" and "v ''U8'' = Some (U8 (word_of_nat k))" and "k < 100" and "100 \<le> unat n"
  shows "\<not> list_all (\<lambda>b. b) (as_contents L v n @ to_contents L v n)"
proof -
  have c: "to_u8 L (U32 n) = (if uint n < 256 then Some (word_of_int (uint n)) else None)"
    using assms(1) by (simp add: to_u8_def cast_def num_cast_ok_def)
  have "to_u8 L (U32 n) \<noteq> Some (word_of_nat k)"
  proof
    assume "to_u8 L (U32 n) = Some (word_of_nat k)"
    with c have u: "uint n < 256" "(word_of_int (uint n) :: u8) = word_of_nat k" by (simp_all split: if_splits)
    have "uint (word_of_int (uint n) :: u8) = uint n" using u(1) by (intro uint_word_of_int_range) simp_all
    moreover have "uint (word_of_nat k :: u8) = int k" using small_word(1) [of k, where 'a = 8] assms(3) by simp
    ultimately have "uint n = int k" using u(2) by simp
    then show False using assms(3,4) by (simp add: unat_eq_nat_uint)
  qed
  then have "\<not> same (Option.bind (v ''U8'') as_u8) (to_u8 L (U32 n))" by (auto simp: same_def assms(2))
  then show ?thesis by (simp add: as_contents_def)
qed

lemma assert_contents:
  assumes "num_cast_ok L" and "float_cast_ok L" and "\<not> m_raw m"
    and "\<forall>x \<in> set (create_test_values (m_id m - 1) MESSAGE_ARRAY_SIZE). message_channel_value m (value_name x) = Some x"
  shows "assert_message_contents_ok L m = (if 1 \<le> unat (m_id m) \<and> unat (m_id m) \<le> 100 then Ok () else Panic)"
proof -
  let ?v = "message_channel_value m" and ?k = "unat (m_id m - 1) mod 100"
  obtain i where i: "unat (m_id m) = i" and ui: "uint (m_id m) = int i" by (simp add: uint_nat)
  have c: "to_u32 L (U64 (m_id m)) = (if i < 2 ^ 32 then Some (word_of_nat i) else None)"
    using assms(1) by (simp add: to_u32_def cast_def num_cast_ok_def ui)
  note vals = assms(4) [unfolded create_test_values_eq]
  show ?thesis
  proof (cases "i < 2 ^ 32")
    case False
    with c show ?thesis by (simp add: assert_message_contents_ok_def i)
  next
    case True
    let ?n = "word_of_nat i - 1 :: u32"
    have e: "assert_message_contents_ok L m
        = (if list_all (\<lambda>b. b) (as_contents L ?v ?n @ to_contents L ?v ?n) then Ok () else Panic)"
      using True c assms(3) by (simp add: assert_message_contents_ok_def Let_def)
    have un: "unat (word_of_nat i :: u32) = i" using True by (simp add: unsigned_of_nat take_bit_nat_eq_self_iff)
    show ?thesis
    proof (cases "1 \<le> i \<and> i \<le> 100")
      case True
      then have "m_id m \<noteq> 0" using i by auto
      then have "unat (m_id m - 1) = i - 1" using i unat_minus_one [of "m_id m"] by simp
      then have k: "?k = i - 1" "?k < 100" using True by auto
      have n: "?n = word_of_nat ?k" using True by (simp add: k(1) of_nat_diff)
      show ?thesis unfolding e n using contents_pass [OF assms(1,2) k(2), of ?v] vals True i by simp
    next
      case False
      have "100 \<le> unat ?n"
      proof (cases "i = 0")
        case nz: False
        then have "(word_of_nat i :: u32) \<noteq> 0" using un by auto
        then have "unat ?n = i - 1" using un unat_minus_one [of "word_of_nat i :: u32"] by simp
        with False nz show ?thesis by simp
      next
        case True
        have "unat (- 1 :: u32) = 4294967295" by (simp add: unsigned_minus_1_eq_mask mask_eq_exp_minus_1)
        with True show ?thesis by simp
      qed
      then show ?thesis unfolding e using contents_fail [OF assms(1), of ?v ?k ?n] vals False i by (simp add: test_values_def)
    qed
  qed
qed

subsection \<open>Lemmas on test messages\<close>

lemma kind_supported: "kind v \<in> set supported_kinds"
  by (cases v) (simp_all add: supported_kinds_def)

lemma channel_new_supported:
  assumes "typ \<in> set supported_kinds"
  shows "\<exists>ch. channel_new L name typ shape le cmpr False = Ok ch
    \<and> ch_config ch = mk_config name typ shape le cmpr False \<and> built L ch"
proof -
  have "\<exists>ch. channel_new L name typ shape le cmpr False = Ok ch"
    using assms array_new_eq [of "mk_config name typ shape le cmpr False" L]
      scalar_new_eq [of "mk_config name typ shape le cmpr False" L]
    by (auto simp: channel_new_def mk_config_def)
  then obtain ch where ch: "channel_new L name typ shape le cmpr False = Ok ch" by blast
  from channel_new_config [OF ch] new_built [OF ch] ch show ?thesis by simp
qed

text \<open>The channel of a value and the data of a message, as functions.\<close>

definition channel_for :: "ext \<Rightarrow> compression \<Rightarrow> bvalue \<Rightarrow> channel" where
  "channel_for L cmpr v = (case test_channel L cmpr v of Ok ch \<Rightarrow> ch | _ \<Rightarrow> channel_array_string)"

lemma channel_for_spec:
  "test_channel L cmpr v = Ok (channel_for L cmpr v)" "built L (channel_for L cmpr v)"
  "ch_config (channel_for L cmpr v)
     = mk_config (value_name v) (kind v) (if is_array v then Some [word_of_nat (size_of v)] else None) True cmpr False"
proof -
  obtain ch where "test_channel L cmpr v = Ok ch" "ch_config ch
      = mk_config (value_name v) (kind v) (if is_array v then Some [word_of_nat (size_of v)] else None) True cmpr False"
      "built L ch"
    using channel_new_supported [OF kind_supported [of v]] unfolding test_channel_def by blast
  then show "test_channel L cmpr v = Ok (channel_for L cmpr v)" "built L (channel_for L cmpr v)"
    "ch_config (channel_for L cmpr v)
     = mk_config (value_name v) (kind v) (if is_array v then Some [word_of_nat (size_of v)] else None) True cmpr False"
    by (simp_all add: channel_for_def)
qed

definition datum :: "bvalue \<Rightarrow> channel_data" where
  "datum v = \<lparr>cd_value = v, cd_timestamp = (0, 0)\<rparr>"

lemma fill_message_eq:
  "fill_message L cmpr chs data vs = Ok (chs @ map (channel_for L cmpr) vs,
     foldl (\<lambda>m v. im_insert L m (value_name v) (Some (datum v))) data vs)"
  by (induction vs arbitrary: chs data)
    (simp_all add: channel_for_spec(1,3) mk_config_def datum_def)

lemma filled_map:
  assumes "indexmap_ok L"
  shows "distinct (map value_name vs) \<Longrightarrow> set (im_keys data) \<inter> value_name ` set vs = {} \<Longrightarrow>
    im_keys (foldl (\<lambda>m v. im_insert L m (value_name v) (Some (datum v))) data vs) = im_keys data @ map value_name vs
    \<and> (\<forall>v \<in> set vs. im_map (foldl (\<lambda>m v. im_insert L m (value_name v) (Some (datum v))) data vs) (value_name v) = Some (Some (datum v)))
    \<and> (\<forall>k. k \<notin> value_name ` set vs \<longrightarrow>
         im_map (foldl (\<lambda>m v. im_insert L m (value_name v) (Some (datum v))) data vs) k = im_map data k)"
proof (induction vs arbitrary: data)
  case (Cons v vs)
  let ?d = "im_insert L data (value_name v) (Some (datum v))"
  have keys: "im_keys ?d = im_keys data @ [value_name v]"
    using assms Cons.prems(2) by (simp add: im_insert_def indexmap_ok_def)
  have "set (im_keys ?d) \<inter> value_name ` set vs = {}" using Cons.prems keys by auto
  with Cons have IH: "im_keys (foldl (\<lambda>m v. im_insert L m (value_name v) (Some (datum v))) ?d vs) = im_keys ?d @ map value_name vs"
    "\<forall>v \<in> set vs. im_map (foldl (\<lambda>m v. im_insert L m (value_name v) (Some (datum v))) ?d vs) (value_name v) = Some (Some (datum v))"
    "\<forall>k. k \<notin> value_name ` set vs \<longrightarrow>
       im_map (foldl (\<lambda>m v. im_insert L m (value_name v) (Some (datum v))) ?d vs) k = im_map ?d k"
    by simp_all
  moreover have "value_name v \<notin> value_name ` set vs" using Cons.prems(1) by simp
  ultimately show ?case using keys by (auto simp: im_insert_def)
qed simp

lemma filled_values:
  assumes "indexmap_ok L" and "distinct (map value_name vs)"
  shows "im_values (foldl (\<lambda>m v. im_insert L m (value_name v) (Some (datum v))) im_new vs) = map (\<lambda>v. Some (datum v)) vs"
proof -
  let ?m = "foldl (\<lambda>m v. im_insert L m (value_name v) (Some (datum v))) im_new vs"
  have k: "im_keys ?m = map value_name vs" "\<forall>v \<in> set vs. im_map ?m (value_name v) = Some (Some (datum v))"
    using filled_map [OF assms, of im_new] by (simp_all add: im_new_def)
  have "List.map_filter (im_map ?m) (map value_name us) = map (\<lambda>v. Some (datum v)) us" if "set us \<subseteq> set vs" for us
    using that k(2) by (induction us) (simp_all add: List.map_filter_def)
  then show ?thesis using k(1) by (simp add: im_values_def)
qed

lemma create_message_Ok:
  assumes "json_num_ok L" and "indexmap_ok L" and "create_message L v s cmpr False index = Ok m"
  shows "m_channels m = map (channel_for L (opt_or CompNone cmpr)) (create_test_values v s)"
    "im_values (m_data m) = map (\<lambda>v. Some (datum v)) (create_test_values v s)"
    "m_id m = ID_SIMULATED" "m_timestamp m = TIMESTAMP_NOW"
proof -
  let ?vs = "create_test_values v s"
  have d: "distinct (map value_name ?vs)" unfolding create_test_values_eq test_value_names by simp
  have "m_channels m = map (channel_for L (opt_or CompNone cmpr)) ?vs
      \<and> m_data m = foldl (\<lambda>m v. im_insert L m (value_name v) (Some (datum v))) im_new ?vs
      \<and> m_id m = ID_SIMULATED \<and> m_timestamp m = TIMESTAMP_NOW"
    using assms(3)
    by (auto simp: create_message_def fill_message_eq new_from_channel_map_def message_new_def Let_def res_simps
        msg_id_def test_id_def ID_SIMULATED_def TIMESTAMP_NOW_def json_i64_of_u64 [OF assms(1)]
        timestamp_through_json [OF assms(1)] split: res.splits)
  then show "m_channels m = map (channel_for L (opt_or CompNone cmpr)) (create_test_values v s)"
    "im_values (m_data m) = map (\<lambda>v. Some (datum v)) (create_test_values v s)"
    "m_id m = ID_SIMULATED" "m_timestamp m = TIMESTAMP_NOW"
    using filled_values [OF assms(2) d] by simp_all
qed

lemma show_nat_digits: "\<forall>c \<in> set (show_nat n). 48 \<le> (of_char c :: nat) \<and> (of_char c :: nat) < 58"
proof (induction n rule: show_nat.induct)
  case (1 n)
  have d: "48 \<le> (of_char (digit_char k) :: nat) \<and> (of_char (digit_char k) :: nat) < 58" if "k < 10" for k
    using that by (simp add: digit_char_def of_char_of)
  show ?case
  proof (cases "n < 10")
    case True
    then show ?thesis using d [of n] by (simp add: show_nat.simps [of n])
  next
    case False
    then show ?thesis using 1 d [of "n mod 10"] by (subst show_nat.simps) auto
  qed
qed

lemma show_nat_bytes: "\<forall>b \<in> set (str_bytes (show_nat n)). 48 \<le> unat b \<and> unat b < 58"
proof -
  have "unat (byte_of_char c) = of_char c" for c
    using nat_of_char_less_256 [of c] by (simp add: byte_of_char_def unsigned_of_nat take_bit_nat_eq_self_iff)
  then show ?thesis using show_nat_digits [of n] by (auto simp: str_bytes_def)
qed

lemma ascii_valid: "\<forall>b \<in> set bs. unat b < 128 \<Longrightarrow> utf8_valid bs"
  by (induction bs rule: utf8_valid.induct) auto

lemma digits_kept: "utf8_valid (str_bytes (show_nat n))" "cut_string (show_nat n) = show_nat n"
proof -
  note d = show_nat_bytes [of n]
  show "utf8_valid (str_bytes (show_nat n))" using d by (intro ascii_valid) fastforce
  have "\<forall>b \<in> set (str_bytes (show_nat n)). b \<noteq> 0" using d by fastforce
  then have "takeWhile (\<lambda>b. b \<noteq> 0) (str_bytes (show_nat n)) = str_bytes (show_nat n)" by (simp add: takeWhile_eq_all_conv)
  then show "cut_string (show_nat n) = show_nat n" by (simp only: cut_string_def bytes_str_bytes)
qed

lemma test_value_accepted:
  assumes "x \<in> set (test_values k MESSAGE_ARRAY_SIZE)"
  shows "accepts (kind x) (if is_array x then Some [word_of_nat (size_of x)] else None) x"
    "stored (elements (if is_array x then Some [word_of_nat (size_of x)] else None)) x = x"
  using assms digits_kept [of k]
  by (auto simp: test_values_def accepts_def shape_is_array_def elements_def MESSAGE_ARRAY_SIZE_def)

lemma test_sendable:
  assumes "x \<in> set (test_values k MESSAGE_ARRAY_SIZE)"
    and "compressible L cmpr (element_size (kind x)) (written_buffer (channel_for L cmpr x) x)"
  shows "sendable L (channel_for L cmpr x) (datum x)" "received (channel_for L cmpr x) (datum x) = datum x"
  using test_value_accepted [OF assms(1)] assms(2) channel_for_spec(2) [of L cmpr x]
  by (simp_all add: sendable_def received_def channel_for_spec(3) mk_config_def datum_def)

lemma test_value_received:
  assumes "\<forall>x \<in> set (create_test_values count MESSAGE_ARRAY_SIZE).
      compressible L cmpr (element_size (kind x)) (written_buffer (channel_for L cmpr x) x)"
    and "\<forall>i < length (create_test_values count MESSAGE_ARRAY_SIZE).
      message_channel_data m (ch_name (map (channel_for L cmpr) (create_test_values count MESSAGE_ARRAY_SIZE) ! i))
        = Some (received (map (channel_for L cmpr) (create_test_values count MESSAGE_ARRAY_SIZE) ! i)
            (map datum (create_test_values count MESSAGE_ARRAY_SIZE) ! i))"
    and "x \<in> set (create_test_values count MESSAGE_ARRAY_SIZE)"
  shows "message_channel_value m (value_name x) = Some x"
proof -
  obtain i where i: "i < length (create_test_values count MESSAGE_ARRAY_SIZE)" "x = create_test_values count MESSAGE_ARRAY_SIZE ! i"
    using assms(3) by (auto simp: in_set_conv_nth)
  have n: "ch_name (channel_for L cmpr x) = value_name x" by (simp add: ch_name_def channel_for_spec(3) mk_config_def)
  have "received (channel_for L cmpr x) (datum x) = datum x"
    using test_sendable(2) [of x "unat count mod 100" L cmpr] assms(1,3) by (simp add: create_test_values_eq)
  then have "message_channel_data m (value_name x) = Some (datum x)"
    using assms(2) i n by (metis nth_map)
  then show ?thesis by (simp add: message_channel_value_def datum_def)
qed

lemma checked_count: "1 \<le> unat (count + 1 :: u64) \<and> unat (count + 1) \<le> 100 \<longleftrightarrow> unat count < 100"
proof (cases "count + 1 = 0")
  case True
  then have "count = - 1" by (simp add: eq_neg_iff_add_eq_0)
  moreover have "unat (- 1 :: u64) = 18446744073709551615" by (simp add: unsigned_minus_1_eq_mask mask_eq_exp_minus_1)
  ultimately show ?thesis by simp
next
  case False
  then have "unat count = unat (count + 1) - 1" "unat (count + 1) \<noteq> 0"
    using unat_minus_one [of "count + 1"] by (simp_all add: unat_eq_zero)
  then show ?thesis by arith
qed

end
