(* ===== verification/Bs_SenderThreads.thy ===== *)
theory Bs_SenderThreads
  imports Bs_Debug
begin

section \<open>The threads of the test senders (src/src/debug.rs)\<close>

text \<open>
  \<open>start_sender\<close> runs \<open>create_sender\<close> in a thread and keeps its handle in a static list behind
  a mutex; \<open>stop_senders\<close> sets a static flag that every sender looks at and joins all handles.
  A handle is how its thread ends; the mutex is poisoned when a thread panics that holds it.
\<close>

subsection \<open>State and operations\<close>

record sender_threads =
  th_interrupted :: bool
  th_handles :: "unit res list"
  th_poisoned :: bool

definition threads_new :: sender_threads where
  "threads_new = \<lparr>th_interrupted = False, th_handles = [], th_poisoned = False\<rparr>"

text \<open>
  The closure of the thread: an error of \<open>create_sender\<close> is only logged.  The result is \<open>None\<close>
  while the sender runs.
\<close>

definition sender_thread ::
  "ext \<Rightarrow> 's zmq \<Rightarrow> string option \<Rightarrow> io_error + 's \<Rightarrow> transport \<Rightarrow> socket_type \<Rightarrow> bool option
   \<Rightarrow> compression option \<Rightarrow> bool \<Rightarrow> sender_turn list \<Rightarrow> unit res option" where
  "sender_thread L z app socket tr st block cmpr flawed turns =
     (case create_sender L z app socket tr st block cmpr flawed turns of
        Ok None \<Rightarrow> None
      | Ok (Some _) \<Rightarrow> Some (Ok ())
      | Err _ \<Rightarrow> Some (Ok ())
      | Panic \<Rightarrow> Some Panic)"

text \<open>\<open>spawned\<close> tells whether the system makes the thread; it runs whether or not it is listed.\<close>

definition start_sender :: "bool \<Rightarrow> unit res \<Rightarrow> sender_threads \<Rightarrow> unit res \<times> sender_threads" where
  "start_sender spawned handle s =
     (if \<not> spawned \<or> th_poisoned s then (Panic, s)
      else (Ok (), s\<lparr>th_handles := th_handles s @ [handle]\<rparr>))"

text \<open>The handles are joined in order; an error is logged, a panic goes through (\<open>join().unwrap()\<close>).\<close>

fun join_handles :: "unit res list \<Rightarrow> unit res" where
  "join_handles [] = Ok ()"
| "join_handles (h # hs) = (case h of Panic \<Rightarrow> Panic | _ \<Rightarrow> join_handles hs)"

text \<open>\<open>drain(..)\<close> empties the list even when the loop over it panics, and the lock is then poisoned.\<close>

definition stop_senders :: "sender_threads \<Rightarrow> unit res \<times> sender_threads" where
  "stop_senders s =
     (let s1 = s\<lparr>th_interrupted := True\<rparr>
      in if th_poisoned s then (Panic, s1)
         else let res = join_handles (th_handles s)
              in (res, s1\<lparr>th_handles := [], th_poisoned := (res = Panic)\<rparr>))"

definition running_senders :: "(unit res \<Rightarrow> bool) \<Rightarrow> sender_threads \<Rightarrow> nat res" where
  "running_senders finished s =
     (if th_poisoned s then Panic else Ok (length (filter (\<lambda>h. \<not> finished h) (th_handles s))))"

text \<open>Any sequence of calls from a given state.\<close>

inductive threads_run :: "sender_threads \<Rightarrow> sender_threads \<Rightarrow> bool" for s where
  refl: "threads_run s s"
| start: "threads_run s t \<Longrightarrow> threads_run s (snd (start_sender spawned h t))"
| stop: "threads_run s t \<Longrightarrow> threads_run s (snd (stop_senders t))"

text \<open>The turns of a sender see the flag that \<open>stop_senders\<close> set.\<close>

definition sees_flag :: "sender_threads \<Rightarrow> sender_turn list \<Rightarrow> bool" where
  "sees_flag s turns \<longleftrightarrow> (th_interrupted s \<longrightarrow> (\<forall>t \<in> set turns. st_interrupted t))"

subsection \<open>Lemmas\<close>

lemma join_handles_panic: "join_handles hs = Panic \<longleftrightarrow> Panic \<in> set hs"
  and join_handles_Ok: "join_handles hs = Ok () \<longleftrightarrow> Panic \<notin> set hs"
  by (induction hs) (auto split: res.splits)

lemma interrupted_kept: "threads_run s t \<Longrightarrow> th_interrupted s \<Longrightarrow> th_interrupted t"
  by (induction rule: threads_run.induct) (simp_all add: start_sender_def stop_senders_def Let_def)

lemma poisoned_kept: "threads_run s t \<Longrightarrow> th_poisoned s \<Longrightarrow> th_poisoned t"
  by (induction rule: threads_run.induct) (simp_all add: start_sender_def stop_senders_def Let_def)

lemma interrupted_turns:
  "\<forall>t \<in> set turns. st_interrupted t \<Longrightarrow> sender_turns L z cmpr flawed count s turns = Ok s"
  by (cases turns) simp_all

text \<open>
  Once the senders have been stopped, no test sender sends again in this process: the
  flag is never cleared, and a sender started later is the sender that is interrupted at its
  first turn \<open>u\<close>: it is made, started and stopped.
\<close>

lemma stopped_senders_silent:
  assumes "threads_run (snd (stop_senders s)) t" and "sees_flag t turns" and "turns \<noteq> []" and "st_interrupted u"
  shows "create_sender L z app socket tr st block cmpr flawed turns
    = create_sender L z app socket tr st block cmpr flawed [u]"
proof -
  have "th_interrupted (snd (stop_senders s))" by (simp add: stop_senders_def Let_def)
  with interrupted_kept [OF assms(1)] have "th_interrupted t" by blast
  with assms(2) have i: "\<forall>t \<in> set turns. st_interrupted t" by (simp add: sees_flag_def)
  with assms(3) have "list_ex st_ends turns" "list_ex st_ends [u]"
    using assms(4) by (cases turns; simp add: st_ends_def)+
  moreover have "sender_turns L z cmpr flawed 0 k turns = sender_turns L z cmpr flawed 0 k [u]" for k
    using i assms(4) by (simp add: interrupted_turns)
  ultimately show ?thesis unfolding create_sender_def by presburger
qed

text \<open>
  Stopping succeeds exactly when no sender panicked; otherwise it panics, the handles after
  the first that panicked are dropped without being joined, and from then on every call
  panics on the poisoned lock.
\<close>

lemma stop_senders_spec:
  assumes "\<not> th_poisoned s" and "stop_senders s = (x, s')"
  shows "th_handles s' = [] \<and> (x = Ok () \<longleftrightarrow> Panic \<notin> set (th_handles s)) \<and> (x = Panic \<longleftrightarrow> th_poisoned s')
    \<and> (x = Panic \<longrightarrow> (\<forall>t spawned h finished. threads_run s' t \<longrightarrow>
        fst (start_sender spawned h t) = Panic \<and> fst (stop_senders t) = Panic \<and> running_senders finished t = Panic))"
proof -
  have x: "x = join_handles (th_handles s)" "s' = s\<lparr>th_interrupted := True, th_handles := [], th_poisoned := (x = Panic)\<rparr>"
    using assms by (auto simp: stop_senders_def Let_def)
  have "fst (start_sender spawned h t) = Panic \<and> fst (stop_senders t) = Panic \<and> running_senders finished t = Panic"
    if "x = Panic" "threads_run s' t" for t spawned h finished
    using poisoned_kept [OF that(2)] that(1)
    by (simp add: x(2) start_sender_def stop_senders_def Let_def running_senders_def)
  moreover have "x = Ok () \<longleftrightarrow> Panic \<notin> set (th_handles s)" by (simp add: x(1) join_handles_Ok)
  ultimately show ?thesis by (simp add: x(2))
qed

end
