(* ===== verification/Bs_SelfTest.thy ===== *)
theory Bs_SelfTest
  imports Bs_Debug Bs_Stream
begin

section \<open>The test sender, a receiver and the check of its messages (src/src/debug.rs)\<close>

text \<open>
  The loop of the test sender composed with a receiver on its wire and with
  \<open>assert_message_contents_ok\<close> on every message received: which messages of the crate's own
  test traffic pass the crate's own check.
\<close>

subsection \<open>The loop as a sequence of messages\<close>

text \<open>The times at which a message is due, before the loop ends.\<close>

fun due_times :: "sender_turn list \<Rightarrow> timestamp list" where
  "due_times [] = []"
| "due_times (t # ts) =
     (if st_interrupted t \<or> st_timed_out t then []
      else if st_due t then st_now t # due_times ts else due_times ts)"

fun ticks ::
  "ext \<Rightarrow> 's zmq \<Rightarrow> compression option \<Rightarrow> bool \<Rightarrow> u64 \<Rightarrow> 's sender \<Rightarrow> timestamp list \<Rightarrow> 's sender res" where
  "ticks L z cmpr flawed count s [] = Ok s"
| "ticks L z cmpr flawed count s (now # nows) =
     res_bind (sender_tick L z cmpr flawed now count s) (\<lambda>s'. ticks L z cmpr flawed (count + 1) s' nows)"

lemma sender_turns_ticks: "sender_turns L z cmpr flawed count s turns = ticks L z cmpr flawed count s (due_times turns)"
  by (induction turns arbitrary: count s) simp_all

subsection \<open>One message\<close>

text \<open>The channels of the test messages: they depend on the values' types only.\<close>

definition test_channels :: "ext \<Rightarrow> compression \<Rightarrow> channel list" where
  "test_channels L cmpr = map (channel_for L cmpr) (create_test_values 0 MESSAGE_ARRAY_SIZE)"

lemma test_channels_const: "map (channel_for L cmpr) (create_test_values v MESSAGE_ARRAY_SIZE) = test_channels L cmpr"
  by (simp add: test_channels_def create_test_values_eq test_values_def channel_for_def test_channel_def)

lemma test_channel_names: "map ch_name (test_channels L cmpr) = map value_name (create_test_values 0 MESSAGE_ARRAY_SIZE)"
  by (simp add: test_channels_def ch_name_def channel_for_spec(3) mk_config_def)

lemma test_channels_distinct: "distinct (map ch_name (test_channels L cmpr))" "test_channels L cmpr \<noteq> []"
  by (simp only: test_channel_names create_test_values_eq test_value_names, simp)
    (simp add: test_channels_def create_test_values_eq test_values_def)

definition test_compressible :: "ext \<Rightarrow> compression \<Rightarrow> bool" where
  "test_compressible L cmpr \<longleftrightarrow> (\<forall>v. \<forall>x \<in> set (create_test_values v MESSAGE_ARRAY_SIZE).
     compressible L cmpr (element_size (kind x)) (written_buffer (channel_for L cmpr x) x))"

lemma created_message:
  assumes "json_num_ok L" and "json_print_map L (create_data_header L (test_channels L (opt_or CompNone cmpr))) = Inr text"
  shows "\<exists>m. create_message L v MESSAGE_ARRAY_SIZE cmpr False index = Ok m"
  by (simp add: create_message_def fill_message_eq new_from_channel_map_def test_channels_const assms(2) message_new_def
      msg_hash_def get_str_def msg_id_def msg_htype_def dh_compression_def test_id_def ID_SIMULATED_def TIMESTAMP_NOW_def
      json_i64_of_u64 [OF assms(1)] timestamp_through_json [OF assms(1)])

text \<open>The main header of a test message, whatever was sent before.\<close>

definition test_header :: "ext \<Rightarrow> 's sender \<Rightarrow> byte list \<Rightarrow> timestamp \<Rightarrow> u64 \<Rightarrow> header" where
  "test_header L s blob now pid = (sd_main_header s)(''hash'' \<mapsto> JString (hash_md5 L blob),
     ''pulse_id'' \<mapsto> json_of_u64 L pid, ''global_timestamp'' \<mapsto> timestamp_json L now)"

lemma created_header:
  assumes "json_btree_ok L (create_data_header L chs) htext"
    and "compress_data L (sd_compression s) 1 False (str_bytes htext) = Ok blob"
  shows "\<exists>s1. sender_create_data_header L s chs = (Ok (), s1) \<and> sd_buffer s1 = blob
    \<and> sd_pulse_id s1 = sd_pulse_id s \<and> sd_socket s1 = sd_socket s \<and> sd_compression s1 = sd_compression s
    \<and> (\<forall>now pid. sent_header L s1 now pid = test_header L s blob now pid)"
  using assms by (simp add: json_btree_ok_def sender_create_data_header_def Let_def sent_header_def test_header_def)

text \<open>What is right about message number \<open>count\<close>: its id, its time, and the check.\<close>

definition test_message_ok :: "ext \<Rightarrow> timestamp \<Rightarrow> u64 \<Rightarrow> message \<Rightarrow> bool" where
  "test_message_ok L now count m \<longleftrightarrow> m_id m = count + 1 \<and> m_timestamp m = now
     \<and> assert_message_contents_ok L m = (if unat count < 100 then Ok () else Panic)"

lemma delivered_checked:
  assumes "num_cast_ok L" and "float_cast_ok L" and "test_compressible L cmpr"
    and "delivered (test_channels L cmpr) now (count + 1) (map datum (create_test_values count MESSAGE_ARRAY_SIZE)) m"
  shows "test_message_ok L now count m"
proof -
  let ?vs = "create_test_values count MESSAGE_ARRAY_SIZE"
  have c: "\<forall>x \<in> set ?vs. compressible L cmpr (element_size (kind x)) (written_buffer (channel_for L cmpr x) x)"
    using assms(3) by (simp add: test_compressible_def)
  have d: "m_id m = count + 1" "m_timestamp m = now" "\<not> m_raw m"
      "\<forall>i < length ?vs. message_channel_data m (ch_name (map (channel_for L cmpr) ?vs ! i))
         = Some (received (map (channel_for L cmpr) ?vs ! i) (map datum ?vs ! i))"
    using assms(4) unfolding delivered_def test_channels_const [of L cmpr count, symmetric] by simp_all
  have "\<forall>x \<in> set (create_test_values (m_id m - 1) MESSAGE_ARRAY_SIZE). message_channel_value m (value_name x) = Some x"
    using test_value_received [OF c d(4)] by (simp add: d(1))
  from assert_contents [OF assms(1,2) d(3) this] d show ?thesis
    unfolding test_message_ok_def d(1) checked_count by simp
qed

lemma test_sent_values:
  assumes "test_compressible L cmpr"
  shows "list_all2 (sendable L) (test_channels L cmpr) (map datum (create_test_values v MESSAGE_ARRAY_SIZE))"
  unfolding test_channels_const [of L cmpr v, symmetric]
  using test_sendable(1) [of _ "unat v mod 100" L cmpr] assms
  by (simp add: list_all2_conv_all_nth test_compressible_def create_test_values_eq)

text \<open>What the libraries do with the headers of the test messages.\<close>

definition test_headers_ok :: "ext \<Rightarrow> compression option \<Rightarrow> string \<Rightarrow> byte list \<Rightarrow> 's sender \<Rightarrow> bool" where
  "test_headers_ok L cmpr htext blob s \<longleftrightarrow>
     (let h = create_data_header L (test_channels L (opt_or CompNone cmpr))
      in (\<exists>text. json_print_map L h = Inr text) \<and> json_btree_ok L h htext
         \<and> compressible L (sd_compression s) 1 (str_bytes htext)
         \<and> compress_data L (sd_compression s) 1 False (str_bytes htext) = Ok blob)"

lemma test_tick:
  assumes "byteorder_ok L" and "json_num_ok L" and "indexmap_ok L" and "num_cast_ok L" and "float_cast_ok L"
    and "test_compressible L (opt_or CompNone cmpr)" and "test_headers_ok L cmpr htext blob s" and "sender_ok s"
    and "sd_pulse_id s = count + 1" and "uint (count + 1) < 2 ^ 63"
    and "json_map_ok L (test_header L s blob now (count + 1)) mtext" and "ep \<in> E" and "hash_md5 L blob \<notin> E"
    and "H (hash_md5 L blob) = Some (create_data_header L (test_channels L (opt_or CompNone cmpr)))"
  shows "\<exists>fs m s'. sender_tick L wire_zmq cmpr False now count s = Ok s'
    \<and> sd_socket s' = sd_socket s @ fs \<and> (\<forall>w. multipart [] (fs @ w) = map fst fs # multipart [] w)
    \<and> parses_to L H E ep (map fst fs, m) \<and> test_message_ok L now count m
    \<and> test_headers_ok L cmpr htext blob s' \<and> sender_ok s' \<and> sd_pulse_id s' = count + 1 + 1
    \<and> (\<forall>now' pid. test_header L s' blob now' pid = test_header L s blob now' pid)"
proof -
  let ?c = "opt_or CompNone cmpr"
  let ?chs = "test_channels L ?c" and ?ds = "map datum (create_test_values count MESSAGE_ARRAY_SIZE)"
  from assms(7) obtain dtext where t: "json_print_map L (create_data_header L ?chs) = Inr dtext"
      "json_btree_ok L (create_data_header L ?chs) htext" "compressible L (sd_compression s) 1 (str_bytes htext)"
      "compress_data L (sd_compression s) 1 False (str_bytes htext) = Ok blob"
    by (auto simp: test_headers_ok_def Let_def)
  obtain m0 where m0: "create_message L count MESSAGE_ARRAY_SIZE cmpr False count = Ok m0"
    using created_message [OF assms(2) t(1)] by blast
  note f = create_message_Ok [OF assms(2,3) m0, unfolded test_channels_const]
  obtain s1 where s1: "sender_create_data_header L s ?chs = (Ok (), s1)" "sd_buffer s1 = blob"
      "sd_pulse_id s1 = sd_pulse_id s" "sd_socket s1 = sd_socket s" "sd_compression s1 = sd_compression s"
      "\<And>now pid. sent_header L s1 now pid = test_header L s blob now pid"
    using created_header [OF t(2,4)] by blast
  have r: "header_ready L ?chs htext s1" using create_header_ready [OF assms(8) s1(1) t(2,3)] .
  have p: "sd_pulse_id s1 = count + 1" by (simp add: s1(3) assms(9))
  have j: "json_map_ok L (sent_header L s1 now (sd_pulse_id s1)) mtext" "uint (sd_pulse_id s1) < 2 ^ 63"
      "hash_md5 L (sd_buffer s1) \<notin> E" "H (hash_md5 L (sd_buffer s1)) = Some (create_data_header L ?chs)"
    using assms(10,11,13,14) by (simp_all add: p s1(2,6))
  obtain fs m s2 where o: "sender_send L wire_zmq now s1 ID_SIMULATED TIMESTAMP_NOW ?chs (map Some ?ds)
        = (Ok (count + 1), s2\<lparr>sd_socket := sd_socket s @ fs\<rparr>)"
      "\<And>w. multipart [] (fs @ w) = map fst fs # multipart [] w" "parses_to L H E ep (map fst fs, m)"
      "delivered ?chs now (count + 1) ?ds m" "header_ready L ?chs htext s2" "sd_pulse_id s2 = count + 1 + 1"
      "sd_compression s2 = sd_compression s1" "sd_main_header s2 = sent_header L s1 now (count + 1)"
    using send_one [where H = H, OF assms(1,2) test_channels_distinct(2,1) r test_sent_values [OF assms(6)] j(1,2) assms(12) j(3,4)]
    unfolding p s1(4) by blast
  have "sender_tick L wire_zmq cmpr False now count s = Ok (s2\<lparr>sd_socket := sd_socket s @ fs\<rparr>)"
    using s1(1) o(1) by (simp add: sender_tick_def m0 send_message_def f comp_def)
  moreover have "test_header L (s2\<lparr>sd_socket := k\<rparr>) blob now' pid = test_header L s blob now' pid" for k now' pid
    by (simp add: test_header_def o(8) s1(6) fun_upd_twist)
  moreover have "sender_ok s2" using o(5) by (simp add: header_ready_def)
  ultimately show ?thesis
    using o(2,3,6) delivered_checked [OF assms(4-6) o(4)] t o(7) s1(5)
    by (intro exI [of _ fs] exI [of _ m] exI [of _ "s2\<lparr>sd_socket := sd_socket s @ fs\<rparr>"])
      (simp add: test_headers_ok_def Let_def)
qed

subsection \<open>The run\<close>

lemma ticks_sent:
  assumes "byteorder_ok L" and "json_num_ok L" and "indexmap_ok L" and "num_cast_ok L" and "float_cast_ok L"
    and "test_compressible L (opt_or CompNone cmpr)" and "ep \<in> E" and "hash_md5 L blob \<notin> E"
    and "H (hash_md5 L blob) = Some (create_data_header L (test_channels L (opt_or CompNone cmpr)))"
    and "test_headers_ok L cmpr htext blob s" and "sender_ok s" and "sd_pulse_id s = count + 1"
    and "uint (count + 1) + int (length nows) \<le> 2 ^ 63"
    and "\<forall>i < length nows. \<exists>text. json_map_ok L (test_header L s blob (nows ! i) (id_from (count + 1) i)) text"
  shows "\<exists>xs s' w. ticks L wire_zmq cmpr False count s nows = Ok s' \<and> sd_socket s' = sd_socket s @ w
    \<and> multipart [] w = map fst xs \<and> length xs = length nows \<and> (\<forall>x \<in> set xs. parses_to L H E ep x)
    \<and> (\<forall>i < length nows. test_message_ok L (nows ! i) (id_from count i) (snd (xs ! i)))"
  using assms(10-)
proof (induction nows arbitrary: count s)
  case Nil
  then show ?case by simp
next
  case (Cons now nows)
  obtain mtext where j: "json_map_ok L (test_header L s blob now (count + 1)) mtext" using Cons.prems(5) by fastforce
  have p: "uint (count + 1) < 2 ^ 63" using Cons.prems(4) by simp
  obtain fs m s1 where o: "sender_tick L wire_zmq cmpr False now count s = Ok s1" "sd_socket s1 = sd_socket s @ fs"
      "\<And>w. multipart [] (fs @ w) = map fst fs # multipart [] w" "parses_to L H E ep (map fst fs, m)"
      "test_message_ok L now count m" "test_headers_ok L cmpr htext blob s1" "sender_ok s1" "sd_pulse_id s1 = count + 1 + 1"
      "\<And>now' pid. test_header L s1 blob now' pid = test_header L s blob now' pid"
    using test_tick [where H = H, OF assms(1-6) Cons.prems(1-3) p j assms(7-9)] by blast
  have "uint (count + 1 + 1) \<le> uint (count + 1) + 1" by (simp add: uint_add_le [of "count + 1" 1, simplified])
  then have b: "uint (count + 1 + 1) + int (length nows) \<le> 2 ^ 63" using Cons.prems(4) by simp
  have js: "\<forall>i < length nows. \<exists>text. json_map_ok L (test_header L s1 blob (nows ! i) (id_from (count + 1 + 1) i)) text"
    unfolding o(9) id_from_simps(2) [of "count + 1"]
  proof (intro allI impI)
    fix i
    assume "i < length nows"
    then show "\<exists>text. json_map_ok L (test_header L s blob (nows ! i) (id_from (count + 1) (Suc i))) text"
      using Cons.prems(5) [rule_format, of "Suc i"] by simp
  qed
  obtain xs s' w where r: "ticks L wire_zmq cmpr False (count + 1) s1 nows = Ok s'" "sd_socket s' = sd_socket s1 @ w"
      "multipart [] w = map fst xs" "length xs = length nows" "\<forall>x \<in> set xs. parses_to L H E ep x"
      "\<forall>i < length nows. test_message_ok L (nows ! i) (id_from (count + 1) i) (snd (xs ! i))"
    using Cons.IH [OF o(6-8) b js] by blast
  have "test_message_ok L ((now # nows) ! i) (id_from count i) (snd (((map fst fs, m) # xs) ! i))"
    if "i < length (now # nows)" for i
    using that o(5) r(6) by (cases i) simp_all
  then show ?case
    using o(1-4) r(1-5) by (intro exI [of _ "(map fst fs, m) # xs"] exI [of _ s'] exI [of _ "fs @ w"]) simp
qed

lemma test_message_strip: "strip_changed m = strip_changed m' \<Longrightarrow> test_message_ok L now count m = test_message_ok L now count m'"
proof -
  have s: "test_message_ok L now count (strip_changed m) = test_message_ok L now count m" for m
  proof -
    have "message_channel_value (strip_changed m) = message_channel_value m"
      by (simp add: fun_eq_iff message_channel_value_def message_channel_data_def strip_changed_def)
    then show ?thesis by (simp add: test_message_ok_def assert_message_contents_ok_def) (simp add: strip_changed_def)
  qed
  show "test_message_ok L now count m = test_message_ok L now count m'" if "strip_changed m = strip_changed m'"
    using s [of m] s [of m'] that by simp
qed

lemma id_from_0: "i < n \<Longrightarrow> 1 + int n \<le> 2 ^ 63 \<Longrightarrow> id_from 0 i + 1 = id_from 1 i \<and> unat (id_from 0 i) = i"
  by (simp add: id_from_def unsigned_of_nat take_bit_nat_eq_self_iff)

text \<open>
  C2. The crate tests itself.  The test sender's loop, run from a new sender with any
  compressions over any turns, sends one message at each time that is due; a receiver
  connected to it, with any sound header cache and checks that let the ids through, receives
  them all in order, message \<open>i\<close> with id \<open>i + 1\<close>; and the check of the contents passes on the
  first 100 messages and panics on every later one, because the sender's values start again
  at 0 while the check expects the id.
\<close>

theorem test_stream_checked:
  assumes "byteorder_ok L" and "json_num_ok L" and "indexmap_ok L" and "num_cast_ok L" and "float_cast_ok L"
    and "test_compressible L (opt_or CompNone cmpr)" and "test_headers_ok L cmpr htext blob s"
    and "sender_ok s" and "sd_pulse_id s = 1" and "sd_socket s = []"
    and "nows = due_times turns" and "1 + int (length nows) \<le> 2 ^ 63"
    and "\<forall>i < length nows. \<exists>text. json_map_ok L (test_header L s blob (nows ! i) (id_from 1 i)) text"
    and "ep \<in> E" and "hash_md5 L blob \<notin> E"
    and "H (hash_md5 L blob) = Some (create_data_header L (test_channels L (opt_or CompNone cmpr)))"
  shows "\<exists>s'. sender_turns L wire_zmq cmpr False 0 s turns = Ok s'
    \<and> (\<forall>r sims. listening ep (multipart [] (sd_socket s')) r \<and> cache_sound L False H E (rv_header_buffer r)
        \<and> length sims = length nows
        \<and> (\<forall>i < length nows. id_limits (rv_check_mask r) (sims ! i) (rv_id_buffer r ep) (id_from 1 i)) \<longrightarrow>
        (\<exists>ms r'. receive_all L feed_zmq sims r = (map (\<lambda>m. Ok \<lparr>rm_endpoint = Some ep, rm_message = m\<rparr>) ms, r')
          \<and> length ms = length nows \<and> error_count r' = error_count r
          \<and> (\<forall>i < length nows. m_id (ms ! i) = id_from 1 i \<and> m_timestamp (ms ! i) = nows ! i
              \<and> assert_message_contents_ok L (ms ! i) = (if i < 100 then Ok () else Panic))))"
proof -
  let ?n = "length nows"
  have z: "test_headers_ok L cmpr htext blob s" "sender_ok s" "sd_pulse_id s = 0 + 1" "uint (0 + 1 :: u64) + int ?n \<le> 2 ^ 63"
      "\<forall>i < ?n. \<exists>text. json_map_ok L (test_header L s blob (nows ! i) (id_from (0 + 1) i)) text"
    using assms(7-9,12,13) by simp_all
  obtain xs s' w where t: "ticks L wire_zmq cmpr False 0 s nows = Ok s'" "sd_socket s' = sd_socket s @ w"
      "multipart [] w = map fst xs" "length xs = ?n" "\<forall>x \<in> set xs. parses_to L H E ep x"
      "\<forall>i < ?n. test_message_ok L (nows ! i) (id_from 0 i) (snd (xs ! i))"
    using ticks_sent [where H = H, OF assms(1-6,14-16) z] by blast
  have ids: "m_id (snd (xs ! i)) = id_from 1 i" if "i < ?n" for i
    using t(6) that id_from_0 [OF that assms(12)] by (simp add: test_message_ok_def)
  have inc: "sorted_wrt (<) (map (m_id \<circ> snd) xs)"
    using id_from_less [where p = 1] assms(12) by (simp add: sorted_wrt_iff_nth_less t(4) ids)
  have "\<exists>ms r'. receive_all L feed_zmq sims r = (map (\<lambda>m. Ok \<lparr>rm_endpoint = Some ep, rm_message = m\<rparr>) ms, r')
      \<and> length ms = ?n \<and> error_count r' = error_count r
      \<and> (\<forall>i < ?n. m_id (ms ! i) = id_from 1 i \<and> m_timestamp (ms ! i) = nows ! i
          \<and> assert_message_contents_ok L (ms ! i) = (if i < 100 then Ok () else Panic))"
    if "listening ep (multipart [] (sd_socket s')) r" "cache_sound L False H E (rv_header_buffer r)" "length sims = ?n"
      "\<forall>i < ?n. id_limits (rv_check_mask r) (sims ! i) (rv_id_buffer r ep) (id_from 1 i)" for r sims
  proof -
    note h = that
    have "list_all2 (\<lambda>sim x. id_limits (rv_check_mask r) sim (rv_id_buffer r ep) (m_id (snd x))) sims xs"
      using h(3,4) by (simp add: list_all2_conv_all_nth t(4) ids)
    moreover have "listening_on (\<lambda>s. s) ep (map fst xs) r" using h(1) by (simp add: listening_feed t(2,3) assms(10))
    ultimately obtain ms r' where m: "receive_all L feed_zmq sims r
          = (map (\<lambda>m. Ok \<lparr>rm_endpoint = Some ep, rm_message = m\<rparr>) ms, r')"
        "map strip_changed ms = map (strip_changed \<circ> snd) xs" "error_count r' = error_count r"
      using feed.receive_all_delivers [OF _ h(2) t(5) inc] by blast
    have len: "length ms = ?n" using map_eq_imp_length_eq [OF m(2)] t(4) by simp
    have "test_message_ok L (nows ! i) (id_from 0 i) (ms ! i)" if "i < ?n" for i
    proof -
      have "strip_changed (ms ! i) = strip_changed (snd (xs ! i))"
        using arg_cong [OF m(2), of "\<lambda>ys. ys ! i"] that by (simp add: len t(4))
      then show ?thesis using t(6) that test_message_strip by blast
    qed
    then show ?thesis
      using m(1,3) len id_from_0 [OF _ assms(12)] by (auto simp: test_message_ok_def)
  qed
  then show ?thesis using t(1) by (auto simp: sender_turns_ticks assms(11))
qed

text \<open>
  The instance of the witness: a library with exact casts and one JSON text for each header,
  and a loop of four turns, two of which have a message due.
\<close>

definition dbg_base :: ext where
  "dbg_base = ref_ext\<lparr>num_cast := (\<lambda>t p. case prim_int p of
       Some n \<Rightarrow> (case t of TF32 \<Rightarrow> Some (PF32 (f32_of_nat (nat n))) | TF64 \<Rightarrow> Some (PF64 (f64_of_nat (nat n))) | _ \<Rightarrow> prim_of_int t n)
     | None \<Rightarrow> Some p)\<rparr>"

definition dbg_header :: header where
  "dbg_header = create_data_header dbg_base (test_channels dbg_base Lz4)"

definition dbg_sender :: "(byte list \<times> i32) list sender" where
  "dbg_sender = wit_sender\<lparr>sd_pulse_id := 1\<rparr>"

definition dbg_main :: "timestamp \<Rightarrow> u64 \<Rightarrow> header" where
  "dbg_main now pid = [''htype'' \<mapsto> JString HTYPE, ''hash'' \<mapsto> JString (hash_md5 ref_ext (str_bytes ''d'')),
     ''pulse_id'' \<mapsto> json_of_u64 ref_ext pid, ''global_timestamp'' \<mapsto> timestamp_json ref_ext now]"

definition dbg_ext :: ext where
  "dbg_ext = dbg_base\<lparr>json_print_btree := (\<lambda>h. Inr ''d''),
     json_print_map := (\<lambda>h. Inr (if h ''pulse_id'' = Some (json_of_u64 ref_ext 2) then ''n'' else ''m'')),
     json_from_slice := (\<lambda>bs. if bs = str_bytes ''d'' then Inr dbg_header
                             else if bs = str_bytes ''m'' then Inr (dbg_main (1, 2) 1)
                             else if bs = str_bytes ''n'' then Inr (dbg_main (1, 3) 2)
                             else Inl (InvalidData, ''expected value''))\<rparr>"

definition dbg_turns :: "sender_turn list" where
  "dbg_turns = map (\<lambda>(b, due, now). \<lparr>st_interrupted = b, st_timed_out = False, st_due = due, st_now = now\<rparr>)
     [(False, True, (1, 2)), (False, False, (1, 2)), (False, True, (1, 3)), (True, True, (1, 4))]"

definition dbg_receiver :: "byte list list list \<Rightarrow> byte list list list receiver" where
  "dbg_receiver ms = (str_receiver ms)\<lparr>rv_id_buffer := Map.empty\<rparr>"

lemma dbg_laws:
  "byteorder_ok dbg_ext" "json_num_ok dbg_ext" "indexmap_ok dbg_ext" "num_cast_ok dbg_ext" "float_cast_ok dbg_ext"
proof -
  show "byteorder_ok dbg_ext" "json_num_ok dbg_ext" "indexmap_ok dbg_ext"
    using ref_byteorder_ok ref_json_num_ok ref_indexmap_ok
    by (simp_all add: byteorder_ok_def json_num_ok_def indexmap_ok_def dbg_ext_def dbg_base_def)
  have "num_cast dbg_ext t p = prim_of_int t n" if "is_int_ty t" "prim_int p = Some n" for t p n
    using that by (cases t) (simp_all add: dbg_ext_def dbg_base_def)
  then show "num_cast_ok dbg_ext" by (simp add: num_cast_ok_def)
  show "float_cast_ok dbg_ext" by (simp add: float_cast_ok_def dbg_ext_def dbg_base_def)
qed

lemma dbg_header_text: "create_data_header dbg_ext (test_channels dbg_ext Lz4) = dbg_header"
proof -
  have "json_of_u64 dbg_ext = json_of_u64 dbg_base" by (simp add: fun_eq_iff json_of_u64_def dbg_ext_def)
  then have "metadata dbg_ext = metadata dbg_base" by (simp add: fun_eq_iff metadata_def)
  then show ?thesis
    by (simp add: dbg_header_def test_channels_def create_data_header_def comp_def channel_for_spec(3))
qed

lemma dbg_compressible: "compressible dbg_ext Lz4 es bs" "compressible dbg_ext CompNone es bs"
  by (simp_all add: compressible_def lz4_ok_def dbg_ext_def dbg_base_def ref_ext_def)

lemma dbg_texts: "str_bytes ''m'' \<noteq> str_bytes ''d''" "str_bytes ''n'' \<noteq> str_bytes ''d''" "str_bytes ''n'' \<noteq> str_bytes ''m''"
  by (simp_all add: str_bytes_def byte_of_char_def)

lemma dbg_md5: "hash_md5 dbg_ext = hash_md5 ref_ext"
  by (rule hash_md5_cong) (simp add: dbg_ext_def dbg_base_def)

lemma dbg_json:
  assumes "(now, pid) \<in> {((1, 2), 1), ((1, 3), 2)}"
  shows "\<exists>text. json_map_ok dbg_ext (test_header dbg_ext dbg_sender (str_bytes ''d'') now pid) text"
proof -
  have "test_header dbg_ext dbg_sender (str_bytes ''d'') now pid = dbg_main now pid"
    by (simp add: test_header_def dbg_main_def dbg_sender_def wit_sender_def timestamp_json_def json_of_u64_def dbg_md5)
      (simp add: dbg_ext_def dbg_base_def)
  then show ?thesis
    using assms dbg_texts by (auto simp: json_map_ok_def dbg_ext_def dbg_main_def json_of_u64_def ref_ext_def)
qed

lemma dbg_headers: "test_headers_ok dbg_ext (Some Lz4) ''d'' (str_bytes ''d'') dbg_sender"
  by (simp add: test_headers_ok_def Let_def opt_or_def dbg_header_text json_btree_ok_def dbg_compressible dbg_sender_def
      wit_sender_def compress_data_def) (simp add: dbg_ext_def)

theorem test_stream_checked_witness:
  "\<exists>s' ms r'. sender_turns dbg_ext wire_zmq (Some Lz4) False 0 dbg_sender dbg_turns = Ok s'
     \<and> receive_all dbg_ext feed_zmq [Ok 1, Err (InvalidData, [])] (dbg_receiver (multipart [] (sd_socket s')))
       = (map (\<lambda>m. Ok \<lparr>rm_endpoint = Some ''tcp'', rm_message = m\<rparr>) ms, r')
     \<and> map m_id ms = [1, 2] \<and> map m_timestamp ms = [(1, 2), (1, 3)] \<and> error_count r' = 0
     \<and> map (assert_message_contents_ok dbg_ext) ms = [Ok (), Ok ()]"
proof -
  let ?nows = "[(1, 2), (1, 3)] :: timestamp list" and ?sims = "[Ok 1, Err (InvalidData, [])] :: u64 res list"
  let ?H = "[hash_md5 ref_ext (str_bytes ''d'') \<mapsto> dbg_header]"
  have c: "test_compressible dbg_ext (opt_or CompNone (Some Lz4))" by (simp add: test_compressible_def opt_or_def dbg_compressible)
  have s: "sender_ok dbg_sender" "sd_pulse_id dbg_sender = 1" "sd_socket dbg_sender = []"
    by (simp_all add: dbg_sender_def wit_sender_def sender_ok_def dh_compression_def)
  have t: "?nows = due_times dbg_turns" by (simp add: dbg_turns_def)
  have i: "id_from 1 0 = 1" "id_from 1 (Suc 0) = 2" by (simp_all add: id_from_def)
  have all: "(\<forall>i < length ?nows. P i) = (P 0 \<and> P 1)" for P by (auto simp: less_Suc_eq)
  have j: "\<forall>i < length ?nows. \<exists>text. json_map_ok dbg_ext (test_header dbg_ext dbg_sender (str_bytes ''d'') (?nows ! i) (id_from 1 i)) text"
    unfolding all using dbg_json by (simp add: i)
  have h: "hash_md5 dbg_ext (str_bytes ''d'') \<notin> {''tcp''}" "''tcp'' \<in> {''tcp''}" "1 + int (length ?nows) \<le> 2 ^ 63"
      "?H (hash_md5 dbg_ext (str_bytes ''d'')) = Some (create_data_header dbg_ext (test_channels dbg_ext (opt_or CompNone (Some Lz4))))"
    by (simp_all add: opt_or_def dbg_header_text dbg_md5 hash_ref_d)
  obtain s' where s': "sender_turns dbg_ext wire_zmq (Some Lz4) False 0 dbg_sender dbg_turns = Ok s'"
      and all_r: "\<forall>r sims. listening ''tcp'' (multipart [] (sd_socket s')) r \<and> cache_sound dbg_ext False ?H {''tcp''} (rv_header_buffer r)
        \<and> length sims = length ?nows
        \<and> (\<forall>i < length ?nows. id_limits (rv_check_mask r) (sims ! i) (rv_id_buffer r ''tcp'') (id_from 1 i)) \<longrightarrow>
        (\<exists>ms r'. receive_all dbg_ext feed_zmq sims r = (map (\<lambda>m. Ok \<lparr>rm_endpoint = Some ''tcp'', rm_message = m\<rparr>) ms, r')
          \<and> length ms = length ?nows \<and> error_count r' = error_count r
          \<and> (\<forall>i < length ?nows. m_id (ms ! i) = id_from 1 i \<and> m_timestamp (ms ! i) = ?nows ! i
              \<and> assert_message_contents_ok dbg_ext (ms ! i) = (if i < 100 then Ok () else Panic)))"
    using test_stream_checked [where H = ?H, OF dbg_laws c dbg_headers s t h(3) j h(2,1,4)] by blast
  let ?r = "dbg_receiver (multipart [] (sd_socket s'))"
  have l: "listening ''tcp'' (multipart [] (sd_socket s')) ?r" "error_count ?r = 0"
      "cache_sound dbg_ext False ?H {''tcp''} (rv_header_buffer ?r)" "length ?sims = length ?nows"
    using cache_sound_new by (simp_all add: listening_def dbg_receiver_def str_receiver_def error_count_def stats_new_def)
  have "\<forall>i < length ?nows. id_limits (rv_check_mask ?r) (?sims ! i) (rv_id_buffer ?r ''tcp'') (id_from 1 i)"
    unfolding all by (simp add: dbg_receiver_def str_receiver_def i id_limits_def out_of_range_def VALID_ID_RANGE_def)
  with all_r l obtain ms r' where m: "receive_all dbg_ext feed_zmq ?sims ?r = (map (\<lambda>m. Ok \<lparr>rm_endpoint = Some ''tcp'', rm_message = m\<rparr>) ms, r')"
      "length ms = length ?nows" "error_count r' = error_count ?r"
      "\<forall>i < length ?nows. m_id (ms ! i) = id_from 1 i \<and> m_timestamp (ms ! i) = ?nows ! i
        \<and> assert_message_contents_ok dbg_ext (ms ! i) = (if i < 100 then Ok () else Panic)"
    by blast
  obtain m1 m2 where ms: "ms = [m1, m2]" using m(2) by (auto simp: length_Suc_conv)
  have "map m_id ms = [1, 2] \<and> map m_timestamp ms = [(1, 2), (1, 3)]
      \<and> map (assert_message_contents_ok dbg_ext) ms = [Ok (), Ok ()]"
    using m(4) unfolding all by (simp add: ms i)
  with s' m(1,3) l(2) show ?thesis by metis
qed

end
