(* ===== verification/Bs_Print.thy ===== *)
theory Bs_Print
  imports Bs_Debug Bs_Pool Bs_Typing
begin

section \<open>Printing of messages and statistics (src/src/debug.rs)\<close>

text \<open>
  The lines that \<open>print_message\<close>, \<open>print_stats_rec\<close> and \<open>print_stats_pool\<close> write to the
  standard output (each without its newline), up to the panic where there is one.  The order in
  which the entries of a hash map are visited is an argument, as is serde_json's text of a value;
  \<open>{:?}\<close> of the crate's own enumerations is the text of the derived \<open>Debug\<close>.
\<close>

subsection \<open>Text forms\<close>

definition tab :: string where
  "tab = [CHR 0x09]"

text \<open>\<open>{:<n}\<close> of a number.\<close>

definition pad_right :: "nat \<Rightarrow> string \<Rightarrow> string" where
  "pad_right n s = s @ replicate (n - length s) (CHR '' '')"

definition debug_option :: "ext \<Rightarrow> string option \<Rightarrow> string" where
  "debug_option L x = (case x of None \<Rightarrow> ''None'' | Some s \<Rightarrow> ''Some('' @ str_debug L s @ '')'')"

fun debug_socket_type :: "socket_type \<Rightarrow> string" where
  "debug_socket_type PUB = ''PUB''"
| "debug_socket_type SUB = ''SUB''"
| "debug_socket_type PUSH = ''PUSH''"
| "debug_socket_type PULL = ''PULL''"
| "debug_socket_type PAIR_socket = ''PAIR''"

fun debug_connection_mode :: "connection_mode \<Rightarrow> string" where
  "debug_connection_mode SharedMode = ''Shared''"
| "debug_connection_mode IndividualMode = ''Individual''"

fun debug_delivery_mode :: "delivery_mode \<Rightarrow> string" where
  "debug_delivery_mode Inline = ''Inline''"
| "debug_delivery_mode Threaded = ''Threaded''"
| "debug_delivery_mode Buffered = ''Buffered''"
| "debug_delivery_mode Async = ''Async''"

fun debug_diag :: "endpoint_diag \<Rightarrow> string" where
  "debug_diag DiagMessages = ''Messages''"
| "debug_diag DiagErrors = ''Errors''"
| "debug_diag RepeatedId = ''RepeatedId''"
| "debug_diag NonPositiveId = ''NonPositiveId''"
| "debug_diag DecreasingId = ''DecreasingId''"
| "debug_diag OutOfRangeId = ''OutOfRangeId''"
| "debug_diag SocketError = ''SocketError''"
| "debug_diag ParsingError = ''ParsingError''"
| "debug_diag DecompressionError = ''DecompressionError''"
| "debug_diag HeaderChange = ''HeaderChange''"

subsection \<open>Messages\<close>

text \<open>
  The orders in which the main header, the data header and a JSON object are visited, the
  text of a JSON value, and the name of the thread.
\<close>

record printing =
  pr_main_keys :: "string list"
  pr_data_keys :: "string list"
  pr_object_keys :: "header \<Rightarrow> string list"
  pr_json :: "json \<Rightarrow> string"
  pr_thread :: "string option"

definition listed :: "string list \<Rightarrow> (string \<Rightarrow> 'v option) \<Rightarrow> (string \<times> 'v) list" where
  "listed ks m = List.map_filter (\<lambda>k. map_option (Pair k) (m k)) ks"

definition message_line :: "ext \<Rightarrow> printing \<Rightarrow> received_message \<Rightarrow> i32 \<Rightarrow> string" where
  "message_line L P rx counter =
     (let m = rm_message rx; ts = m_timestamp m
      in ''Message '' @ pad_right 5 (show_signed counter) @ '' Id:'' @ show_unsigned (m_id m)
         @ ''  Ts:'' @ show_unsigned (fst ts) @ '','' @ pad_right 10 (show_unsigned (snd ts))
         @ ''  Hash:'' @ m_hash m @ '' '' @ (if message_header_changed m then ''*'' else '' '')
         @ '' Endpoint:'' @ debug_option L (rm_endpoint rx)
         @ '' ['' @ (case pr_thread P of Some n \<Rightarrow> n | None \<Rightarrow> ''Unnamed Thread'') @ '']'')"

definition main_header_lines :: "printing \<Rightarrow> message \<Rightarrow> string list" where
  "main_header_lines P m =
     ''Main Header:''
     # map (\<lambda>(k, v). tab @ k @ '': '' @ pr_json P v) (listed (pr_main_keys P) (m_main_header m))"

fun data_header_entry :: "printing \<Rightarrow> string \<times> json \<Rightarrow> string list" where
  "data_header_entry P (key, JObject mp) =
     (tab @ key) # map (\<lambda>(k, v). tab @ tab @ k @ '': '' @ pr_json P v) (listed (pr_object_keys P mp) mp)"
| "data_header_entry P (key, JArray xs) = (tab @ key) # map (\<lambda>v. tab @ tab @ pr_json P v) xs"
| "data_header_entry P (key, v) = [tab @ key @ '': '' @ pr_json P v]"

definition data_header_lines :: "printing \<Rightarrow> message \<Rightarrow> string list" where
  "data_header_lines P m =
     ''Data Header:'' # concat (map (data_header_entry P) (listed (pr_data_keys P) (m_data_header m)))"

definition metadata_line :: "channel_config \<Rightarrow> string" where
  "metadata_line c =
     tab @ cfg_name c @ '' '' @ cfg_kind c @ '' ''
     @ show_slice (map show_unsigned (case cfg_shape c of Some s \<Rightarrow> s | None \<Rightarrow> []))
     @ '' '' @ show_nat (cfg_elements c) @ '' '' @ compression_to_string (cfg_compression c)"

text \<open>
  The data: the entry at position \<open>index\<close> is printed with the type of the channel at that
  position, whatever its name; an index past the channels panics.
\<close>

fun data_lines ::
  "ext \<Rightarrow> channel list \<Rightarrow> nat \<Rightarrow> nat \<Rightarrow> (string \<times> channel_data option) list \<Rightarrow> string list \<times> unit res" where
  "data_lines L channels max_size index [] = ([], Ok ())"
| "data_lines L channels max_size index ((key, value) # rest) =
     (if index < length channels
      then case channel_data_line L value
             (tab @ key @ '' <'' @ cfg_kind (ch_config (channels ! index)) @ ''>: '') max_size of
             Ok line \<Rightarrow> (let (ls, res) = data_lines L channels max_size (index + 1) rest in (line # ls, res))
           | _ \<Rightarrow> ([], Panic)
      else ([], Panic))"

text \<open>The lines before the data.\<close>

definition head_lines :: "ext \<Rightarrow> printing \<Rightarrow> received_message \<Rightarrow> bool \<Rightarrow> bool \<Rightarrow> bool \<Rightarrow> i32 \<Rightarrow> string list" where
  "head_lines L P rx main_header data_header meta counter =
     [replicate 110 (CHR ''-''), message_line L P rx counter]
     @ (if main_header then main_header_lines P (rm_message rx) else [])
     @ (if data_header then data_header_lines P (rm_message rx) else [])
     @ (if meta then ''Channel Metadata:'' # map (metadata_line \<circ> ch_config) (m_channels (rm_message rx)) else [])"

definition increment_counter :: "i32 \<Rightarrow> i32" where
  "increment_counter counter = counter + 1"

text \<open>The lines, how the function ended, and the new value of the message counter.\<close>

definition print_message ::
  "ext \<Rightarrow> printing \<Rightarrow> received_message \<Rightarrow> nat \<Rightarrow> bool \<Rightarrow> bool \<Rightarrow> bool \<Rightarrow> bool \<Rightarrow> i32 \<Rightarrow> string list \<times> unit res \<times> i32" where
  "print_message L P rx max_size main_header data_header meta data counter =
     (let m = rm_message rx;
          (ls, res) = (if data
            then let (ls, res) = data_lines L (m_channels m) max_size 0 (listed (im_keys (m_data m)) (im_map (m_data m)))
                 in (''Channel Data:'' # ls, res)
            else ([], Ok ()))
      in (head_lines L P rx main_header data_header meta counter @ ls, res, increment_counter counter))"

subsection \<open>Statistics\<close>

text \<open>\<open>eps\<close> lists the endpoints with diagnostics in the order they are visited.\<close>

definition diagnostics_lines :: "string list \<Rightarrow> (string \<Rightarrow> (endpoint_diag \<Rightarrow> u32 option) option) \<Rightarrow> string list" where
  "diagnostics_lines eps diags =
     concat (map (\<lambda>(ep, d). (tab @ ''Endpoint Diagnostics: '' @ ep)
       # map (\<lambda>(x, n). tab @ tab @ debug_diag x @ '': '' @ show_unsigned n)
           (List.map_filter (\<lambda>x. map_option (Pair x) (d x)) ALL_DIAGS)) (listed eps diags))"

definition print_stats_rec :: "(u32 \<Rightarrow> string list) \<Rightarrow> 's receiver \<Rightarrow> string list" where
  "print_stats_rec eps r =
     [''Receiver '' @ show_unsigned (rv_index r) @ '' ('' @ debug_socket_type (rv_socket_type r) @ '', ''
        @ debug_connection_mode (rv_connection_mode r) @ '', '' @ debug_delivery_mode (rv_delivery_mode r) @ ''):'',
      tab @ ''Connections: '' @ show_nat (connections r),
      tab @ ''Available: '' @ show_unsigned (rv_available r),
      tab @ ''Dropped: '' @ show_unsigned (rv_dropped r),
      tab @ ''Message Count: '' @ show_unsigned (message_count r),
      tab @ ''Error Count: '' @ show_unsigned (error_count r)]
     @ diagnostics_lines (eps (rv_index r)) (st_diagnostics (rv_stats r))"

text \<open>The modes of a pool are those of its first receiver.\<close>

definition pool_delivery_mode :: "'s pool \<Rightarrow> delivery_mode res" where
  "pool_delivery_mode p = (case pl_receivers p of [] \<Rightarrow> Panic | r # _ \<Rightarrow> Ok (rv_delivery_mode r))"

definition pool_connection_mode :: "'s pool \<Rightarrow> connection_mode res" where
  "pool_connection_mode p = (case pl_receivers p of [] \<Rightarrow> Panic | r # _ \<Rightarrow> Ok (rv_connection_mode r))"

definition print_stats_pool :: "string list \<Rightarrow> (u32 \<Rightarrow> string list) \<Rightarrow> 's pool \<Rightarrow> string list res" where
  "print_stats_pool eps rec_eps p =
     res_bind (pool_connection_mode p) (\<lambda>cm.
     res_map (\<lambda>dm.
       [''Pool('' @ debug_socket_type (pl_socket_type p) @ '', '' @ debug_connection_mode cm @ '', '' @ debug_delivery_mode dm @ ''):'',
        tab @ ''Connections: '' @ show_nat (pool_connections p),
        tab @ ''Available: '' @ show_unsigned (pool_available p),
        tab @ ''Dropped: '' @ show_unsigned (pool_dropped p),
        tab @ ''Message Count: '' @ show_unsigned (pool_message_count p),
        tab @ ''Error Count: '' @ show_unsigned (pool_error_count p)]
       @ diagnostics_lines eps (pool_diagnostics p)
       @ concat (map (print_stats_rec rec_eps) (pl_receivers p)))
     (pool_delivery_mode p))"

subsection \<open>The lines of the data\<close>

lemma array_text: "is_array v \<Longrightarrow> to_astr L v \<noteq> None"
  by (cases v) (simp_all add: to_str_array_def)

lemma data_line_Ok: "\<exists>line. channel_data_line L cd pre n = Ok line"
proof (cases cd)
  case (Some d)
  then show ?thesis using array_text [of "cd_value d" L]
    by (cases "to_astr L (cd_value d)") (auto simp: channel_data_line_def)
qed (simp add: channel_data_line_def)

lemma data_lines_enough:
  assumes "index + length xs \<le> length chs"
  shows "\<exists>ls. data_lines L chs n index xs = (ls, Ok ()) \<and> length ls = length xs
    \<and> (\<forall>i < length xs. channel_data_line L (snd (xs ! i))
         (tab @ fst (xs ! i) @ '' <'' @ cfg_kind (ch_config (chs ! (index + i))) @ ''>: '') n = Ok (ls ! i))"
  using assms
proof (induction xs arbitrary: index)
  case Nil
  then show ?case by simp
next
  case (Cons x xs)
  obtain key cd where x: "x = (key, cd)" by (cases x)
  obtain line where l: "channel_data_line L cd (tab @ key @ '' <'' @ cfg_kind (ch_config (chs ! index)) @ ''>: '') n = Ok line"
    using data_line_Ok by blast
  from Cons.IH [of "index + 1"] Cons.prems obtain ls where ls: "data_lines L chs n (index + 1) xs = (ls, Ok ())"
      "length ls = length xs"
      "\<forall>i < length xs. channel_data_line L (snd (xs ! i))
         (tab @ fst (xs ! i) @ '' <'' @ cfg_kind (ch_config (chs ! (index + 1 + i))) @ ''>: '') n = Ok (ls ! i)"
    by auto
  have "\<forall>i < length (x # xs). channel_data_line L (snd ((x # xs) ! i))
         (tab @ fst ((x # xs) ! i) @ '' <'' @ cfg_kind (ch_config (chs ! (index + i))) @ ''>: '') n = Ok ((line # ls) ! i)"
    using ls(3) l by (auto simp: x nth_Cons split: nat.split)
  with ls l Cons.prems show ?case by (simp add: x)
qed

lemma data_lines_panic:
  "index \<le> length chs \<Longrightarrow> length chs < index + length xs \<Longrightarrow> snd (data_lines L chs n index xs) = Panic"
proof (induction xs arbitrary: index)
  case Nil
  then show ?case by simp
next
  case (Cons x xs)
  obtain key cd where x: "x = (key, cd)" by (cases x)
  obtain line where "channel_data_line L cd (tab @ key @ '' <'' @ cfg_kind (ch_config (chs ! index)) @ ''>: '') n = Ok line"
    using data_line_Ok by blast
  with Cons.prems Cons.IH [of "index + 1"] show ?case by (auto simp: x Let_def case_prod_beta)
qed

subsection \<open>The entries of a parsed message\<close>

lemma listed_all: "\<forall>k \<in> set ks. m k \<noteq> None \<Longrightarrow> listed ks m = map (\<lambda>k. (k, the (m k))) ks"
  by (induction ks) (auto simp: listed_def map_filter_def)

lemma parse_frames_keys:
  assumes "indexmap_ok L" and "parse_frames L gts raw chs frames data = Ok data'"
    and "\<forall>k \<in> set (im_keys data). im_map data k \<noteq> None"
  shows "(\<forall>k \<in> set (im_keys data'). im_map data' k \<noteq> None)
    \<and> length (im_keys data') \<le> length (im_keys data) + length chs
    \<and> (distinct (map ch_name chs) \<and> set (im_keys data) \<inter> set (map ch_name chs) = {} \<longrightarrow> im_keys data' = im_keys data @ map ch_name chs)"
  using assms
proof (induction L gts raw chs frames data rule: parse_frames.induct)
  case (1 L gts raw ch chs v t rest data)
  from "1.prems"(2) obtain x where x: "res_ok (parse_channel_data L gts ch v t raw) = Ok x"
      "parse_frames L gts raw chs rest (im_insert L data (cfg_name (ch_config ch)) x) = Ok data'"
    by (auto simp: res_simps)
  let ?d = "im_insert L data (cfg_name (ch_config ch)) x"
  have k: "im_keys ?d = (if ch_name ch \<in> set (im_keys data) then im_keys data else im_keys data @ [ch_name ch])"
    using "1.prems"(1) by (simp add: im_insert_def indexmap_ok_def ch_name_def)
  have "\<forall>k \<in> set (im_keys ?d). im_map ?d k \<noteq> None"
    unfolding k using "1.prems"(3) by (auto simp: im_insert_def ch_name_def)
  from "1.IH" [OF "1.prems"(1) x(2) this] show ?case unfolding k by (auto split: if_splits)
qed auto

lemma parsed_data:
  assumes "parse_message L parts ep c raw = (Ok m, c')"
  obtains gts frames where "parse_frames L gts raw (m_channels m) frames im_new = Ok (m_data m)"
proof -
  from assms obtain l where "parse_body L parts ep c raw = Ok (m, l)"
    by (cases "parse_body L parts ep c raw") (auto simp: parse_message_def split: prod.splits option.splits)
  then obtain mh h gts dh chs changed where "parse_data L parts mh h gts raw dh chs changed = Ok (m, l)"
    by (auto simp: parse_body_def res_simps split: if_splits)
  then obtain data where d: "parse_frames L gts raw chs (drop 2 parts) im_new = Ok data"
      and m: "message_new L mh dh chs data (Some changed) raw = Ok m"
    by (auto simp: parse_data_def res_simps split: if_splits)
  from d message_new_fields [OF m] show ?thesis by (intro that) simp
qed

lemma received_parsed:
  assumes "receive L z sim r = (Ok rm, r')"
  obtains ps c c' where "parse_message L ps (rm_endpoint rm) c (rv_raw r) = (Ok (rm_message rm), c')"
proof -
  obtain ep parts r1 where raw: "raw_receive z r = ((ep, parts), r1)" by (cases "raw_receive z r") auto
  note f = raw_receive_fields [OF raw]
  from assms raw obtain ps r2 where p: "process_message L z sim r1 ep ps = (Ok (rm_message rm), r2)" "rm_endpoint rm = ep"
    by (auto simp: receive_def split: if_splits res.splits prod.splits)
  obtain pm c where c: "parse_message L ps ep (rv_header_buffer r1) (rv_raw r1) = (pm, c)"
    by (cases "parse_message L ps ep (rv_header_buffer r1) (rv_raw r1)")
  with p(1) obtain m r3 where "pm = Ok m" "check_message sim r3 m ep = (Ok (rm_message rm), r2)"
    by (cases pm) (auto simp: process_message_def)
  with check_message_cases [OF this(2)] have "pm = Ok (rm_message rm)" by (auto split: if_splits)
  with c f p(2) show ?thesis by (intro that) simp
qed

text \<open>
  C22. Printing a received message: whatever the options, it never panics, increments the
  message counter and prints one line for each value; and when the channels' names are
  distinct, line number i shows channel number i: its name, its type and its value.
\<close>

theorem print_received_message:
  assumes "indexmap_ok L" and "receive L z sim r = (Ok rm, r')"
  shows "\<exists>ls vs. print_message L P rm n mh dh meta True counter = (ls @ ''Channel Data:'' # vs, Ok (), counter + 1)
    \<and> length vs \<le> length (m_channels (rm_message rm))
    \<and> (distinct (map ch_name (m_channels (rm_message rm))) \<longrightarrow>
        length vs = length (m_channels (rm_message rm))
        \<and> (\<forall>i < length vs. let ch = m_channels (rm_message rm) ! i
             in channel_data_line L (message_channel_data (rm_message rm) (ch_name ch))
                  (tab @ ch_name ch @ '' <'' @ cfg_kind (ch_config ch) @ ''>: '') n = Ok (vs ! i)))"
proof -
  obtain ps c c' where "parse_message L ps (rm_endpoint rm) c (rv_raw r) = (Ok (rm_message rm), c')"
    using received_parsed [OF assms(2)] .
  then obtain gts frames where f: "parse_frames L gts (rv_raw r) (m_channels (rm_message rm)) frames im_new = Ok (m_data (rm_message rm))"
    by (rule parsed_data)
  let ?m = "rm_message rm"
  let ?es = "listed (im_keys (m_data ?m)) (im_map (m_data ?m))"
  note k = parse_frames_keys [OF assms(1) f]
  have all: "\<forall>k \<in> set (im_keys (m_data ?m)). im_map (m_data ?m) k \<noteq> None" using k by (simp add: im_new_def)
  note es = listed_all [OF this]
  have "0 + length ?es \<le> length (m_channels ?m)" using k by (simp add: es im_new_def)
  from data_lines_enough [OF this, of L n] obtain vs where vs: "data_lines L (m_channels ?m) n 0 ?es = (vs, Ok ())"
      "length vs = length ?es"
      "\<forall>i < length ?es. channel_data_line L (snd (?es ! i))
         (tab @ fst (?es ! i) @ '' <'' @ cfg_kind (ch_config (m_channels ?m ! i)) @ ''>: '') n = Ok (vs ! i)"
    by auto
  have "length vs = length (m_channels ?m) \<and> (\<forall>i < length vs. let ch = m_channels ?m ! i
      in channel_data_line L (message_channel_data ?m (ch_name ch))
           (tab @ ch_name ch @ '' <'' @ cfg_kind (ch_config ch) @ ''>: '') n = Ok (vs ! i))"
    if "distinct (map ch_name (m_channels ?m))"
  proof -
    have ks: "im_keys (m_data ?m) = map ch_name (m_channels ?m)" using k that by (simp add: im_new_def)
    have nth: "i < length (m_channels ?m) \<Longrightarrow> ?es ! i = (ch_name (m_channels ?m ! i), the (im_map (m_data ?m) (ch_name (m_channels ?m ! i))))"
      for i unfolding ks es [unfolded ks] by simp
    have "message_channel_data ?m (ch_name (m_channels ?m ! i)) = snd (?es ! i) \<and> fst (?es ! i) = ch_name (m_channels ?m ! i)"
      if "i < length (m_channels ?m)" for i
      unfolding nth [OF that] message_channel_data_def
      using bspec [OF all [unfolded ks], of "ch_name (m_channels ?m ! i)"] that by auto
    moreover have "length ?es = length (m_channels ?m)" unfolding ks es [unfolded ks] by simp
    ultimately show ?thesis using vs(2,3) by (simp add: Let_def)
  qed
  with vs(1,2) \<open>0 + length ?es \<le> length (m_channels ?m)\<close> show ?thesis
    by (intro exI [of _ "head_lines L P rm mh dh meta counter"] exI [of _ vs]) (simp add: print_message_def increment_counter_def Let_def)
qed

theorem print_received_message_witness:
  "\<exists>rm ls. fst (receive typ_ext typ_zmq (Err (InvalidData, [])) demo_receiver) = Ok rm
     \<and> print_message typ_ext \<lparr>pr_main_keys = [], pr_data_keys = [], pr_object_keys = (\<lambda>_. []), pr_json = (\<lambda>_. []), pr_thread = None\<rparr>
         rm 1 False False True True 41
       = (ls @ [''Channel Data:'', tab @ ''a <uint8>: ['' @ str_debug ref_ext ''5'' @ ''] ... (1 more elements)''], Ok (), 42)"
proof -
  obtain rm r' where r: "receive typ_ext typ_zmq (Err (InvalidData, [])) demo_receiver = (Ok rm, r')"
      "m_channels (rm_message rm) = [typ_ch]" "message_channel_value (rm_message rm) ''a'' = Some (AU8 [5, 6])"
    using typ_receive by blast
  let ?P = "\<lparr>pr_main_keys = [], pr_data_keys = [], pr_object_keys = (\<lambda>_. []), pr_json = (\<lambda>_. []), pr_thread = None\<rparr> :: printing"
  obtain cd where cd: "message_channel_data (rm_message rm) ''a'' = Some cd" "cd_value cd = AU8 [5, 6]"
    using r(3) by (auto simp: message_channel_value_def)
  have ch: "ch_name typ_ch = ''a''" "cfg_kind (ch_config typ_ch) = ''uint8''"
    by (simp_all add: typ_ch_def channel_array_def mk_config_def ch_name_def)
  have i: "indexmap_ok typ_ext" using ref_indexmap_ok by (simp add: indexmap_ok_def typ_ext_def)
  obtain ls vs where p: "print_message typ_ext ?P rm 1 False False True True 41 = (ls @ ''Channel Data:'' # vs, Ok (), 41 + 1)"
      "length vs = 1" "channel_data_line typ_ext (Some cd) (tab @ ''a'' @ '' <'' @ ''uint8'' @ ''>: '') 1 = Ok (vs ! 0)"
    using print_received_message [OF i r(1), of ?P 1 False False True 41] by (auto simp: r(2) ch cd Let_def)
  have d: "digit_char 5 = CHR ''5''" "digit_char 1 = CHR ''1''" by code_simp+
  have "channel_data_line typ_ext (Some cd) (tab @ ''a'' @ '' <'' @ ''uint8'' @ ''>: '') 1
      = Ok (tab @ ''a <uint8>: ['' @ str_debug ref_ext ''5'' @ ''] ... (1 more elements)'')"
    by (simp add: channel_data_line_def cd(2) to_str_array_def limited_debug_def Let_def show_slice_def show_unsigned_def
        typ_ext_def show_nat.simps d d(2) [unfolded One_nat_def])
  with p have "vs = [tab @ ''a <uint8>: ['' @ str_debug ref_ext ''5'' @ ''] ... (1 more elements)'']"
    by (cases vs) auto
  with p(1) r(1) show ?thesis by auto
qed

text \<open>A message made by the caller may hold data that belong to no channel: then it panics.\<close>

lemma print_message_panics:
  assumes "length (m_channels (rm_message rx)) < length (listed (im_keys (m_data (rm_message rx))) (im_map (m_data (rm_message rx))))"
  shows "\<exists>ls. print_message L P rx n mh dh meta True counter = (ls, Panic, counter + 1)"
  using data_lines_panic [of 0 "m_channels (rm_message rx)" "listed (im_keys (m_data (rm_message rx))) (im_map (m_data (rm_message rx)))" L n]
    assms
  by (simp add: print_message_def increment_counter_def Let_def case_prod_beta)

lemma print_stats_pool_panics: "print_stats_pool eps f p = Panic \<longleftrightarrow> pl_receivers p = []"
  by (cases "pl_receivers p") (simp_all add: print_stats_pool_def pool_connection_mode_def pool_delivery_mode_def)

end
