(* ===== verification/Bs_Dispatcher.thy ===== *)
theory Bs_Dispatcher
  imports Bs_Sender
begin

section \<open>The dispatcher client (src/src/dispatcher.rs)\<close>

text \<open>
  Requests for a stream of channels to the dispatcher's HTTP interface.  The HTTP client
  (reqwest) is the parameter \<open>http\<close>: what it answers to a request, as an error text or a
  response with its status and its body, read as text or as JSON.
\<close>

record channel_description =
  cde_name :: string
  cde_modulo :: "u32 option"
  cde_offset :: "u32 option"

definition channel_description_new :: "string \<Rightarrow> u32 \<Rightarrow> u32 \<Rightarrow> channel_description" where
  "channel_description_new name m offset = \<lparr>cde_name = name, cde_modulo = Some m, cde_offset = Some offset\<rparr>"

definition channel_description_of :: "string \<Rightarrow> channel_description" where
  "channel_description_of name = \<lparr>cde_name = name, cde_modulo = None, cde_offset = None\<rparr>"

record dispatcher_config =
  dc_channels :: "channel_description list"
  dc_stream_type :: string
  dc_verify :: bool
  dc_inconsistency :: string
  dc_compression :: "string option"

text \<open>The serialization serde derives: a field that is \<open>None\<close> is skipped.\<close>

definition json_field :: "string \<Rightarrow> json option \<Rightarrow> header \<Rightarrow> header" where
  "json_field key v h = (case v of None \<Rightarrow> h | Some j \<Rightarrow> h(key \<mapsto> j))"

definition channel_description_json :: "ext \<Rightarrow> channel_description \<Rightarrow> json" where
  "channel_description_json L c =
     JObject (json_field ''offset'' (map_option (\<lambda>n. json_of_u64 L (ucast n)) (cde_offset c))
       (json_field ''modulo'' (map_option (\<lambda>n. json_of_u64 L (ucast n)) (cde_modulo c))
         [''name'' \<mapsto> JString (cde_name c)]))"

definition dispatcher_config_json :: "ext \<Rightarrow> dispatcher_config \<Rightarrow> json" where
  "dispatcher_config_json L c =
     JObject (json_field ''compression'' (map_option JString (dc_compression c))
       [''channels'' \<mapsto> JArray (map (channel_description_json L) (dc_channels c)),
        ''stream_type'' \<mapsto> JString (dc_stream_type c),
        ''verify'' \<mapsto> JBool (dc_verify c),
        ''channel_validation'' \<mapsto> JObject [''inconsistency'' \<mapsto> JString (dc_inconsistency c)]])"

text \<open>The configuration of a request, with its defaults.\<close>

definition request_config ::
  "channel_description list \<Rightarrow> string option \<Rightarrow> string option \<Rightarrow> bool \<Rightarrow> bool \<Rightarrow> dispatcher_config" where
  "request_config channels stream_type inconsistency verify disable_compression =
     \<lparr>dc_channels = channels, dc_stream_type = opt_or ''pub_sub'' stream_type, dc_verify = verify,
      dc_inconsistency = opt_or (if verify then ''adjust-individual'' else ''keep-as-is'') inconsistency,
      dc_compression = (if disable_compression then Some ''none'' else None)\<rparr>"

subsection \<open>Requests\<close>

datatype http_body = JsonBody json | TextBody string

record http_request =
  hr_method :: string
  hr_url :: string
  hr_content_type :: string
  hr_body :: http_body

record http_response =
  hs_success :: bool
  hs_text :: "string + string"
  hs_json :: "string + json"

type_synonym http = "http_request \<Rightarrow> string + http_response"

definition BASE_URL :: string where
  "BASE_URL = ''https://dispatcher-api.psi.ch/sf''"

text \<open>
  \<open>request_stream\<close>; \<open>dbg\<close> is \<open>{:?}\<close> of the configuration.  The indexing of the answer is
  total in serde_json (\<open>Null\<close> when there is no such field), the \<open>unwrap\<close> is not.
\<close>

definition request_stream ::
  "ext \<Rightarrow> http \<Rightarrow> (dispatcher_config \<Rightarrow> string) \<Rightarrow> channel_description list \<Rightarrow> string option \<Rightarrow> string option
   \<Rightarrow> bool \<Rightarrow> bool \<Rightarrow> string res" where
  "request_stream L http dbg channels stream_type inconsistency verify disable_compression =
     (let cfg = request_config channels stream_type inconsistency verify disable_compression in
      case http \<lparr>hr_method = ''POST'', hr_url = BASE_URL @ ''/stream'', hr_content_type = ''application/json'',
                 hr_body = JsonBody (dispatcher_config_json L cfg)\<rparr> of
        Inl e \<Rightarrow> Err (ConnectionRefused, e)
      | Inr r \<Rightarrow>
          if \<not> hs_success r
          then Err (OtherError,
                 case hs_text r of
                   Inr msg \<Rightarrow> ''Unable to request stream '' @ dbg cfg @ '': '' @ msg
                 | Inl e \<Rightarrow> ''Error requesting stream '' @ dbg cfg @ '': '' @ e)
          else (case hs_json r of
              Inl e \<Rightarrow> Err (InvalidData, e)
            | Inr j \<Rightarrow>
                opt_unwrap (Option.bind (json_object j) (\<lambda>h. Option.bind (h ''stream'') json_str))))"

text \<open>\<open>remove_stream\<close>: of an answer that is no success a text is made and dropped.\<close>

definition remove_stream :: "http \<Rightarrow> string \<Rightarrow> unit res" where
  "remove_stream http stream =
     (case http \<lparr>hr_method = ''DELETE'', hr_url = BASE_URL @ ''/stream'', hr_content_type = ''text/plain'',
                 hr_body = TextBody stream\<rparr> of
        Inl e \<Rightarrow> Err (OtherError, e)
      | Inr r \<Rightarrow> Ok ())"

text \<open>A server that refuses to remove a stream is not noticed, and one that answers \<open>null\<close> panics.\<close>

lemma refused_removal:
  "remove_stream (\<lambda>_. Inr \<lparr>hs_success = False, hs_text = Inr ''no such stream'', hs_json = Inl []\<rparr>) stream = Ok ()"
  by (simp add: remove_stream_def)

lemma answer_without_stream:
  "request_stream L (\<lambda>_. Inr \<lparr>hs_success = True, hs_text = Inl [], hs_json = Inr JNull\<rparr>) dbg chs st inc v d = Panic"
  by (simp add: request_stream_def Let_def)

end
