(* ===== verification/Spec2Isabelle.thy ===== *)
theory Spec2Isabelle
  imports Bs_Prelude Bs_Containers Bs_Types Bs_Helpers Bs_Codec Bs_Value Bs_Channel Bs_Compression Bs_Message
    Bs_Sockets Bs_Monitor Bs_Sender Bs_Receiver Bs_Accounting Bs_Stream Bs_Endpoints Bs_Supervision
    Bs_Buffered Bs_Network Bs_Delivery Bs_Pool
    Bs_PoolLife Bs_Async Bs_Reachable Bs_Typing Bs_Context Bs_Debug
    Bs_SenderThreads Bs_SelfTest Bs_Print Bs_Dispatcher
begin

section \<open>A verification development for the crate bsread\<close>

text \<open>
  \<^bold>\<open>The program.\<close>  bsread is a client library for beam-synchronous data: a sender turns typed
  channel values into multipart ZeroMQ messages (a JSON main header, a JSON data header, and
  two frames for each channel: value and timestamp), and receivers turn such messages back
  into values.  Paths below are under src/src.

  \<^bold>\<open>The parts, the theories that model them, and their state.\<close>

  \<^item> \<open>Bs_Prelude\<close>: results of fallible code (\<open>res\<close>: a value, an \<open>IOError\<close> with its kind, or a
    panic), \<open>Result\<close>'s and \<open>Option\<close>'s combinators, byte lists in both byte orders, decimal text.
  \<^item> \<open>Bs_Containers\<close> (utils.rs): \<open>LimitedHashMap\<close>, the bounded map behind the header cache
    (record \<open>lhm\<close>: map, order, maximum), and \<open>FifoQueue\<close>, the queue of the buffered mode
    (record \<open>fifo\<close>), whose mutex and condition variable are an interleaving of atomic steps.
  \<^item> \<open>Bs_Types\<close> (lib.rs): compression names, strings as UTF-8 bytes, JSON values, the record
    \<open>ext\<close> of the third-party functions.  \<open>Bs_Helpers\<close> (utils.rs): the md-5 text of a data header
    (it names the digest, and is never an endpoint: \<open>endpoint_not_hash\<close>, the assumption of the
    theorems on header caches), timestamps, the origin of simulated pulse ids, the program's name.
  \<^item> \<open>Bs_Codec\<close> (reader.rs, writer.rs): cursors and the readers and writers of scalars and
    arrays.  \<open>Bs_Value\<close> (value.rs, convert.rs): the 24 variants of a value, with every accessor
    and conversion.  \<open>Bs_Channel\<close> (channel.rs): configurations, channel objects with their read
    and write functions, construction by type string.  \<open>Bs_Compression\<close> (compression.rs): the
    framing of lz4 and of bitshuffle with lz4.
  \<^item> \<open>Bs_Message\<close> (message.rs): headers, the frames of a channel, messages, \<open>parse_message\<close> with
    its cache of data headers.
  \<^item> \<open>Bs_Sockets\<close> (sockets.rs): transports and endpoint strings, socket options, the endpoint
    monitor (a table fed by commands and events), tracked sockets.  \<open>Bs_Monitor\<close> is the
    monitor's thread, cycle by cycle (record \<open>monitor_thread\<close>).
  \<^item> \<open>Bs_Sender\<close> (sender.rs): record \<open>sender\<close>; header creation, pulse ids, \<open>send\<close>, \<open>forward\<close>.
  \<^item> \<open>Bs_Receiver\<close> (receiver.rs): record \<open>receiver\<close>; reception over polled sockets, id checks,
    counters, endpoints and connections, the buffered mode, the listening loop with its
    forwarder and commands, errors of the listening thread.  \<open>Bs_Accounting\<close> relates its
    counters to its outcomes, \<open>Bs_Stream\<close> composes a sender, its wire and a receiver,
    \<open>Bs_Typing\<close> gives what is received the types of its channels,
    \<open>Bs_Endpoints\<close> holds its invariant over the operations of reception and connection, and
    \<open>Bs_Supervision\<close> models monitoring, options and the life cycle of its thread
    (record \<open>supervised\<close>: receiver, interruption flags, outcome of the thread).
    \<open>Bs_Buffered\<close> is the buffered mode end to end (record \<open>buffered\<close>: the thread's receiver with the
    shared queue, what was received and what consumers got; relation \<open>buffered_run\<close>).
    \<open>Bs_Network\<close> connects receivers to a network (\<open>net_zmq\<close>) and treats those with a forwarder as
    relays, \<open>Bs_Delivery\<close> follows messages from a sender to the consumer of a started receiver.
  \<^item> \<open>Bs_Pool\<close> and \<open>Bs_PoolLife\<close> (pool.rs): record \<open>pool\<close>; distribution of endpoints over
    receivers, connections, reception, options, and the life cycle of all threads.
  \<^item> \<open>Bs_Async\<close> (receiver.rs, pool.rs): delivery through the tasks of a tokio runtime, one channel
    and task for each endpoint (record \<open>async_delivery\<close>) or one task for each message.
    \<open>Bs_Reachable\<close> closes the receiver: the relation \<open>managed\<close> of all operations of its interface,
    and the invariant over it.
  \<^item> \<open>Bs_Context\<close> (bsread.rs): the context with the shared interruption flag.
    \<open>Bs_Debug\<close> (debug.rs): the test sender, its messages and the check of their contents; \<open>Bs_SenderThreads\<close> the
    threads of test senders (record \<open>sender_threads\<close>: the static flag and the list of handles);
    \<open>Bs_SelfTest\<close> composes the test sender's loop, a receiver and the check; \<open>Bs_Print\<close> is the
    printing of messages and statistics, as lists of lines.
    \<open>Bs_Dispatcher\<close> (dispatcher.rs): requests for streams over HTTP.

  A method that changes its object takes the record and returns it updated beside its result;
  \<open>?\<close>, \<open>unwrap\<close>, \<open>expect\<close>, an index out of range and an early return are branches of \<open>res\<close>.
  Machine integers are words of their width; where the code wraps, so does the model, as a
  release build does (\<open>dropped\<close> and the message counters wrap at \<open>2 ^ 32\<close>, the number of
  elements of a shape is a \<open>u32\<close> product).  Hash maps are functions to options, or
  association lists where the code iterates them; \<open>IndexMap\<close> keeps its keys' order.

  \<^bold>\<open>What is a parameter.\<close>  The record \<open>ext\<close> holds byteorder, num-traits casts, serde_json,
  indexmap, md-5, lz4, the vendored bitshuffle functions and the standard library's float
  formatting; the record \<open>zmq\<close> holds the socket operations, over a type \<open>'s\<close> of socket states.
  The laws a property uses are named hypotheses: \<open>byteorder_ok\<close>, \<open>num_cast_ok\<close>,
  \<open>float_cast_ok\<close>, \<open>json_num_ok\<close>, \<open>indexmap_ok\<close>, and, for single texts or buffers, \<open>json_map_ok\<close>,
  \<open>json_btree_ok\<close>, \<open>lz4_ok\<close>, \<open>bshuf_ok\<close>.  Each property with hypotheses has a witness that
  instantiates the parameters (\<open>ref_ext\<close> and its variants, \<open>demo_zmq\<close>, \<open>wire_zmq\<close>, \<open>feed_zmq\<close>, \<open>net_zmq\<close>) and meets
  every hypothesis at a concrete input.  zmq itself has no laws: properties about sockets hold
  for every behaviour of it, errors included, except \<open>send_multipart\<close> (\<open>wire_log\<close>: a call that
  fails sends nothing) and those stated over \<open>wire_zmq\<close>, which
  records the frames sent, \<open>feed_zmq\<close>, which hands out waiting messages, and \<open>net_zmq\<close>, which does both.

  \<^bold>\<open>What the lemmas show.\<close>  From values to the wire: every channel reads back what it wrote
  (\<open>channel_write_read\<close>), frames and headers round-trip through compression and JSON, a message
  sent is the message parsed (\<open>send_then_parse\<close>), a run of sends is received in full and in
  order by a receiver with any sound cache (\<open>stream_delivered\<close>), the crate's own test traffic passes its own
  check for the first 100 messages (\<open>test_stream_checked\<close>), and the header cache changes no outcome over any sequence of
  messages (\<open>header_cache_transparent\<close>).  Through the interface, from \<open>send\<close> to \<open>wait_messages\<close> on a started
  receiver, the newest messages a queue has room for arrive (\<open>sent_is_consumed\<close>); a receiver with a forwarder
  passes on exactly what it takes (\<open>relay_exact\<close>), so that a stream arrives behind it as before it (\<open>stream_relayed\<close>).  The containers refine recency lists and lossy
  queues.  The sender refines an abstract list of calls (\<open>sender_send_refines\<close>), puts complete
  messages on the wire or leaves them open (\<open>send_multipart\<close>), and over every sequence of its
  operations keeps a main header that names its data header (\<open>sender_header_invariant\<close>).  The receiver keeps its poll list, cache and books over every
  reachable state (\<open>reachable_receiver_safe\<close>, \<open>error_accounting\<close>), delivers increasing ids
  (\<open>delivered_ids_increase\<close>) and values of their channels' types (\<open>received_values_typed\<close>), ends its loop when interrupted and counts what it calls back
  (\<open>interrupt_ends_listen\<close>, \<open>listen_bound\<close>), and hands asynchronous callbacks every message of an
  endpoint in order, one at a time (\<open>async_in_order\<close>).  In the buffered mode consumers get a subsequence of
  what was received, with increasing ids, and every loss is counted (\<open>buffered_in_order\<close>).  The pool deals endpoints evenly and holds none
  twice.  Other properties state exactly when an error or a panic arises, and where the code
  departs from what it means to do.

  \<^bold>\<open>Interfaces.\<close>  \<open>elem_codec\<close> and \<open>array_codec\<close> (a reader and a writer that agree, scalar and
  array; interpreted on every codec of the crate), \<open>bounded_cache\<close> (on \<open>LimitedHashMap\<close>),
  \<open>lossy_queue\<close> (on \<open>FifoQueue\<close>), \<open>block_compression\<close> (on lz4, on bitshuffle, and on the
  dispatch between them), \<open>message_source\<close> (a socket at which messages wait; on \<open>feed_zmq\<close>) and its
  extension \<open>relay_sockets\<close> (one that also sends; on \<open>net_zmq\<close>).

  \<^bold>\<open>Bounds and loops.\<close>  The eviction loop of \<open>set_max_size\<close> may run forever in the code, and so
  does its model (an option); that it ends on every well-formed map is a theorem, and with it
  that connecting always returns.  The endless loops (\<open>listen\<close>, a pool's \<open>listen\<close>, the test
  sender) run over the list of the iterations made so far, each with the clock, the flag and the
  commands it meets.  After the last of them the loop is still running, and its result \<open>None\<close>,
  unless an iteration has left it as the code does: by the count, an interruption, a time-out or
  a panic.  No property bounds that list, and none takes its end for the end of the loop.

  \<^bold>\<open>Concurrency.\<close>  Queue and monitor steps are interleaved in any order.  Commands of an outer
  receiver are answered by the thread's receiver (\<open>send_command\<close>), whose shared fields it
  sees; a pool over threaded receivers sees them as the parameter \<open>remote\<close>.  Asynchronous tasks
  step in any order, over bounded channels of which the model keeps what tokio documents
  (order, bound, the error of a closed channel).  Threads otherwise run as the functions they
  execute; how a thread ended is a \<open>thread_result\<close>, and a lock that a panicking thread held
  is poisoned where the code would notice (the monitor's table, the list of test senders).

  \<^bold>\<open>Not modelled.\<close>  Logging; the zero-copy byte views of convert.rs, which the crate does not
  use; plain accessors of private fields; the system clock, chrono's calendar, the path of the
  executable and the md-5 digest, which are calls of the system or a third-party crate
  (parameters of \<open>Bs_Helpers\<close> and \<open>ext\<close>); tests.rs, build.rs, and the vendored C code.
\<close>

end
